(* ===== verification/Prelude.thy ===== *)
theory Prelude
  imports Main "HOL-Library.Word" "HOL-Library.Char_ord" "HOL-Library.List_Lexorder" "HOL-Library.Multiset"
begin

text \<open>
  Shared vocabulary of the development: the machine types of the C++ sources, the exceptions
  they throw, byte and string helpers, and the list and option lemmas the components share.

  A \<open>std::string\<close> is a list of bytes and is modelled as an Isabelle \<open>string\<close> (a \<open>char\<close>
  is an 8-bit value), so \<open>size()\<close> is \<open>length\<close>. A \<open>uint8_t\<close> buffer is a list of
  \<open>8 word\<close>. Texts that are not ASCII in the sources are written as their UTF-8 bytes.
\<close>

section \<open>Types\<close>

type_synonym byte = "8 word"
type_synonym bytes = "byte list"
type_synonym fd = int
type_synonym sid = nat

text \<open>
  The C++ exceptions that can cross a function boundary of the program. \<open>TypeError\<close> carries
  the identifier of \<open>nlohmann::json::type_error\<close>.
\<close>

datatype cpp_exception =
    ParseError
  | TypeError nat
  | OutOfRange nat
  | RuntimeError string
  | InvalidArgument string

section \<open>Lemma collections\<close>

named_theorems frame_simps \<open>equations of the framing layer\<close>
named_theorems handler_defs \<open>definitions of the message handlers\<close>
named_theorems inv_intros \<open>introduction rules of the server invariant\<close>

section \<open>Bytes and strings\<close>

definition byte_char :: "byte \<Rightarrow> char" where
  "byte_char b = char_of (unat b)"

definition char_byte :: "char \<Rightarrow> byte" where
  "char_byte c = of_nat (of_char c)"

definition bytes_string :: "bytes \<Rightarrow> string" where
  "bytes_string bs = map byte_char bs"

definition string_bytes :: "string \<Rightarrow> bytes" where
  "string_bytes s = map char_byte s"

text \<open>A text of the sources given by the values of its UTF-8 bytes.\<close>

definition utf8 :: "nat list \<Rightarrow> string" where
  "utf8 ns = map char_of ns"

lemma of_char_lt_256: "(of_char c :: nat) < 256"
  by (metis nat_of_char_less_256)

lemma byte_char_char_byte [simp]: "byte_char (char_byte c) = c"
proof -
  have "unat (of_nat (of_char c) :: byte) = of_char c"
    using of_char_lt_256 [of c] by (simp add: unat_of_nat)
  then show ?thesis
    by (simp add: byte_char_def char_byte_def)
qed

lemma unat_byte_lt: "unat (b :: byte) < 256"
  using unsigned_less [of b] by simp

lemma char_byte_byte_char [simp]: "char_byte (byte_char b) = b"
  by (simp add: byte_char_def char_byte_def unat_byte_lt)

lemma bytes_string_inverse [simp]: "bytes_string (string_bytes s) = s"
  by (simp add: bytes_string_def string_bytes_def comp_def)

lemma string_bytes_inverse [simp]: "string_bytes (bytes_string bs) = bs"
  by (simp add: bytes_string_def string_bytes_def comp_def)

lemma length_string_bytes [simp]: "length (string_bytes s) = length s"
  by (simp add: string_bytes_def)

lemma length_bytes_string [simp]: "length (bytes_string bs) = length bs"
  by (simp add: bytes_string_def)

lemma string_bytes_append [simp]: "string_bytes (a @ b) = string_bytes a @ string_bytes b"
  by (simp add: string_bytes_def)

lemma bytes_string_append [simp]: "bytes_string (a @ b) = bytes_string a @ bytes_string b"
  by (simp add: bytes_string_def)

lemma string_bytes_Nil [simp]: "string_bytes s = [] \<longleftrightarrow> s = []" "string_bytes [] = []"
  by (simp_all add: string_bytes_def)

section \<open>Finite sets of strings\<close>

text \<open>
  \<open>std::unordered_set<std::string>\<close> as a list without repetitions: \<open>count\<close> is membership,
  \<open>insert\<close> leaves a present element alone, \<open>erase\<close> removes it.
\<close>

definition set_insert :: "'a \<Rightarrow> 'a list \<Rightarrow> 'a list" where
  "set_insert x xs = (if x \<in> set xs then xs else xs @ [x])"

definition set_erase :: "'a \<Rightarrow> 'a list \<Rightarrow> 'a list" where
  "set_erase x xs = filter (\<lambda>y. y \<noteq> x) xs"

lemma set_set_insert [simp]: "set (set_insert x xs) = insert x (set xs)"
  by (auto simp: set_insert_def)

lemma set_set_erase [simp]: "set (set_erase x xs) = set xs - {x}"
  by (auto simp: set_erase_def)

lemma distinct_set_insert [simp]: "distinct xs \<Longrightarrow> distinct (set_insert x xs)"
  by (simp add: set_insert_def)

lemma distinct_set_erase [simp]: "distinct xs \<Longrightarrow> distinct (set_erase x xs)"
  by (simp add: set_erase_def)

section \<open>Association lists with erasure\<close>

text \<open>
  \<open>std::unordered_map\<close> as an association list with distinct keys: assignment through
  \<open>operator[]\<close> replaces the value of a present key, \<open>erase\<close> drops the key.
\<close>

fun alist_put :: "'k \<Rightarrow> 'v \<Rightarrow> ('k \<times> 'v) list \<Rightarrow> ('k \<times> 'v) list" where
  "alist_put k v [] = [(k, v)]"
| "alist_put k v ((k', v') # xs) = (if k' = k then (k, v) # xs else (k', v') # alist_put k v xs)"

definition alist_erase :: "'k \<Rightarrow> ('k \<times> 'v) list \<Rightarrow> ('k \<times> 'v) list" where
  "alist_erase k xs = filter (\<lambda>p. fst p \<noteq> k) xs"

lemma map_of_alist_put [simp]: "map_of (alist_put k v xs) = (map_of xs)(k \<mapsto> v)"
  by (induction k v xs rule: alist_put.induct) (auto simp: fun_eq_iff)

lemma map_of_alist_erase [simp]: "map_of (alist_erase k xs) = (map_of xs)(k := None)"
  by (induction xs) (auto simp: alist_erase_def fun_eq_iff)

lemma keys_alist_put [simp]: "fst ` set (alist_put k v xs) = insert k (fst ` set xs)"
  by (induction k v xs rule: alist_put.induct) auto

lemma keys_alist_erase [simp]: "fst ` set (alist_erase k xs) = fst ` set xs - {k}"
  by (auto simp: alist_erase_def)

lemma distinct_alist_put: "distinct (map fst xs) \<Longrightarrow> distinct (map fst (alist_put k v xs))"
proof (induction k v xs rule: alist_put.induct)
  case (2 k v k' v' xs)
  have "fst ` set (alist_put k v xs) = insert k (fst ` set xs)"
    by (rule keys_alist_put)
  with 2 show ?case by auto
qed simp

lemma distinct_alist_erase: "distinct (map fst xs) \<Longrightarrow> distinct (map fst (alist_erase k xs))"
  by (induction xs) (auto simp: alist_erase_def)

lemma alist_put_fresh: "k \<notin> fst ` set xs \<Longrightarrow> alist_put k v xs = xs @ [(k, v)]"
  by (induction k v xs rule: alist_put.induct) auto

lemma set_alist_put_subset: "set (alist_put k v xs) \<subseteq> insert (k, v) (set xs)"
  by (induction k v xs rule: alist_put.induct) auto

lemma set_alist_erase [simp]: "set (alist_erase k xs) = {p \<in> set xs. fst p \<noteq> k}"
  by (auto simp: alist_erase_def)

section \<open>Prefixes\<close>

lemma take_append_exact [simp]: "length a = n \<Longrightarrow> take n (a @ b) = a"
  by simp

lemma append_split_le:
  assumes "a @ x = p @ q" and "length a \<le> length p"
  shows "p = a @ drop (length a) p" and "x = drop (length a) p @ q"
proof -
  from assms have *: "a = take (length a) p" "x = drop (length a) p @ q"
    by (simp_all add: append_eq_append_conv_if)
  then show "p = a @ drop (length a) p"
    using append_take_drop_id [of "length a" p] by simp
  show "x = drop (length a) p @ q" by (rule *(2))
qed

lemma drop_append_exact [simp]: "length a = n \<Longrightarrow> drop n (a @ b) = b"
  by simp

end
