(* ===== verification/Programs.thy ===== *)
theory Programs
  imports Prelude
begin

text \<open>
  Programs of atomic steps on a shared state, for code that other threads may interrupt between
  any two of its accesses to shared state: running a program alone, sequencing, interleaving many
  of them under a schedule, and the rule that an invariant and a growing part of the state are
  kept by every interleaving of programs of which each keeps them.
\<close>

section \<open>Programs\<close>

text \<open>
  A program has ended, normally or with the exception that left it, or its next atomic step maps
  the state to the rest of the program and the new state.
\<close>

datatype 's prog = Done "cpp_exception option" | Step "'s \<Rightarrow> 's prog \<times> 's"

primrec run :: "'s prog \<Rightarrow> 's \<Rightarrow> cpp_exception option \<times> 's" where
  "run (Done e) = (\<lambda>s. (e, s))"
| "run (Step f) = (\<lambda>s. case map_prod run id (f s) of (rest, s') \<Rightarrow> rest s')"

text \<open>A step that only reads, a step that only writes, and \<open>;\<close>, which an exception leaves.\<close>

definition ask :: "('s \<Rightarrow> 'a) \<Rightarrow> ('a \<Rightarrow> 's prog) \<Rightarrow> 's prog" where
  "ask g k = Step (\<lambda>s. (k (g s), s))"

definition act :: "('s \<Rightarrow> 's) \<Rightarrow> 's prog" where
  "act f = Step (\<lambda>s. (Done None, f s))"

primrec andthen :: "'s prog \<Rightarrow> 's prog \<Rightarrow> 's prog" where
  "andthen (Done e) q = (case e of None \<Rightarrow> q | Some x \<Rightarrow> Done (Some x))"
| "andthen (Step f) q = Step (\<lambda>s. map_prod (\<lambda>p. andthen p q) id (f s))"

primrec stage :: "'s prog list \<Rightarrow> 's prog" where
  "stage [] = Done None"
| "stage (p # ps) = andthen p (stage ps)"

text \<open>A program on one component of a larger state.\<close>

primrec lift_prog :: "'s prog \<Rightarrow> ('s \<times> 'q) prog" where
  "lift_prog (Done e) = Done e"
| "lift_prog (Step f) = Step (\<lambda>s. case map_prod lift_prog id (f (fst s)) of (p, s') \<Rightarrow> (p, (s', snd s)))"

lemma prog_induct [case_names Done Step]:
  assumes "\<And>e. P (Done e)" "\<And>f. (\<And>s. P (fst (f s))) \<Longrightarrow> P (Step f)"
  shows "P p"
proof (induction p)
  case (Step f)
  have "fst (f s) \<in> Basic_BNFs.fsts (f s)" for s by (cases "f s") (simp add: fsts.simps)
  with Step show ?case by (intro assms(2)) blast
qed (rule assms(1))

lemma run_Step: "run (Step f) s = run (fst (f s)) (snd (f s))"
  by (simp add: map_prod_def split: prod.split)

lemma run_ask [simp]: "run (ask g k) s = run (k (g s)) s"
  by (simp add: ask_def)

lemma run_act [simp]: "run (act f) s = (None, f s)"
  by (simp add: act_def)

lemma run_andthen [simp]:
  "run (andthen p q) s = (case run p s of (None, s') \<Rightarrow> run q s' | (Some e, s') \<Rightarrow> (Some e, s'))"
proof (induction p arbitrary: s rule: prog_induct)
  case (Done e)
  then show ?case by (cases e) auto
next
  case (Step f)
  obtain p s' where "f s = (p, s')" by fastforce
  with Step [of s s'] show ?case by simp
qed

lemma run_lift [simp]: "run (lift_prog p) (s, q) = (case run p s of (e, s') \<Rightarrow> (e, (s', q)))"
proof (induction p arbitrary: s rule: prog_induct)
  case (Step f)
  obtain p s' where "f s = (p, s')" by fastforce
  with Step [of s s'] show ?case by simp
qed simp

section \<open>Interleaving\<close>

text \<open>A schedule names the program that takes the next step; a program that has ended does nothing.\<close>

fun sched :: "nat list \<Rightarrow> 's prog list \<times> 's \<Rightarrow> 's prog list \<times> 's" where
  "sched [] c = c"
| "sched (k # ks) (ps, s) =
     (if k < length ps
      then (case ps ! k of
              Done e \<Rightarrow> sched ks (ps, s)
            | Step f \<Rightarrow> (case f s of (p, s') \<Rightarrow> sched ks (ps[k := p], s')))
      else sched ks (ps, s))"

definition ended :: "'s prog \<Rightarrow> bool" where
  "ended p \<longleftrightarrow> (\<exists>e. p = Done e)"

lemma ended_simps [simp]: "ended (Done e)" "\<not> ended (Step f)"
  by (simp_all add: ended_def)

text \<open>Every program runs to its end if it is scheduled often enough.\<close>

lemma alone_ends: "\<exists>n. sched (replicate n k) (ps[k := p], s) = (ps[k := Done (fst (run p s))], snd (run p s))"
  if "k < length ps" for k
  using that
proof (induction p arbitrary: s rule: prog_induct)
  case (Done e)
  then show ?case by (intro exI [of _ 0]) simp
next
  case (Step f)
  obtain p s' where f: "f s = (p, s')" by fastforce
  then obtain n where
    "sched (replicate n k) (ps[k := p], s') = (ps[k := Done (fst (run p s'))], snd (run p s'))"
    using Step.IH [of s s'] Step.prems by auto
  with f Step.prems show ?case by (intro exI [of _ "Suc n"]) simp
qed

section \<open>Growing states\<close>

text \<open>
  An invariant \<open>inv\<close> and a preorder \<open>grows\<close> that records what is never taken back. What a program
  relies on of a state stays true when the state grows; in exchange each of its steps grows the
  state and keeps the invariant. Programs that do so can be interleaved in any way.
\<close>

locale growing =
  fixes inv :: "'s \<Rightarrow> bool"
    and grows :: "'s \<Rightarrow> 's \<Rightarrow> bool"
  assumes grows_refl: "grows s s"
    and grows_trans: "grows s t \<Longrightarrow> grows t u \<Longrightarrow> grows s u"
begin

inductive keeps :: "'s \<Rightarrow> 's prog \<Rightarrow> bool" where
  keeps_Done: "keeps s (Done e)"
| keeps_Step: "(\<And>t. grows s t \<Longrightarrow> inv t \<Longrightarrow>
      grows t (snd (f t)) \<and> inv (snd (f t)) \<and> keeps (snd (f t)) (fst (f t))) \<Longrightarrow> keeps s (Step f)"

inductive_cases keeps_StepE: "keeps s (Step f)"

lemma keeps_StepI:
  "(\<And>t p t'. grows s t \<Longrightarrow> inv t \<Longrightarrow> f t = (p, t') \<Longrightarrow> grows t t' \<and> inv t' \<and> keeps t' p) \<Longrightarrow>
   keeps s (Step f)"
  by (intro keeps_Step) (metis prod.collapse)

lemma keeps_later: "keeps s p \<Longrightarrow> grows s t \<Longrightarrow> keeps t p"
  by (induction rule: keeps.induct) (auto intro!: keeps.intros intro: grows_trans)

lemma keeps_ask: "(\<And>t. grows s t \<Longrightarrow> inv t \<Longrightarrow> keeps t (k (g t))) \<Longrightarrow> keeps s (ask g k)"
  by (auto simp: ask_def grows_refl intro!: keeps_Step)

lemma keeps_act:
  "(\<And>t. grows s t \<Longrightarrow> inv t \<Longrightarrow> grows t (f t) \<and> inv (f t)) \<Longrightarrow> keeps s (act f)"
  by (auto simp: act_def intro!: keeps_Step keeps_Done)

lemma keeps_andthen:
  "keeps s p \<Longrightarrow> (\<And>t. grows s t \<Longrightarrow> keeps t q) \<Longrightarrow> keeps s (andthen p q)"
proof (induction rule: keeps.induct)
  case (keeps_Done s e)
  then show ?case by (cases e) (auto intro: keeps.keeps_Done grows_refl)
next
  case (keeps_Step s f)
  show ?case unfolding andthen.simps
  proof (rule keeps.keeps_Step)
    fix t assume t: "grows s t" "inv t"
    from keeps_Step.IH [OF t]
    have f: "grows t (snd (f t))" "inv (snd (f t))"
      "(\<And>x. grows (snd (f t)) x \<Longrightarrow> keeps x q) \<Longrightarrow> keeps (snd (f t)) (andthen (fst (f t)) q)"
      by auto
    have "keeps (snd (f t)) (andthen (fst (f t)) q)"
      by (rule f(3)) (rule keeps_Step.prems, rule grows_trans [OF t(1)], rule grows_trans [OF f(1)])
    with f show "grows t (snd (map_prod (\<lambda>p. andthen p q) id (f t))) \<and>
        inv (snd (map_prod (\<lambda>p. andthen p q) id (f t))) \<and>
        keeps (snd (map_prod (\<lambda>p. andthen p q) id (f t))) (fst (map_prod (\<lambda>p. andthen p q) id (f t)))"
      by simp
  qed
qed

lemma keeps_stage: "(\<And>p t. p \<in> set ps \<Longrightarrow> grows s t \<Longrightarrow> keeps t p) \<Longrightarrow> keeps s (stage ps)"
  by (induction ps arbitrary: s)
     (auto intro!: keeps_andthen keeps_Done intro: grows_refl grows_trans)

lemma keeps_next:
  "keeps s (Step f) \<Longrightarrow> inv s \<Longrightarrow> f s = (p, s') \<Longrightarrow> grows s s' \<and> inv s' \<and> keeps s' p"
  by (erule keeps_StepE) (metis fst_conv grows_refl snd_conv)

lemma keeps_sched:
  "inv s \<Longrightarrow> \<forall>p \<in> set ps. keeps s p \<Longrightarrow> sched ks (ps, s) = (ps', s') \<Longrightarrow>
   inv s' \<and> grows s s' \<and> (\<forall>p \<in> set ps'. keeps s' p)"
proof (induction ks arbitrary: ps s)
  case Nil
  then show ?case by (simp add: grows_refl)
next
  case (Cons k ks)
  show ?case
  proof (cases "k < length ps \<and> \<not> ended (ps ! k)")
    case False
    with Cons show ?thesis by (cases "ps ! k") (auto split: if_splits)
  next
    case True
    then obtain f where f: "ps ! k = Step f" by (cases "ps ! k") auto
    obtain p t where t: "f s = (p, t)" by fastforce
    have "keeps s (Step f)" using Cons.prems(2) True f nth_mem by metis
    from keeps_next [OF this Cons.prems(1) t] have n: "grows s t" "inv t" "keeps t p" by auto
    have "\<forall>q \<in> set (ps[k := p]). keeps t q"
      using Cons.prems(2) n set_update_subset_insert [of ps k p] by (auto intro: keeps_later)
    with Cons.IH [of t "ps[k := p]"] Cons.prems(3) True f t n show ?thesis
      by (auto intro: grows_trans)
  qed
qed

end

end
