(* ===== verification/Framing.thy ===== *)
theory Framing
  imports Prelude
begin

text \<open>
  The contract of the length-prefixed framing that both ends of the connection implement
  (\<open>server/src/protocol.cpp\<close> and \<open>client/src/chat_client.cpp\<close>), stated once as a locale:
  a sender wraps a body into a frame, a receiver looks at the front of its buffer and either
  waits, rejects the stream or takes one body off. The consequences that solve TCP
  fragmentation (a stream of frames comes out body by body, however it was cut into reads)
  are proved inside the locale and inherited by both implementations.
\<close>

section \<open>One look at the front of a receive buffer\<close>

datatype frame_step =
    NeedMore
  | ZeroLength
  | Oversized
  | Frame bytes bytes

text \<open>
  \<open>splits sp buf bodies rest\<close>: taking frames off \<open>buf\<close> with \<open>sp\<close> until it asks for more
  data yields \<open>bodies\<close> and leaves \<open>rest\<close>.
\<close>

inductive splits :: "(bytes \<Rightarrow> frame_step) \<Rightarrow> bytes \<Rightarrow> bytes list \<Rightarrow> bytes \<Rightarrow> bool"
  for sp :: "bytes \<Rightarrow> frame_step" where
  stop: "sp buf = NeedMore \<Longrightarrow> splits sp buf [] buf"
| take: "sp buf = Frame b r \<Longrightarrow> splits sp r bs rest \<Longrightarrow> splits sp buf (b # bs) rest"

inductive_cases splits_NilE: "splits sp buf [] rest"
inductive_cases splits_ConsE: "splits sp buf (b # bs) rest"
inductive_simps splits_Nil_iff: "splits sp buf [] rest"
inductive_simps splits_Cons_iff: "splits sp buf (b # bs) rest"

text \<open>
  \<open>fed sp buf chunks bodies rest\<close>: the chunks arrive one after the other, each is appended to
  what was left, and the buffer is drained after each.
\<close>

inductive fed :: "(bytes \<Rightarrow> frame_step) \<Rightarrow> bytes \<Rightarrow> bytes list \<Rightarrow> bytes list list \<Rightarrow> bytes \<Rightarrow> bool"
  for sp :: "bytes \<Rightarrow> frame_step" where
  fed_Nil: "fed sp buf [] [] buf"
| fed_Cons: "splits sp (buf @ c) bs r \<Longrightarrow> fed sp r cs bss rest \<Longrightarrow> fed sp buf (c # cs) (bs # bss) rest"

inductive_simps fed_Nil_iff: "fed sp buf [] bss rest"
inductive_simps fed_Cons_iff: "fed sp buf (c # cs) bss rest"

lemma splits_deterministic:
  "splits sp buf bs r \<Longrightarrow> splits sp buf bs' r' \<Longrightarrow> bs = bs' \<and> r = r'"
proof (induction arbitrary: bs' r' rule: splits.induct)
  case (stop buf)
  then show ?case by (auto elim: splits.cases)
next
  case (take buf b r bs rest)
  from take.prems take.hyps(1) obtain bs'' where "bs' = b # bs''" "splits sp r bs'' r'"
    by (cases rule: splits.cases) auto
  with take.IH show ?case by blast
qed

lemma splits_rest: "splits sp buf bs rest \<Longrightarrow> sp rest = NeedMore"
  by (induction rule: splits.induct) auto

section \<open>The interface\<close>

locale framing =
  fixes frame :: "bytes \<Rightarrow> bytes"
    and sp :: "bytes \<Rightarrow> frame_step"
    and body_ok :: "bytes \<Rightarrow> bool"
  assumes split_frame: "body_ok b \<Longrightarrow> sp (frame b @ rest) = Frame b rest"
    and split_partial: "body_ok b \<Longrightarrow> frame b = p @ q \<Longrightarrow> q \<noteq> [] \<Longrightarrow> sp p = NeedMore"
    and split_extend: "sp buf = Frame b r \<Longrightarrow> sp (buf @ more) = Frame b (r @ more)"
    and split_shrinks: "sp buf = Frame b r \<Longrightarrow> length r < length buf"
begin

lemma splits_frames: "list_all body_ok bs \<Longrightarrow> sp p = NeedMore \<Longrightarrow>
    splits sp (concat (map frame bs) @ p) bs p"
proof (induction bs)
  case Nil
  then show ?case by (simp add: splits.stop)
next
  case (Cons b bs)
  then have "sp (frame b @ (concat (map frame bs) @ p)) = Frame b (concat (map frame bs) @ p)"
    by (simp add: split_frame)
  with Cons show ?case by (auto intro: splits.take)
qed

lemma split_empty: assumes "body_ok b" shows "sp [] = NeedMore"
proof -
  have "frame b \<noteq> []"
  proof
    assume "frame b = []"
    with split_frame [OF assms, of "[]"] have "sp [] = Frame b []" by simp
    from split_shrinks [OF this] show False by simp
  qed
  then show ?thesis using split_partial [OF assms, of "[]" "frame b"] by simp
qed

text \<open>Draining, then receiving more and draining again, is draining the whole.\<close>

lemma splits_append:
  "splits sp a bs r \<Longrightarrow> splits sp (r @ c) cs r' \<Longrightarrow> splits sp (a @ c) (bs @ cs) r'"
proof (induction rule: splits.induct)
  case (stop buf)
  then show ?case by simp
next
  case (take buf b r bs rest)
  have "sp (buf @ c) = Frame b (r @ c)"
    by (rule split_extend) (rule take.hyps)
  with take show ?case by (auto intro: splits.take)
qed

lemma fed_concat:
  "fed sp r chunks bss rest \<Longrightarrow> sp r = NeedMore \<Longrightarrow>
   splits sp (r @ concat chunks) (concat bss) rest"
proof (induction rule: fed.induct)
  case (fed_Nil buf)
  then show ?case by (simp add: splits.stop)
next
  case (fed_Cons buf c bs r cs bss rest)
  have "sp r = NeedMore" using fed_Cons.hyps(1) by (rule splits_rest)
  with fed_Cons.IH have "splits sp (r @ concat cs) (concat bss) rest" by blast
  with fed_Cons.hyps(1) have "splits sp ((buf @ c) @ concat cs) (bs @ concat bss) rest"
    by (rule splits_append)
  then show ?case by simp
qed

text \<open>
  A prefix of a stream of frames consists of complete frames and a proper beginning of the
  next one.
\<close>

lemma stream_prefix:
  "list_all body_ok bs \<Longrightarrow> concat (map frame bs) = p @ q \<Longrightarrow> sp [] = NeedMore \<Longrightarrow>
   \<exists>bs1 bs2 r. bs = bs1 @ bs2 \<and> splits sp p bs1 r \<and> r @ q = concat (map frame bs2)"
proof (induction bs arbitrary: p)
  case Nil
  then have "splits sp p [] []" by (simp add: splits.stop)
  with Nil show ?case by auto
next
  case (Cons b bs)
  from Cons.prems have ok: "body_ok b" "list_all body_ok bs" by auto
  show ?case
  proof (cases "length (frame b) \<le> length p")
    case True
    from Cons.prems(2) have "frame b @ concat (map frame bs) = p @ q" by simp
    from append_split_le [OF this True] obtain p' where
      p: "p = frame b @ p'" "concat (map frame bs) = p' @ q" by blast
    from Cons.IH [OF ok(2) p(2) Cons.prems(3)] obtain bs1 bs2 r where
      ih: "bs = bs1 @ bs2" "splits sp p' bs1 r" "r @ q = concat (map frame bs2)" by blast
    have "splits sp p (b # bs1) r"
      using split_frame [OF ok(1)] p(1) ih(2) by (auto intro: splits.take)
    with ih show ?thesis by (intro exI [of _ "b # bs1"] exI [of _ bs2] exI [of _ r]) simp
  next
    case False
    from Cons.prems(2) have "p @ q = frame b @ concat (map frame bs)" by simp
    from append_split_le [OF this] False
    have "frame b = p @ drop (length p) (frame b)" "drop (length p) (frame b) \<noteq> []" by auto
    then have "sp p = NeedMore" using split_partial [OF ok(1)] by blast
    with Cons.prems(2) show ?thesis
      by (intro exI [of _ "[]"] exI [of _ "b # bs"] exI [of _ p]) (auto intro: splits.stop)
  qed
qed

text \<open>
  However the bytes of a stream of frames are cut into chunks, feeding the chunks never fails
  and yields exactly the bodies, in order, with nothing left.
\<close>

lemma fed_any_chunking:
  "list_all body_ok bs \<Longrightarrow> sp [] = NeedMore \<Longrightarrow> r @ concat chunks = concat (map frame bs) \<Longrightarrow>
   sp r = NeedMore \<Longrightarrow> \<exists>bss. fed sp r chunks bss [] \<and> concat bss = bs"
proof (induction chunks arbitrary: r bs)
  case Nil
  from Nil.prems(1,3,2) have "splits sp r bs []"
    using splits_frames [of bs "[]"] by simp
  moreover have "splits sp r [] r" using Nil.prems(4) by (rule splits.stop)
  ultimately have "bs = [] \<and> r = []" by (blast dest: splits_deterministic)
  then show ?case by (auto intro: fed.fed_Nil)
next
  case (Cons c cs)
  from Cons.prems(3) have "concat (map frame bs) = (r @ c) @ concat cs" by simp
  from stream_prefix [OF Cons.prems(1) this Cons.prems(2)] obtain bs1 bs2 r' where
    split: "bs = bs1 @ bs2" "splits sp (r @ c) bs1 r'" "r' @ concat cs = concat (map frame bs2)"
    by blast
  have "sp r' = NeedMore" using split(2) by (rule splits_rest)
  with Cons.IH [of bs2 r'] Cons.prems split obtain bss where
    "fed sp r' cs bss []" "concat bss = bs2" by auto
  with split show ?case by (intro exI [of _ "bs1 # bss"]) (auto intro: fed.fed_Cons)
qed

end

end
