(* ===== verification/Json.thy ===== *)
theory Json
  imports Prelude
begin

text \<open>
  The JSON values the server exchanges, and the one accessor of
  \<open>server/third_party/nlohmann/json.hpp\<close> the server reads messages with:
  \<open>basic_json::value(key, default)\<close>. Parsing and printing of JSON text are third-party code:
  they are parameters of the model (\<open>Protocol\<close>).

  An object is a \<open>std::map\<close> keyed by \<open>std::string\<close>, so it is modelled as the list of its
  members in increasing key order; \<open>json_object\<close> builds it from an initializer list.
  Integers are the library's 64-bit payloads, read as mathematical integers (the program never
  computes with them); a floating point number is its bit pattern.
\<close>

datatype json =
    JNull
  | JBool bool
  | JInt int
  | JUInt nat
  | JFloat "64 word"
  | JString string
  | JArray "json list"
  | JObject "(string \<times> json) list"

text \<open>Insertion into the ordered map: an existing key keeps its first value.\<close>

fun member_insert :: "string \<Rightarrow> json \<Rightarrow> (string \<times> json) list \<Rightarrow> (string \<times> json) list" where
  "member_insert k v [] = [(k, v)]"
| "member_insert k v ((k', v') # ms) =
     (if k < k' then (k, v) # (k', v') # ms
      else if k = k' then (k', v') # ms
      else (k', v') # member_insert k v ms)"

definition json_object :: "(string \<times> json) list \<Rightarrow> json" where
  "json_object ms = JObject (fold (\<lambda>(k, v). member_insert k v) ms [])"

text \<open>
  \<open>value(key, default)\<close> with a string default: a value that is not an object throws
  \<open>type_error.306\<close>; a member that is not a string throws \<open>type_error.302\<close> in \<open>get\<close>;
  an absent member yields the default.
\<close>

fun json_value :: "json \<Rightarrow> string \<Rightarrow> string \<Rightarrow> cpp_exception + string" where
  "json_value (JObject ms) k d =
     (case map_of ms k of
        None \<Rightarrow> Inr d
      | Some (JString s) \<Rightarrow> Inr s
      | Some _ \<Rightarrow> Inl (TypeError 302))"
| "json_value _ k d = Inl (TypeError 306)"

lemma keys_member_insert: "fst ` set (member_insert k v ms) = insert k (fst ` set ms)"
  by (induction k v ms rule: member_insert.induct) (simp_all add: insert_commute)

lemma sorted_member_insert:
  "sorted_wrt (<) (map fst ms) \<Longrightarrow> sorted_wrt (<) (map fst (member_insert k v ms))"
proof (induction ms)
  case Nil
  then show ?case by simp
next
  case (Cons m ms)
  obtain k' v' where m: "m = (k', v')" by (cases m)
  have keys: "set (map fst (member_insert k v ms)) = insert k (set (map fst ms))"
    by (simp add: keys_member_insert)
  show ?case
    using Cons keys by (auto simp: m)
qed

text \<open>Every object the code builds satisfies the ordering invariant of \<open>std::map\<close>.\<close>

lemma json_object_sorted:
  obtains ms' where "json_object ms = JObject ms'" "sorted_wrt (<) (map fst ms')"
proof -
  have "sorted_wrt (<) (map fst (fold (\<lambda>(k, v). member_insert k v) ms acc))"
    if "sorted_wrt (<) (map fst acc)" for acc
    using that
  proof (induction ms arbitrary: acc)
    case (Cons m ms)
    then show ?case by (cases m) (simp add: sorted_member_insert)
  qed simp
  from this [of "[]"] show ?thesis by (intro that) (auto simp: json_object_def)
qed

lemma map_of_member_insert_fresh:
  "k \<notin> fst ` set ms \<Longrightarrow> map_of (member_insert k v ms) = (map_of ms)(k \<mapsto> v)"
  by (induction ms) (auto simp: fun_eq_iff)

lemma map_of_fold_member_insert:
  "distinct (map fst ms) \<Longrightarrow> fst ` set ms \<inter> fst ` set acc = {} \<Longrightarrow>
   map_of (fold (\<lambda>(k, v). member_insert k v) ms acc) x =
     (case map_of ms x of Some y \<Rightarrow> Some y | None \<Rightarrow> map_of acc x)"
proof (induction ms arbitrary: acc)
  case Nil
  then show ?case by simp
next
  case (Cons m ms)
  obtain a b where m: "m = (a, b)" by (cases m)
  from Cons.prems m have fresh: "a \<notin> fst ` set acc" "a \<notin> fst ` set ms" by auto
  have "map_of (fold (\<lambda>(k, v). member_insert k v) ms (member_insert a b acc)) x
      = (case map_of ms x of Some y \<Rightarrow> Some y | None \<Rightarrow> map_of (member_insert a b acc) x)"
    using Cons.prems m by (intro Cons.IH) (auto simp: keys_member_insert)
  moreover have "map_of ms a = None"
    using fresh(2) by (simp add: map_of_eq_None_iff)
  ultimately show ?case
    using fresh(1) by (simp add: m map_of_member_insert_fresh split: option.split)
qed

text \<open>Reading back a member of an object built from members with distinct keys.\<close>

lemma json_value_object:
  assumes "distinct (map fst ms)"
  shows "json_value (json_object ms) k d =
    (case map_of ms k of None \<Rightarrow> Inr d | Some (JString s) \<Rightarrow> Inr s | Some _ \<Rightarrow> Inl (TypeError 302))"
  using map_of_fold_member_insert [OF assms, of "[]" k]
  by (auto simp: json_object_def split: option.split)

end
