(* ===== verification/ClientSession.thy ===== *)
theory ClientSession
  imports Prelude
begin

text \<open>
  \<open>server/include/client_session.h\<close>: the state of one accepted connection and its accessors.
  The mutexes guard single reads and writes of \<open>username_\<close> and \<open>pending_login_\<close>, which are
  atomic in the model; \<open>send_mutex_\<close> is treated where interleaved sends matter.
\<close>

record client_session =
  cs_fd :: fd
  recv_buf :: bytes
  generation :: "64 word"
  parse_failures :: "32 word"
  ip_address :: string
  username :: string
  pending_login :: string

definition new_session :: "fd \<Rightarrow> client_session" where
  "new_session f = \<lparr>cs_fd = f, recv_buf = [], generation = 0, parse_failures = 0,
     ip_address = [], username = [], pending_login = []\<rparr>"

text \<open>The destructor: the descriptors it closes, and the object it leaves.\<close>

definition session_dtor :: "client_session \<Rightarrow> fd list \<times> client_session" where
  "session_dtor s = (if cs_fd s \<ge> 0 then ([cs_fd s], s\<lparr>cs_fd := -1\<rparr>) else ([], s))"

definition is_authenticated :: "client_session \<Rightarrow> bool" where
  "is_authenticated s \<longleftrightarrow> username s \<noteq> []"

definition get_username :: "client_session \<Rightarrow> string" where
  "get_username s = username s"

definition set_username :: "string \<Rightarrow> client_session \<Rightarrow> client_session" where
  "set_username name s = s\<lparr>username := name\<rparr>"

definition clear_username :: "client_session \<Rightarrow> client_session" where
  "clear_username s = s\<lparr>username := []\<rparr>"

definition get_pending_login :: "client_session \<Rightarrow> string" where
  "get_pending_login s = pending_login s"

definition set_pending_login :: "string \<Rightarrow> client_session \<Rightarrow> client_session" where
  "set_pending_login name s = s\<lparr>pending_login := name\<rparr>"

definition clear_pending_login :: "client_session \<Rightarrow> client_session" where
  "clear_pending_login s = s\<lparr>pending_login := []\<rparr>"

lemmas session_defs = new_session_def is_authenticated_def get_username_def set_username_def
  clear_username_def get_pending_login_def set_pending_login_def clear_pending_login_def

text \<open>A second run of the destructor on the object it left closes nothing.\<close>

lemma session_dtor_once: "fst (session_dtor (snd (session_dtor s))) = []"
  by (simp add: session_dtor_def)

end
