(* ===== verification/Protocol.thy ===== *)
theory Protocol
  imports Framing Json ClientSession "HOL-Library.Sublist"
begin

text \<open>
  \<open>server/src/protocol.cpp\<close>: writing a whole buffer to a non-blocking socket (\<open>write_all\<close>),
  sending a JSON message as a frame (\<open>send_msg\<close>, \<open>send_error\<close>, \<open>send_ok\<close>), and draining
  a socket and extracting the complete frames from the receive buffer (\<open>recv_msgs\<close>).

  The kernel's answers to the \<open>n\<close>-th \<open>send\<close> and \<open>recv\<close> and the \<open>n\<close>-th reading of the
  monotonic clock (in milliseconds) are functions of \<open>n\<close>. The JSON printer and parser are
  parameters \<open>dump\<close> and \<open>parse\<close>: \<open>dump\<close> yields no text when \<open>json::dump\<close> throws, and
  \<open>parse\<close> distinguishes \<open>json::parse_error\<close>, which \<open>recv_msgs\<close> catches, from the other
  exceptions of \<open>json::parse\<close>, which it does not.
\<close>

section \<open>The length prefix\<close>

text \<open>The four bytes in memory of \<open>htonl(w)\<close>, and \<open>ntohl\<close> of the first four bytes of a buffer.\<close>

definition htonl_bytes :: "32 word \<Rightarrow> bytes" where
  "htonl_bytes w = [ucast (drop_bit 24 w), ucast (drop_bit 16 w), ucast (drop_bit 8 w), ucast w]"

definition ntohl_bytes :: "bytes \<Rightarrow> 32 word" where
  "ntohl_bytes bs =
     Bit_Operations.or (push_bit 24 (ucast (bs ! 0)))
      (Bit_Operations.or (push_bit 16 (ucast (bs ! 1)))
        (Bit_Operations.or (push_bit 8 (ucast (bs ! 2))) (ucast (bs ! 3))))"

lemma length_htonl_bytes [simp]: "length (htonl_bytes w) = 4"
  by (simp add: htonl_bytes_def)

lemma ntohl_htonl [simp]: "ntohl_bytes (htonl_bytes w @ rest) = w"
proof -
  have "ntohl_bytes (htonl_bytes w @ rest) =
      Bit_Operations.or (push_bit 24 (ucast (ucast (drop_bit 24 w) :: byte)))
       (Bit_Operations.or (push_bit 16 (ucast (ucast (drop_bit 16 w) :: byte)))
         (Bit_Operations.or (push_bit 8 (ucast (ucast (drop_bit 8 w) :: byte))) (ucast (ucast w :: byte))))"
    (is "_ = ?r")
    by (simp add: ntohl_bytes_def htonl_bytes_def)
  also have "?r = w"
  proof (rule bit_word_eqI)
    fix n assume "n < LENGTH(32)"
    then consider "n < 8" | "8 \<le> n" "n < 16" | "16 \<le> n" "n < 24" | "24 \<le> n" "n < 32"
      by fastforce
    then show "bit ?r n = bit w n" by cases (auto simp: bit_simps)
  qed
  finally show ?thesis .
qed

lemma ntohl_append: "4 \<le> length bs \<Longrightarrow> ntohl_bytes (bs @ xs) = ntohl_bytes bs"
  by (auto simp: ntohl_bytes_def nth_append)

section \<open>Sending\<close>

definition MAX_BODY_LEN :: nat where
  "MAX_BODY_LEN = 16 * 1024 * 1024"

datatype send_result = Sent nat | SendWouldBlock | SendFailed

datatype write_outcome = WriteOk | WriteTimeout | WriteError

text \<open>
  The loop of \<open>write_all\<close>: \<open>k\<close> counts the \<open>send\<close> calls, \<open>c\<close> the readings of the clock.
  \<open>WriteTimeout\<close> is the branch that also calls \<open>shutdown(fd, SHUT_WR)\<close>. The bytes handed to
  the kernel are \<open>take sent data\<close>.
\<close>

partial_function (option) write_loop ::
  "(nat \<Rightarrow> send_result) \<Rightarrow> (nat \<Rightarrow> int) \<Rightarrow> int \<Rightarrow> bytes \<Rightarrow> nat \<Rightarrow> nat \<Rightarrow> nat \<Rightarrow>
     (write_outcome \<times> nat \<times> nat \<times> nat) option" where
  "write_loop net clk deadline data sent k c =
     (if sent < length data then
        (case net k of
           Sent n \<Rightarrow>
             if n = 0 then Some (WriteError, sent, Suc k, c)
             else write_loop net clk deadline data (sent + n) (Suc k) c
         | SendWouldBlock \<Rightarrow>
             if clk c \<ge> deadline then Some (WriteTimeout, sent, Suc k, Suc c)
             else write_loop net clk deadline data sent (Suc k) (Suc c)
         | SendFailed \<Rightarrow> Some (WriteError, sent, Suc k, c))
      else Some (WriteOk, sent, k, c))"

definition write_all ::
  "(nat \<Rightarrow> send_result) \<Rightarrow> (nat \<Rightarrow> int) \<Rightarrow> bytes \<Rightarrow> nat \<Rightarrow> nat \<Rightarrow>
     (write_outcome \<times> bytes \<times> nat \<times> nat) option" where
  "write_all net clk data k c =
     map_option (\<lambda>(out, sent, k', c'). (out, take sent data, k', c'))
       (write_loop net clk (clk c + 5000) data 0 k (Suc c))"

record send_report =
  sent_ok :: bool
  wire :: bytes
  did_shutdown :: bool

text \<open>
  \<open>send_msg\<close>: a message that cannot be printed or is larger than 16 MB is not sent; then the
  length prefix and the body are written by two calls of \<open>write_all\<close>.
\<close>

definition send_msg ::
  "(json \<Rightarrow> string option) \<Rightarrow> (nat \<Rightarrow> send_result) \<Rightarrow> (nat \<Rightarrow> int) \<Rightarrow> json \<Rightarrow> send_report option" where
  "send_msg dump net clk msg =
     (case dump msg of
        None \<Rightarrow> Some \<lparr>sent_ok = False, wire = [], did_shutdown = False\<rparr>
      | Some body \<Rightarrow>
          if length body > MAX_BODY_LEN
          then Some \<lparr>sent_ok = False, wire = [], did_shutdown = False\<rparr>
          else
            (case write_all net clk (htonl_bytes (of_nat (length body))) 0 0 of
               None \<Rightarrow> None
             | Some (out1, w1, k1, c1) \<Rightarrow>
                 if out1 \<noteq> WriteOk
                 then Some \<lparr>sent_ok = False, wire = w1, did_shutdown = (out1 = WriteTimeout)\<rparr>
                 else
                   (case write_all net clk (string_bytes body) k1 c1 of
                      None \<Rightarrow> None
                    | Some (out2, w2, k2, c2) \<Rightarrow>
                        Some \<lparr>sent_ok = (out2 = WriteOk), wire = w1 @ w2,
                              did_shutdown = (out2 = WriteTimeout)\<rparr>)))"

definition error_msg :: "string \<Rightarrow> string \<Rightarrow> json" where
  "error_msg code content = json_object
     [(''type'', JString ''ERROR''), (''code'', JString code),
      (''content'', JString (if content = [] then code else content))]"

definition ok_msg :: "string \<Rightarrow> string \<Rightarrow> json" where
  "ok_msg type from =
     (if from = [] then json_object [(''type'', JString type)]
      else json_object [(''type'', JString type), (''from'', JString from)])"

section \<open>Receiving\<close>

definition MAX_RECV_BUF_SIZE :: nat where
  "MAX_RECV_BUF_SIZE = 32 * 1024 * 1024"

text \<open>
  One \<open>recv\<close>: \<open>RecvBytes bs\<close> with \<open>n = length bs\<close> bytes (no bytes: the peer has closed),
  \<open>EAGAIN\<close>, or another error.
\<close>

datatype recv_result = RecvBytes bytes | RecvAgain | RecvFailed

datatype drain_outcome = DrainTooLarge | DrainClosed | DrainAgain | DrainFailed

text \<open>
  The reading loop. Every round that continues adds at least one byte and the loop refuses to
  read on at 32 MB, so it stops for every behaviour of the peer.
\<close>

function recv_drain :: "(nat \<Rightarrow> recv_result) \<Rightarrow> nat \<Rightarrow> bytes \<Rightarrow> drain_outcome \<times> bytes \<times> nat" where
  "recv_drain net k buf =
     (if length buf \<ge> MAX_RECV_BUF_SIZE then (DrainTooLarge, buf, k)
      else (case net k of
              RecvBytes tmp \<Rightarrow>
                if tmp = [] then (DrainClosed, buf, Suc k)
                else recv_drain net (Suc k) (buf @ tmp)
            | RecvAgain \<Rightarrow> (DrainAgain, buf, Suc k)
            | RecvFailed \<Rightarrow> (DrainFailed, buf, Suc k)))"
  by pat_completeness auto
termination
  by (relation "measure (\<lambda>(net, k, buf). MAX_RECV_BUF_SIZE - length buf)")
     (auto simp: length_greater_0_conv [symmetric] simp del: length_greater_0_conv)

declare recv_drain.simps [simp del]

text \<open>The checks on the front of the buffer, in the order of the loop body.\<close>

definition next_frame :: "bytes \<Rightarrow> frame_step" where
  "next_frame buf =
     (if length buf < 4 then NeedMore
      else let body_len = ntohl_bytes buf in
        if body_len = 0 then ZeroLength
        else if body_len > of_nat MAX_BODY_LEN then Oversized
        else if length buf < unat (4 + body_len) then NeedMore
        else Frame (take (unat body_len) (drop 4 buf)) (drop (4 + unat body_len) buf))"

lemma next_frame_shrinks: "next_frame buf = Frame b r \<Longrightarrow> length r < length buf"
  by (auto simp: next_frame_def Let_def split: if_splits)

datatype parse_outcome = Parsed json | BadJson | ParserThrows cpp_exception

datatype extract_outcome = Extracted | Dropped | Threw cpp_exception

text \<open>The extraction loop: outcome, messages so far, remaining buffer, failure counter.\<close>

function extract_frames ::
  "(string \<Rightarrow> parse_outcome) \<Rightarrow> bytes \<Rightarrow> 32 word \<Rightarrow> json list \<Rightarrow>
     extract_outcome \<times> json list \<times> bytes \<times> 32 word" where
  "extract_frames parse buf failures messages =
     (case next_frame buf of
        NeedMore \<Rightarrow> (Extracted, messages, buf, failures)
      | ZeroLength \<Rightarrow> (Dropped, messages, [], failures)
      | Oversized \<Rightarrow> (Dropped, messages, [], failures)
      | Frame body rest \<Rightarrow>
          (case parse (bytes_string body) of
             Parsed j \<Rightarrow> extract_frames parse rest 0 (messages @ [j])
           | BadJson \<Rightarrow>
               if failures + 1 \<ge> 3 then (Dropped, messages, rest, failures + 1)
               else extract_frames parse rest (failures + 1) messages
           | ParserThrows e \<Rightarrow> (Threw e, messages, rest, failures)))"
  by pat_completeness auto
termination
  by (relation "measure (\<lambda>(parse, buf, failures, messages). length buf)")
     (auto dest: next_frame_shrinks)

declare extract_frames.simps [simp del]

text \<open>
  \<open>recv_msgs\<close>: \<open>Inr None\<close> is \<open>nullopt\<close> (drop the connection), \<open>Inr (Some msgs)\<close> the
  complete messages, \<open>Inl\<close> an exception that leaves the function.
\<close>

definition recv_msgs ::
  "(string \<Rightarrow> parse_outcome) \<Rightarrow> (nat \<Rightarrow> recv_result) \<Rightarrow> client_session \<Rightarrow>
     (cpp_exception + json list option) \<times> client_session" where
  "recv_msgs parse net s =
     (case recv_drain net 0 (recv_buf s) of
        (DrainTooLarge, buf, k) \<Rightarrow> (Inr None, s\<lparr>recv_buf := buf\<rparr>)
      | (DrainFailed, buf, k) \<Rightarrow> (Inr None, s\<lparr>recv_buf := buf\<rparr>)
      | (out, buf, k) \<Rightarrow>
          (case extract_frames parse buf (parse_failures s) [] of
             (Threw e, msgs, buf', f') \<Rightarrow> (Inl e, s\<lparr>recv_buf := buf', parse_failures := f'\<rparr>)
           | (Dropped, msgs, buf', f') \<Rightarrow> (Inr None, s\<lparr>recv_buf := buf', parse_failures := f'\<rparr>)
           | (Extracted, msgs, buf', f') \<Rightarrow>
               (Inr (if out = DrainClosed \<and> msgs = [] then None else Some msgs),
                s\<lparr>recv_buf := buf', parse_failures := f'\<rparr>)))"


section \<open>The server's framing satisfies the contract\<close>

definition server_frame :: "bytes \<Rightarrow> bytes" where
  "server_frame body = htonl_bytes (of_nat (length body)) @ body"

definition body_ok :: "bytes \<Rightarrow> bool" where
  "body_ok b \<longleftrightarrow> 0 < length b \<and> length b \<le> MAX_BODY_LEN"

lemma unat_body_len: "length b \<le> MAX_BODY_LEN \<Longrightarrow> unat (of_nat (length b) :: 32 word) = length b"
  by (simp add: unat_of_nat MAX_BODY_LEN_def)

lemma unat_le_MAX: "\<not> of_nat MAX_BODY_LEN < (w :: 32 word) \<Longrightarrow> unat w \<le> MAX_BODY_LEN"
  by (simp add: word_less_nat_alt unat_of_nat MAX_BODY_LEN_def)

lemma unat_4_plus: "unat w \<le> MAX_BODY_LEN \<Longrightarrow> unat (4 + w :: 32 word) = 4 + unat w"
  by (simp add: unat_word_ariths MAX_BODY_LEN_def)

lemma body_len_nonzero: "body_ok b \<Longrightarrow> (of_nat (length b) :: 32 word) \<noteq> 0"
  using unat_body_len [of b] by (auto simp: body_ok_def simp del: unat_of_nat)

lemma body_len_not_oversized: "body_ok b \<Longrightarrow> \<not> of_nat MAX_BODY_LEN < (of_nat (length b) :: 32 word)"
  using unat_body_len [of b]
  by (simp add: body_ok_def word_less_nat_alt unat_of_nat MAX_BODY_LEN_def)

lemma next_frame_header:
  assumes "4 \<le> length buf" "ntohl_bytes buf = of_nat (length b)" "body_ok b"
  shows "next_frame buf =
    (if length buf < 4 + length b then NeedMore
     else Frame (take (length b) (drop 4 buf)) (drop (4 + length b) buf))"
proof -
  have u: "unat (of_nat (length b) :: 32 word) = length b"
    using assms(3) by (intro unat_body_len) (simp add: body_ok_def)
  moreover have "unat (4 + of_nat (length b) :: 32 word) = 4 + length b"
    using assms(3) u by (subst unat_4_plus) (simp_all add: body_ok_def)
  ultimately show ?thesis
    using assms body_len_nonzero [OF assms(3)] body_len_not_oversized [OF assms(3)]
    by (simp add: next_frame_def Let_def)
qed

lemma length_server_frame: "length (server_frame b) = 4 + length b"
  by (simp add: server_frame_def)

lemma next_frame_bounded: "next_frame buf = NeedMore \<Longrightarrow> length buf < 4 + MAX_BODY_LEN"
  using unat_4_plus unat_le_MAX [of "ntohl_bytes buf"]
  by (auto simp: next_frame_def Let_def MAX_BODY_LEN_def split: if_splits)

lemma next_frame_Nil [simp]: "next_frame [] = NeedMore"
  by (simp add: next_frame_def)

interpretation srv: framing server_frame next_frame body_ok
proof
  fix b rest assume ok: "body_ok b"
  have "next_frame (server_frame b @ rest) =
    (if length (server_frame b @ rest) < 4 + length b then NeedMore
     else Frame (take (length b) (drop 4 (server_frame b @ rest)))
       (drop (4 + length b) (server_frame b @ rest)))"
    by (rule next_frame_header) (simp_all add: ok server_frame_def)
  then show "next_frame (server_frame b @ rest) = Frame b rest"
    by (simp add: server_frame_def)
next
  fix b p q assume ok: "body_ok b" and fr: "server_frame b = p @ q" and q: "q \<noteq> []"
  have len: "length p < 4 + length b"
    using arg_cong [OF fr, of length] q by (simp add: length_server_frame)
  show "next_frame p = NeedMore"
  proof (cases "4 \<le> length p")
    case True
    then have "ntohl_bytes p = ntohl_bytes (server_frame b)"
      by (simp add: fr ntohl_append)
    then have "ntohl_bytes p = of_nat (length b)" by (simp add: server_frame_def)
    from next_frame_header [OF True this ok] len show ?thesis by simp
  next
    case False
    then show ?thesis by (simp add: next_frame_def)
  qed
next
  fix buf b r and more' :: bytes assume "next_frame buf = Frame b r"
  then show "next_frame (buf @ more') = Frame b (r @ more')"
    using unat_4_plus [of "ntohl_bytes buf"] unat_le_MAX [of "ntohl_bytes buf"]
    by (auto simp: next_frame_def Let_def ntohl_append split: if_splits)
next
  fix buf b r assume "next_frame buf = Frame b r"
  then show "length r < length buf" by (rule next_frame_shrinks)
qed


section \<open>Extraction and draining\<close>

lemma extract_parsed:
  "splits next_frame buf bodies rest \<Longrightarrow>
   list_all2 (\<lambda>b j. parse (bytes_string b) = Parsed j) bodies js \<Longrightarrow>
   extract_frames parse buf f ms = (Extracted, ms @ js, rest, if js = [] then f else 0)"
proof (induction arbitrary: f ms js rule: splits.induct)
  case (stop buf)
  then show ?case by (simp add: extract_frames.simps [of parse buf])
next
  case (take buf b r bs rest)
  then obtain j js' where "js = j # js'" "parse (bytes_string b) = Parsed j"
    "list_all2 (\<lambda>b j. parse (bytes_string b) = Parsed j) bs js'"
    by (auto simp: list_all2_Cons1)
  with take.hyps(1) take.IH [of js' 0 "ms @ [j]"] show ?case
    by (simp add: extract_frames.simps [of parse buf])
qed

lemma extract_rest:
  "extract_frames parse buf f ms = (Extracted, ms', buf', f') \<Longrightarrow> next_frame buf' = NeedMore"
proof (induction parse buf f ms rule: extract_frames.induct)
  case (1 parse buf f ms)
  then show ?case
    by (subst (asm) (3) extract_frames.simps)
       (auto split: frame_step.splits parse_outcome.splits if_splits)
qed

lemma extract_shrinks: "extract_frames parse buf f ms = (out, ms', buf', f') \<Longrightarrow> length buf' \<le> length buf"
proof (induction parse buf f ms rule: extract_frames.induct)
  case (1 parse buf f ms)
  show ?case
  proof (cases "next_frame buf")
    case (Frame b r)
    then have "length r < length buf" by (rule next_frame_shrinks)
    with Frame 1 show ?thesis
      by (fastforce simp: extract_frames.simps [of parse buf] split: parse_outcome.splits if_splits)
  qed (use "1.prems" in \<open>auto simp: extract_frames.simps [of parse buf]\<close>)
qed

lemma recv_drain_bound:
  "recv_drain net k buf = (out, buf', k') \<Longrightarrow> (\<forall>i bs. net i = RecvBytes bs \<longrightarrow> length bs \<le> m) \<Longrightarrow>
   length buf < MAX_RECV_BUF_SIZE + m \<Longrightarrow> length buf' < MAX_RECV_BUF_SIZE + m"
proof (induction net k buf rule: recv_drain.induct)
  case (1 net k buf)
  show ?case
  proof (cases "length buf \<ge> MAX_RECV_BUF_SIZE")
    case True
    with 1 show ?thesis by (simp add: recv_drain.simps [of net k buf])
  next
    case small: False
    show ?thesis
    proof (cases "net k")
      case (RecvBytes tmp)
      with "1.prems"(2) have "length tmp \<le> m" by blast
      with small RecvBytes 1 show ?thesis
        by (cases "tmp = []") (auto simp: recv_drain.simps [of net k buf])
    qed (use small 1 in \<open>auto simp: recv_drain.simps [of net k buf]\<close>)
  qed
qed

text \<open>A peer that has sent \<open>cs\<close> and nothing more yet.\<close>

definition serve :: "bytes list \<Rightarrow> nat \<Rightarrow> recv_result" where
  "serve cs k = (if k < length cs then RecvBytes (cs ! k) else RecvAgain)"

lemma recv_drain_serve:
  "[] \<notin> set cs \<Longrightarrow> length buf + length (concat (drop k cs)) < MAX_RECV_BUF_SIZE \<Longrightarrow> k \<le> length cs \<Longrightarrow>
   recv_drain (serve cs) k buf = (DrainAgain, buf @ concat (drop k cs), Suc (length cs))"
proof (induction "length cs - k" arbitrary: k buf)
  case 0
  then show ?case by (simp add: recv_drain.simps [of _ k] serve_def)
next
  case (Suc n)
  then have k: "k < length cs" by simp
  then have d: "drop k cs = cs ! k # drop (Suc k) cs" by (simp add: Cons_nth_drop_Suc)
  from k Suc.prems(1) have ne: "cs ! k \<noteq> []" by (metis nth_mem)
  have "recv_drain (serve cs) (Suc k) (buf @ cs ! k)
      = (DrainAgain, (buf @ cs ! k) @ concat (drop (Suc k) cs), Suc (length cs))"
    using Suc.hyps(2) Suc.prems k d by (intro Suc.hyps(1)) auto
  with k d ne Suc.prems(2) show ?case
    by (simp add: recv_drain.simps [of _ k] serve_def)
qed

text \<open>One wake-up of the event loop in which every complete frame parses.\<close>

lemma recv_msgs_serve:
  assumes "[] \<notin> set cs" "length (recv_buf s) + length (concat cs) < MAX_RECV_BUF_SIZE"
    and "splits next_frame (recv_buf s @ concat cs) bodies rest"
    and "list_all2 (\<lambda>b j. parse (bytes_string b) = Parsed j) bodies js"
  shows "recv_msgs parse (serve cs) s =
    (Inr (Some js), s\<lparr>recv_buf := rest, parse_failures := if js = [] then parse_failures s else 0\<rparr>)"
  using recv_drain_serve [OF assms(1), of "recv_buf s" 0] assms(2)
    extract_parsed [OF assms(3,4), of "parse_failures s" "[]"]
  by (simp add: recv_msgs_def)

text \<open>Successive wake-ups of the event loop on one session, while messages come back.\<close>

fun recv_wakeups :: "(string \<Rightarrow> parse_outcome) \<Rightarrow> (nat \<Rightarrow> recv_result) list \<Rightarrow> client_session \<Rightarrow>
    json list option \<times> client_session" where
  "recv_wakeups parse [] s = (Some [], s)"
| "recv_wakeups parse (net # nets) s =
     (case recv_msgs parse net s of
        (Inr (Some ms), s') \<Rightarrow>
          (case recv_wakeups parse nets s' of
             (Some ms', s'') \<Rightarrow> (Some (ms @ ms'), s'')
           | (None, s'') \<Rightarrow> (None, s''))
      | (_, s') \<Rightarrow> (None, s'))"

lemma recv_wakeups_fed:
  "fed next_frame buf (map concat wakeups) bss rest \<Longrightarrow> recv_buf s = buf \<Longrightarrow>
   next_frame buf = NeedMore \<Longrightarrow>
   \<forall>cs \<in> set wakeups. [] \<notin> set cs \<and> length (concat cs) + 4 \<le> MAX_BODY_LEN \<Longrightarrow>
   list_all2 (\<lambda>b j. parse (bytes_string b) = Parsed j) (concat bss) js \<Longrightarrow>
   \<exists>s'. recv_wakeups parse (map serve wakeups) s = (Some js, s') \<and> recv_buf s' = rest"
proof (induction wakeups arbitrary: buf bss js s)
  case Nil
  then show ?case by (auto simp: fed_Nil_iff)
next
  case (Cons cs wakeups)
  from Cons.prems(1) obtain bs bss' r where fed: "bss = bs # bss'"
    "splits next_frame (buf @ concat cs) bs r" "fed next_frame r (map concat wakeups) bss' rest"
    by (auto simp: fed_Cons_iff)
  from Cons.prems(5) fed(1) obtain js1 js2 where js: "js = js1 @ js2"
    "list_all2 (\<lambda>b j. parse (bytes_string b) = Parsed j) bs js1"
    "list_all2 (\<lambda>b j. parse (bytes_string b) = Parsed j) (concat bss') js2"
    by (auto simp: list_all2_append1)
  have small: "length (recv_buf s) + length (concat cs) < MAX_RECV_BUF_SIZE"
    using next_frame_bounded [OF Cons.prems(3)] Cons.prems(2,4)
    by (simp add: MAX_RECV_BUF_SIZE_def MAX_BODY_LEN_def)
  define s1 where "s1 = s\<lparr>recv_buf := r, parse_failures := if js1 = [] then parse_failures s else 0\<rparr>"
  have "recv_msgs parse (serve cs) s = (Inr (Some js1), s1)"
    unfolding s1_def using Cons.prems(2,4) fed(2) js(2) small by (intro recv_msgs_serve) auto
  moreover obtain s' where "recv_wakeups parse (map serve wakeups) s1 = (Some js2, s')"
    "recv_buf s' = rest"
    using Cons.IH [OF fed(3), of s1 js2] splits_rest [OF fed(2)] Cons.prems(4) js(3)
    by (auto simp: s1_def)
  ultimately show ?case by (simp add: js(1))
qed


section \<open>Writing\<close>

lemma write_loop_returns:
  assumes clock: "\<And>c. clk c + 1 \<le> clk (Suc c)"
  shows "\<exists>r. write_loop net clk deadline data sent k c = Some r"
proof (induction "(length data - sent) + nat (deadline - clk c)" arbitrary: sent k c
    rule: less_induct)
  case less
  show ?case
  proof (cases "sent < length data")
    case False
    then show ?thesis by (simp add: write_loop.simps)
  next
    case unsent: True
    show ?thesis
    proof (cases "net k")
      case (Sent n)
      then have "\<exists>r. write_loop net clk deadline data (sent + n) (Suc k) c = Some r" if "0 < n"
        using unsent that by (intro less) linarith
      with unsent Sent show ?thesis by (simp add: write_loop.simps [of _ _ _ _ sent])
    next
      case SendWouldBlock
      have "\<exists>r. write_loop net clk deadline data sent (Suc k) (Suc c) = Some r" if "clk c < deadline"
        using that clock [of c] by (intro less) linarith
      with unsent SendWouldBlock show ?thesis
        by (simp add: write_loop.simps [of _ _ _ _ sent])
    next
      case SendFailed
      with unsent show ?thesis by (simp add: write_loop.simps)
    qed
  qed
qed

lemma write_loop_result:
  assumes ret: "write_loop net clk deadline data sent k c = Some r"
  shows "sent \<le> fst (snd r) \<and> (fst r = WriteOk \<longleftrightarrow> length data \<le> fst (snd r))"
proof (rule write_loop.raw_induct
    [where P = "\<lambda>net clk deadline data sent k c r.
       sent \<le> fst (snd r) \<and> (fst r = WriteOk \<longleftrightarrow> length data \<le> fst (snd r))", OF _ ret])
  fix wl :: "(nat \<Rightarrow> send_result) \<Rightarrow> (nat \<Rightarrow> int) \<Rightarrow> int \<Rightarrow> bytes \<Rightarrow> nat \<Rightarrow> nat \<Rightarrow> nat \<Rightarrow>
     (write_outcome \<times> nat \<times> nat \<times> nat) option"
  fix net clk deadline data sent k c r
  assume IH: "\<And>net clk deadline data sent k c r. wl net clk deadline data sent k c = Some r \<Longrightarrow>
      sent \<le> fst (snd r) \<and> (fst r = WriteOk \<longleftrightarrow> length data \<le> fst (snd r))"
    and eq: "(if sent < length data then
        (case net k of
           Sent n \<Rightarrow>
             if n = 0 then Some (WriteError, sent, Suc k, c)
             else wl net clk deadline data (sent + n) (Suc k) c
         | SendWouldBlock \<Rightarrow>
             if clk c \<ge> deadline then Some (WriteTimeout, sent, Suc k, Suc c)
             else wl net clk deadline data sent (Suc k) (Suc c)
         | SendFailed \<Rightarrow> Some (WriteError, sent, Suc k, c))
      else Some (WriteOk, sent, k, c)) = Some r"
  from eq show "sent \<le> fst (snd r) \<and> (fst r = WriteOk \<longleftrightarrow> length data \<le> fst (snd r))"
    by (auto split: if_splits send_result.splits dest: IH)
qed

lemma write_all_result:
  assumes "write_all net clk data k c = Some (out, w, k', c')"
  shows "\<exists>q. data = w @ q" and "out = WriteOk \<longleftrightarrow> w = data"
proof -
  from assms obtain sent where
    loop: "write_loop net clk (clk c + 5000) data 0 k (Suc c) = Some (out, sent, k', c')"
    and w: "w = take sent data"
    by (auto simp: write_all_def)
  show "\<exists>q. data = w @ q" unfolding w by (metis append_take_drop_id)
  from write_loop_result [OF loop] show "out = WriteOk \<longleftrightarrow> w = data"
    by (auto simp: w)
qed

section \<open>Properties\<close>





text \<open>
  What \<open>send_msg\<close> puts on the wire: nothing for a message that does not print or exceeds
  16 MB, and otherwise a beginning of the message's frame, the whole frame exactly when it
  returns true. The socket is shut down only after a failed send.
\<close>

theorem send_msg_wire:
  assumes "send_msg dump net clk msg = Some r"
  shows "(case dump msg of
      None \<Rightarrow> \<not> sent_ok r \<and> wire r = []
    | Some body \<Rightarrow>
        if length body > MAX_BODY_LEN then \<not> sent_ok r \<and> wire r = []
        else (\<exists>q. server_frame (string_bytes body) = wire r @ q) \<and>
          (sent_ok r = (wire r = server_frame (string_bytes body)))) \<and>
     \<not> (sent_ok r \<and> did_shutdown r)"
proof (cases "dump msg")
  case None
  with assms show ?thesis by (auto simp: send_msg_def)
next
  case (Some body)
  show ?thesis
  proof (cases "length body > MAX_BODY_LEN")
    case True
    with Some assms show ?thesis by (auto simp: send_msg_def)
  next
    case False
    let ?h = "htonl_bytes (of_nat (length body))" and ?b = "string_bytes body"
    have fr: "server_frame ?b = ?h @ ?b" by (simp add: server_frame_def)
    from assms Some False obtain out1 w1 k1 c1 where
      h: "write_all net clk ?h 0 0 = Some (out1, w1, k1, c1)"
      by (auto simp: send_msg_def split: option.splits)
    from write_all_result [OF h] obtain q1 where q1: "?h = w1 @ q1" "out1 = WriteOk \<longleftrightarrow> w1 = ?h"
      by auto
    show ?thesis
    proof (cases "out1 = WriteOk")
      case header: True
      with assms Some False h obtain out2 w2 k2 c2 where
        b: "write_all net clk ?b k1 c1 = Some (out2, w2, k2, c2)" and
        r: "r = \<lparr>sent_ok = (out2 = WriteOk), wire = w1 @ w2, did_shutdown = (out2 = WriteTimeout)\<rparr>"
        by (auto simp: send_msg_def split: option.splits)
      from write_all_result [OF b] obtain q2 where q2: "?b = w2 @ q2" "out2 = WriteOk \<longleftrightarrow> w2 = ?b"
        by auto
      have "server_frame ?b = w1 @ ?b" using header q1 by (simp add: fr)
      with q2 have "server_frame ?b = wire r @ q2" "sent_ok r = (wire r = server_frame ?b)"
        by (simp_all add: r)
      then show ?thesis using False Some by (auto simp: r)
    next
      case header: False
      then have r: "r = \<lparr>sent_ok = False, wire = w1, did_shutdown = (out1 = WriteTimeout)\<rparr>"
        using assms Some False h by (auto simp: send_msg_def)
      have "wire r \<noteq> server_frame ?b" "server_frame ?b = wire r @ q1 @ ?b"
        using header q1 by (auto simp: r fr)
      then show ?thesis using False Some by (auto simp: r)
    qed
  qed
qed

theorem send_msg_wire_witness:
  "\<exists>r. send_msg (\<lambda>_. Some ''{}'') (\<lambda>_. Sent 3) (\<lambda>_. 0) JNull = Some r \<and> sent_ok r \<and>
     (\<exists>q. server_frame (string_bytes ''{}'') = wire r @ q)"
proof -
  define r where "r = \<lparr>sent_ok = True, wire = server_frame (string_bytes ''{}''), did_shutdown = False\<rparr>"
  have "send_msg (\<lambda>_. Some ''{}'') (\<lambda>_. Sent 3) (\<lambda>_. 0) JNull = Some r"
    by (simp add: r_def send_msg_def write_all_def write_loop.simps MAX_BODY_LEN_def
        server_frame_def htonl_bytes_def string_bytes_def)
  from send_msg_wire [OF this] this show ?thesis
    by (simp add: r_def MAX_BODY_LEN_def)
qed

text \<open>
  C37. The receive buffer is bounded against every peer: if one \<open>recv\<close> returns at most the 4096
  bytes asked for, a session never buffers 32 MB and 4096 bytes or more, and a session that
  stays connected after a wake-up keeps less than 16 MB and 4 bytes, an incomplete frame.
\<close>

theorem recv_msgs_bounded:
  assumes "\<forall>i bs. net i = RecvBytes bs \<longrightarrow> length bs \<le> 4096"
    and "length (recv_buf s) < MAX_RECV_BUF_SIZE + 4096"
    and "recv_msgs parse net s = (r, s')"
  shows "length (recv_buf s') < MAX_RECV_BUF_SIZE + 4096 \<and>
    (\<forall>ms. r = Inr (Some ms) \<longrightarrow> length (recv_buf s') < 4 + MAX_BODY_LEN)"
proof (intro conjI allI impI)
  obtain out buf k where d: "recv_drain net 0 (recv_buf s) = (out, buf, k)"
    by (cases "recv_drain net 0 (recv_buf s)") auto
  from recv_drain_bound [OF d assms(1,2)] have b: "length buf < MAX_RECV_BUF_SIZE + 4096" .
  obtain eo ms' buf' f' where e: "extract_frames parse buf (parse_failures s) [] = (eo, ms', buf', f')"
    by (cases "extract_frames parse buf (parse_failures s) []") auto
  from extract_shrinks [OF e] b have b': "length buf' < MAX_RECV_BUF_SIZE + 4096" by simp
  from assms(3) d e b b' show "length (recv_buf s') < MAX_RECV_BUF_SIZE + 4096"
    by (auto simp: recv_msgs_def split: drain_outcome.splits extract_outcome.splits)
  fix ms assume r: "r = Inr (Some ms)"
  with assms(3) d e have "eo = Extracted" "recv_buf s' = buf'"
    by (auto simp: recv_msgs_def split: drain_outcome.splits extract_outcome.splits)
  with e show "length (recv_buf s') < 4 + MAX_BODY_LEN"
    using extract_rest next_frame_bounded by blast
qed

theorem recv_msgs_bounded_witness:
  "\<exists>s'. recv_msgs (\<lambda>_. BadJson) (serve [[0, 0, 0]]) (new_session 5) = (Inr (Some []), s') \<and>
     length (recv_buf s') < 4 + MAX_BODY_LEN"
proof -
  define s' where "s' = (new_session 5)\<lparr>recv_buf := [0, 0, 0]\<rparr>"
  have r: "recv_msgs (\<lambda>_. BadJson) (serve [[0, 0, 0]]) (new_session 5) = (Inr (Some []), s')"
    by (simp add: recv_msgs_def s'_def serve_def recv_drain.simps extract_frames.simps
        next_frame_def new_session_def MAX_RECV_BUF_SIZE_def)
  have "length (recv_buf (new_session 5)) < MAX_RECV_BUF_SIZE + 4096"
    by (simp add: new_session_def MAX_RECV_BUF_SIZE_def)
  from recv_msgs_bounded [OF _ this r] r show ?thesis
    by (auto simp: serve_def split: if_splits)
qed

text \<open>A frame whose body the parser rejects with \<open>parse_error\<close>.\<close>

abbreviation bad_body :: "(string \<Rightarrow> parse_outcome) \<Rightarrow> bytes \<Rightarrow> bool" where
  "bad_body parse b \<equiv> parse (bytes_string b) = BadJson"

lemma extract_drops_iff:
  "splits next_frame buf bodies rest \<Longrightarrow> \<forall>b \<in> set bodies. \<forall>e. parse (bytes_string b) \<noteq> ParserThrows e \<Longrightarrow>
   n < 3 \<Longrightarrow>
   fst (extract_frames parse buf (of_nat n) ms) = Dropped \<longleftrightarrow>
     sublist [True, True, True] (map (bad_body parse) bodies) \<or>
     prefix (replicate (3 - n) True) (map (bad_body parse) bodies)"
proof (induction arbitrary: n ms rule: splits.induct)
  case (stop buf)
  then show ?case by (simp add: extract_frames.simps [of parse buf])
next
  case (take buf b r bs rest)
  have n_cases: "n = 0 \<or> n = 1 \<or> n = 2" using take.prems(2) by linarith
  have no_throw: "\<forall>b \<in> set bs. \<forall>e. parse (bytes_string b) \<noteq> ParserThrows e"
    using take.prems(1) by simp
  note IH = take.IH [OF no_throw]
  show ?case
  proof (cases "parse (bytes_string b)")
    case (Parsed j)
    have "fst (extract_frames parse buf (of_nat n) ms) = Dropped \<longleftrightarrow>
        fst (extract_frames parse r (of_nat 0) (ms @ [j])) = Dropped"
      using Parsed take.hyps(1) by (simp add: extract_frames.simps [of parse buf])
    also have "\<dots> \<longleftrightarrow> sublist [True, True, True] (map (bad_body parse) bs)"
      by (subst IH) (auto simp: numeral_3_eq_3 intro: prefix_imp_sublist)
    finally show ?thesis
      using n_cases by (elim disjE) (simp_all add: Parsed sublist_Cons_right numeral_3_eq_3)
  next
    case BadJson
    show ?thesis
    proof (cases "n = 2")
      case True
      with BadJson take.hyps(1) show ?thesis
        by (simp add: extract_frames.simps [of parse buf] word_le_nat_alt)
    next
      case False
      with n_cases have n: "n = 0 \<or> n = 1" by auto
      then have "fst (extract_frames parse buf (of_nat n) ms) = Dropped \<longleftrightarrow>
          fst (extract_frames parse r (of_nat (Suc n)) ms) = Dropped"
        using BadJson take.hyps(1)
        by (auto simp: extract_frames.simps [of parse buf] word_le_nat_alt)
      also have "\<dots> \<longleftrightarrow> sublist [True, True, True] (map (bad_body parse) bs) \<or>
          prefix (replicate (3 - Suc n) True) (map (bad_body parse) bs)"
        using n by (intro IH) auto
      finally show ?thesis
        using n by (auto simp: BadJson sublist_Cons_right numeral_3_eq_3 numeral_2_eq_2
            dest: append_prefixD [of "[True]" "[True]", simplified])
    qed
  next
    case (ParserThrows e)
    with take.prems show ?thesis by simp
  qed
qed

text \<open>
  Three strikes: on a fresh failure counter, and as long as the parser only accepts or
  raises \<open>parse_error\<close>, the buffered complete frames make the server drop the connection
  exactly when three frames in a row do not parse; a good frame in between resets the count.
\<close>

theorem three_strikes:
  assumes "splits next_frame buf bodies rest"
    and "\<forall>b \<in> set bodies. \<forall>e. parse (bytes_string b) \<noteq> ParserThrows e"
  shows "fst (extract_frames parse buf 0 []) = Dropped \<longleftrightarrow>
    sublist [True, True, True] (map (bad_body parse) bodies)"
  using extract_drops_iff [OF assms, of 0 "[]"]
  by (auto simp: numeral_3_eq_3 intro: prefix_imp_sublist)

theorem three_strikes_witness:
  "fst (extract_frames (\<lambda>_. BadJson)
      (server_frame [1] @ server_frame [2] @ server_frame [3]) 0 []) = Dropped"
proof -
  have "splits next_frame (concat (map server_frame [[1], [2], [3]]) @ []) [[1], [2], [3]] []"
    by (rule srv.splits_frames) (simp_all add: body_ok_def MAX_BODY_LEN_def)
  from three_strikes [OF this, of "\<lambda>_. BadJson"] show ?thesis by simp
qed

end
