(* ===== verification/EpollServer.thy ===== *)
theory EpollServer
  imports Protocol
begin

text \<open>
  The session table and the messaging operations of \<open>server/src/epoll_server.cpp\<close>.

  Sessions are shared objects: \<open>sessions_\<close>, worker lambdas and local variables hold
  \<open>shared_ptr\<close>s to them. The model keeps them in a store \<open>heap\<close> under an identity (\<open>sid\<close>, in
  order of creation), so that a lambda that still refers to a session removed from the table
  sees the same object. The iteration order of \<open>sessions_\<close> is a parameter \<open>order\<close> (a
  permutation of the entries). Calls of \<open>Protocol::send_msg(fd, msg)\<close> are recorded in \<open>out\<close> in
  the order they are issued; what such a call puts on the wire is the subject of \<open>Protocol\<close>. No
  caller reads the results of \<open>send_to_fd\<close>, \<open>send_error\<close> or \<open>send_ok\<close>.
\<close>

section \<open>State\<close>

record server =
  sessions :: "(fd \<times> sid) list"
  heap :: "sid \<Rightarrow> client_session"
  next_sid :: sid
  next_generation :: "64 word"
  epoll_set :: "fd list"
  out :: "(fd \<times> json) list"
  shut_down :: "fd list"
  closed :: "fd list"

definition new_server :: server where
  "new_server = \<lparr>sessions = [], heap = (\<lambda>_. new_session (-1)), next_sid = 0, next_generation = 1,
     epoll_set = [], out = [], shut_down = [], closed = []\<rparr>"

definition upd_session :: "(client_session \<Rightarrow> client_session) \<Rightarrow> sid \<Rightarrow> server \<Rightarrow> server" where
  "upd_session f i s = s\<lparr>heap := (heap s)(i := f (heap s i))\<rparr>"

definition emit :: "fd \<Rightarrow> json \<Rightarrow> server \<Rightarrow> server" where
  "emit f msg s = s\<lparr>out := out s @ [(f, msg)]\<rparr>"

section \<open>Accepting connections\<close>

text \<open>
  One \<open>accept4\<close>: a descriptor, the peer's address as \<open>inet_ntop\<close> prints it and whether
  \<open>epoll_ctl(ADD)\<close> then succeeds; or \<open>EAGAIN\<close>; or another error.
\<close>

datatype accept_result = Accepted fd string bool | AcceptAgain | AcceptFailed

text \<open>
  When \<open>epoll_ctl\<close> fails, the code closes the descriptor and leaves the iteration, which
  destroys the session object, whose destructor closes the descriptor too.
\<close>

definition accept_one :: "fd \<Rightarrow> string \<Rightarrow> bool \<Rightarrow> server \<Rightarrow> server" where
  "accept_one f ip epoll_ok s =
     (let gen = next_generation s;
          s1 = s\<lparr>next_generation := gen + 1\<rparr>;
          session = (new_session f)\<lparr>generation := gen, ip_address := ip\<rparr>
      in if epoll_ok
         then s1\<lparr>heap := (heap s1)(next_sid s1 := session),
                 sessions := alist_put f (next_sid s1) (sessions s1),
                 next_sid := next_sid s1 + 1,
                 epoll_set := set_insert f (epoll_set s1)\<rparr>
         else s1\<lparr>closed := closed s1 @ [f] @ fst (session_dtor session)\<rparr>)"

fun handle_new_connection :: "accept_result list \<Rightarrow> server \<Rightarrow> server" where
  "handle_new_connection [] s = s"
| "handle_new_connection (Accepted f ip epoll_ok # rs) s =
     handle_new_connection rs (accept_one f ip epoll_ok s)"
| "handle_new_connection (AcceptAgain # rs) s = s"
| "handle_new_connection (AcceptFailed # rs) s = s"

section \<open>Messaging\<close>

type_synonym table_order = "(fd \<times> sid) list \<Rightarrow> (fd \<times> sid) list"

definition broadcast_targets :: "table_order \<Rightarrow> string \<Rightarrow> server \<Rightarrow> sid list" where
  "broadcast_targets order exclude s =
     map snd (filter (\<lambda>(f, i). is_authenticated (heap s i) \<and>
         \<not> (exclude \<noteq> [] \<and> get_username (heap s i) = exclude)) (order (sessions s)))"

definition broadcast :: "table_order \<Rightarrow> json \<Rightarrow> string \<Rightarrow> server \<Rightarrow> server" where
  "broadcast order msg exclude s =
     fold (\<lambda>i s. emit (cs_fd (heap s i)) msg s) (broadcast_targets order exclude s) s"

definition send_to_fd :: "fd \<Rightarrow> json \<Rightarrow> server \<Rightarrow> server" where
  "send_to_fd f msg s =
     (case map_of (sessions s) f of
        None \<Rightarrow> s
      | Some i \<Rightarrow> emit (cs_fd (heap s i)) msg s)"

definition find_session :: "table_order \<Rightarrow> string \<Rightarrow> server \<Rightarrow> sid option" where
  "find_session order name s =
     map_option snd (List.find (\<lambda>(f, i). get_username (heap s i) = name) (order (sessions s)))"

definition heartbeat :: "table_order \<Rightarrow> server \<Rightarrow> server" where
  "heartbeat order s = broadcast order (json_object [(''type'', JString ''PING'')]) [] s"

section \<open>Removing a client\<close>

text \<open>
  \<open>remove_client\<close> before and after the disconnect handler: the first part takes the session out
  of epoll and of the table and gives it a new generation, the second shuts the socket down.
\<close>

definition remove_begin :: "fd \<Rightarrow> server \<Rightarrow> sid option \<times> server" where
  "remove_begin f s =
     (let s1 = s\<lparr>epoll_set := set_erase f (epoll_set s)\<rparr> in
      case map_of (sessions s1) f of
        None \<Rightarrow> (None, s1)
      | Some i \<Rightarrow>
          (let s2 = s1\<lparr>sessions := alist_erase f (sessions s1)\<rparr>;
               s3 = s2\<lparr>next_generation := next_generation s2 + 1\<rparr>
           in (Some i, upd_session (\<lambda>c. c\<lparr>generation := next_generation s3\<rparr>) i s3)))"

definition remove_end :: "fd \<Rightarrow> sid option \<Rightarrow> server \<Rightarrow> server" where
  "remove_end f removed s =
     (case removed of None \<Rightarrow> s | Some i \<Rightarrow> s\<lparr>shut_down := shut_down s @ [f]\<rparr>)"

section \<open>Frame equations\<close>

lemma upd_session_simps [simp]:
  "sessions (upd_session f i s) = sessions s"
  "heap (upd_session f i s) j = (if j = i then f (heap s i) else heap s j)"
  "next_sid (upd_session f i s) = next_sid s"
  "next_generation (upd_session f i s) = next_generation s"
  "out (upd_session f i s) = out s"
  by (auto simp: upd_session_def)

lemma emit_simps [simp]:
  "sessions (emit f m s) = sessions s"
  "heap (emit f m s) = heap s"
  "next_sid (emit f m s) = next_sid s"
  "next_generation (emit f m s) = next_generation s"
  "out (emit f m s) = out s @ [(f, m)]"
  by (auto simp: emit_def)

lemma fold_emit_simps:
  "sessions (fold (\<lambda>i s. emit (cs_fd (heap s i)) m s) is s) = sessions s"
  "heap (fold (\<lambda>i s. emit (cs_fd (heap s i)) m s) is s) = heap s"
  "next_sid (fold (\<lambda>i s. emit (cs_fd (heap s i)) m s) is s) = next_sid s"
  "next_generation (fold (\<lambda>i s. emit (cs_fd (heap s i)) m s) is s) = next_generation s"
  "out (fold (\<lambda>i s. emit (cs_fd (heap s i)) m s) is s) = out s @ map (\<lambda>i. (cs_fd (heap s i), m)) is"
  by (induction "is" arbitrary: s) auto

lemma broadcast_simps [simp]:
  "sessions (broadcast order m ex s) = sessions s"
  "heap (broadcast order m ex s) = heap s"
  "next_sid (broadcast order m ex s) = next_sid s"
  "next_generation (broadcast order m ex s) = next_generation s"
  "out (broadcast order m ex s) =
     out s @ map (\<lambda>i. (cs_fd (heap s i), m)) (broadcast_targets order ex s)"
  by (simp_all add: broadcast_def fold_emit_simps)

lemma send_to_fd_simps [simp]:
  "sessions (send_to_fd f m s) = sessions s"
  "heap (send_to_fd f m s) = heap s"
  "next_sid (send_to_fd f m s) = next_sid s"
  "next_generation (send_to_fd f m s) = next_generation s"
  by (auto simp: send_to_fd_def split: option.split)

section \<open>The registry of authenticated sessions\<close>

text \<open>
  What \<open>MessageRouter\<close> relies on when it asks for the session of a user: \<open>find_session\<close> finds a
  live session of that name exactly when there is one. The router's argument that a name is
  never online twice rests on these laws only.
\<close>

locale session_registry =
  fixes find :: "string \<Rightarrow> 's \<Rightarrow> sid option"
    and live :: "'s \<Rightarrow> sid set"
    and name_of :: "'s \<Rightarrow> sid \<Rightarrow> string"
    and rename :: "sid \<Rightarrow> string \<Rightarrow> 's \<Rightarrow> 's"
  assumes find_Some: "find u s = Some i \<Longrightarrow> i \<in> live s \<and> name_of s i = u"
    and find_None: "find u s = None \<Longrightarrow> i \<in> live s \<Longrightarrow> name_of s i \<noteq> u"
    and live_rename: "live (rename i u s) = live s"
    and name_rename: "name_of (rename i u s) j = (if j = i then u else name_of s j)"
begin

text \<open>No two live sessions carry the same name.\<close>

definition unique_names :: "'s \<Rightarrow> bool" where
  "unique_names s \<longleftrightarrow>
     (\<forall>i \<in> live s. \<forall>j \<in> live s. name_of s i \<noteq> [] \<longrightarrow> name_of s i = name_of s j \<longrightarrow> i = j)"

definition names :: "'s \<Rightarrow> string set" where
  "names s = {name_of s i | i. i \<in> live s \<and> name_of s i \<noteq> []}"

lemma find_iff_online: "u \<noteq> [] \<Longrightarrow> find u s = None \<longleftrightarrow> u \<notin> names s"
proof
  assume "u \<noteq> []" "u \<notin> names s"
  then show "find u s = None"
    by (cases "find u s") (auto simp: names_def dest: find_Some)
qed (auto simp: names_def dest: find_None)

lemma login_unique: "unique_names s \<Longrightarrow> u \<notin> names s \<Longrightarrow> unique_names (rename i u s)"
  by (auto simp: unique_names_def names_def live_rename name_rename)

lemma logout_unique: "unique_names s \<Longrightarrow> unique_names (rename i [] s)"
  by (auto simp: unique_names_def live_rename name_rename)

lemma login_names:
  "i \<in> live s \<Longrightarrow> name_of s i = [] \<Longrightarrow> u \<noteq> [] \<Longrightarrow> names (rename i u s) = insert u (names s)"
  by (force simp: names_def live_rename name_rename)

lemma logout_names:
  "unique_names s \<Longrightarrow> i \<in> live s \<Longrightarrow> names (rename i [] s) = names s - {name_of s i}"
  by (auto simp: names_def live_rename name_rename unique_names_def)

lemma find_unique:
  "unique_names s \<Longrightarrow> i \<in> live s \<Longrightarrow> name_of s i = u \<Longrightarrow> u \<noteq> [] \<Longrightarrow> find u s = Some i"
  by (cases "find u s") (auto simp: unique_names_def dest: find_None find_Some)

end

text \<open>An iteration order lists the entries of the table, each once.\<close>

definition iteration_order :: "table_order \<Rightarrow> bool" where
  "iteration_order order \<longleftrightarrow> (\<forall>xs. mset (order xs) = mset xs)"

lemma iteration_order_set: "iteration_order order \<Longrightarrow> set (order xs) = set xs"
  by (metis iteration_order_def mset_eq_setD)

lemma iteration_order_id [simp]: "iteration_order (\<lambda>xs. xs)"
  by (simp add: iteration_order_def)

definition live_sids :: "server \<Rightarrow> sid set" where
  "live_sids s = snd ` set (sessions s)"

definition name_at :: "server \<Rightarrow> sid \<Rightarrow> string" where
  "name_at s i = username (heap s i)"

text \<open>The order is fixed by the program run; any one will do for the laws.\<close>

definition find_in :: "table_order \<Rightarrow> string \<Rightarrow> server \<Rightarrow> sid option" where
  "find_in order = (if iteration_order order then find_session order else find_session (\<lambda>xs. xs))"

interpretation reg: session_registry "find_in order" live_sids name_at
  "\<lambda>i u. upd_session (set_username u) i"
  for order
proof
  define o' where "o' = (if iteration_order order then order else (\<lambda>xs. xs))"
  have o': "iteration_order o'" "find_in order = find_session o'"
    by (simp_all add: o'_def find_in_def)
  fix u s i assume "find_in order u s = Some i"
  then show "i \<in> live_sids s \<and> name_at s i = u"
    using iteration_order_set [OF o'(1), of "sessions s"]
    by (force simp: o'(2) find_session_def find_Some_iff live_sids_def name_at_def get_username_def
        dest: nth_mem)
next
  define o' where "o' = (if iteration_order order then order else (\<lambda>xs. xs))"
  have o': "iteration_order o'" "find_in order = find_session o'"
    by (simp_all add: o'_def find_in_def)
  fix u s i assume "find_in order u s = None" "i \<in> live_sids s"
  then show "name_at s i \<noteq> u"
    using iteration_order_set [OF o'(1), of "sessions s"]
    by (fastforce simp: o'(2) find_session_def find_None_iff live_sids_def name_at_def
        get_username_def)
qed (auto simp: live_sids_def name_at_def set_username_def)


lemma find_in_session: "iteration_order order \<Longrightarrow> find_session order = find_in order"
  by (simp add: find_in_def)

end
