(* ===== verification/Database.thy ===== *)
theory Database
  imports Json
begin

text \<open>
  \<open>server/src/database.cpp\<close>: the \<open>users\<close> and \<open>messages\<close> tables and the four prepared queries.
  The tables are lists in \<open>rowid\<close> order. Every parameter is bound with \<open>c_str()\<close> and length
  \<open>-1\<close>, so SQLite sees a string up to its first NUL byte (\<open>c_str\<close>). What SQLite decides is a
  parameter: whether a statement can be prepared (\<open>prep_ok\<close>), whether a step ends with
  \<open>SQLITE_DONE\<close> (\<open>step_done\<close>), and the order an \<open>ORDER BY\<close> gives to rows with equal
  keys (\<open>desc\<close>, \<open>asc\<close>, with the contract \<open>order_by_desc\<close> and \<open>order_by_asc\<close>).
\<close>

section \<open>Tables\<close>

record message_row =
  row_id :: nat
  from_user :: string
  to_user :: string
  row_content :: string
  row_timestamp :: int

record database =
  users :: "(string \<times> string) list"
  messages :: "message_row list"
  next_id :: nat

definition empty_database :: database where
  "empty_database = \<lparr>users = [], messages = [], next_id = 1\<rparr>"

definition c_str :: "string \<Rightarrow> string" where
  "c_str s = takeWhile (\<lambda>c. c \<noteq> CHR 0x00) s"

definition room :: string where
  "room = ''__room__''"

section \<open>Operations\<close>

definition register_user :: "bool \<Rightarrow> string \<Rightarrow> string \<Rightarrow> database \<Rightarrow> bool \<times> database" where
  "register_user step_done username password_hash d =
     (if username = [] then (False, d)
      else if \<not> step_done then (False, d)
      else if c_str username \<in> fst ` set (users d) then (False, d)
      else (True, d\<lparr>users := users d @ [(c_str username, c_str password_hash)]\<rparr>))"

definition get_stored_hash :: "bool \<Rightarrow> string \<Rightarrow> database \<Rightarrow> string" where
  "get_stored_hash prep_ok username d =
     (if \<not> prep_ok then []
      else case map_of (users d) (c_str username) of None \<Rightarrow> [] | Some h \<Rightarrow> h)"

definition store_message :: "bool \<Rightarrow> string \<Rightarrow> string \<Rightarrow> string \<Rightarrow> int \<Rightarrow> database \<Rightarrow> database" where
  "store_message step_done from to content ts d =
     (if step_done
      then d\<lparr>messages := messages d @ [\<lparr>row_id = next_id d, from_user = c_str from,
               to_user = c_str to, row_content = c_str content, row_timestamp = ts\<rparr>],
             next_id := next_id d + 1\<rparr>
      else d)"

definition clamp_limit :: "int \<Rightarrow> nat" where
  "clamp_limit limit = nat (if limit < 1 then 1 else if 200 < limit then 200 else limit)"

text \<open>The \<open>WHERE\<close> clauses of the two queries, chosen by the target.\<close>

definition history_match :: "string \<Rightarrow> string \<Rightarrow> message_row \<Rightarrow> bool" where
  "history_match requestor target r =
     (if target = room then to_user r = c_str target
      else (from_user r = c_str requestor \<and> to_user r = c_str target) \<or>
           (from_user r = c_str target \<and> to_user r = c_str requestor))"

definition history_rows ::
  "(message_row list \<Rightarrow> message_row list) \<Rightarrow> (message_row list \<Rightarrow> message_row list) \<Rightarrow>
     string \<Rightarrow> string \<Rightarrow> int \<Rightarrow> database \<Rightarrow> message_row list" where
  "history_rows desc asc requestor target limit d =
     asc (take (clamp_limit limit) (desc (filter (history_match requestor target) (messages d))))"

definition row_json :: "message_row \<Rightarrow> json" where
  "row_json r = json_object
     [(''from'', JString (from_user r)), (''content'', JString (row_content r)),
      (''timestamp'', JInt (row_timestamp r))]"

definition get_history ::
  "(message_row list \<Rightarrow> message_row list) \<Rightarrow> (message_row list \<Rightarrow> message_row list) \<Rightarrow> bool \<Rightarrow>
     string \<Rightarrow> string \<Rightarrow> int \<Rightarrow> database \<Rightarrow> json list" where
  "get_history desc asc prep_ok requestor target limit d =
     (if \<not> prep_ok then []
      else map row_json (history_rows desc asc requestor target limit d))"

section \<open>What SQL promises of ORDER BY\<close>

definition order_by_desc :: "(message_row list \<Rightarrow> message_row list) \<Rightarrow> bool" where
  "order_by_desc f \<longleftrightarrow>
     (\<forall>rs. mset (f rs) = mset rs \<and> sorted_wrt (\<lambda>a b. row_timestamp b \<le> row_timestamp a) (f rs))"

definition order_by_asc :: "(message_row list \<Rightarrow> message_row list) \<Rightarrow> bool" where
  "order_by_asc f \<longleftrightarrow>
     (\<forall>rs. mset (f rs) = mset rs \<and> sorted_wrt (\<lambda>a b. row_timestamp a \<le> row_timestamp b) (f rs))"

text \<open>A concrete instance: stable sorting by timestamp.\<close>

definition stable_asc :: "message_row list \<Rightarrow> message_row list" where
  "stable_asc rs = sort_key row_timestamp rs"

definition stable_desc :: "message_row list \<Rightarrow> message_row list" where
  "stable_desc rs = rev (sort_key row_timestamp rs)"

lemma sorted_by_timestamp:
  "sorted_wrt (\<lambda>a b. row_timestamp a \<le> row_timestamp b) (sort_key row_timestamp (rs :: message_row list))"
  using sorted_sort_key [of row_timestamp rs] by (simp add: sorted_map)

lemma order_by_stable_asc: "order_by_asc stable_asc"
  by (simp add: order_by_asc_def stable_asc_def sorted_by_timestamp)

lemma order_by_stable_desc: "order_by_desc stable_desc"
  by (simp add: order_by_desc_def stable_desc_def sorted_wrt_rev sorted_by_timestamp)

section \<open>The user store as the router sees it\<close>

locale user_store =
  fixes reg :: "string \<Rightarrow> string \<Rightarrow> 'd \<Rightarrow> bool \<times> 'd"
    and stored :: "string \<Rightarrow> 'd \<Rightarrow> string"
    and key :: "string \<Rightarrow> string"
  assumes reg_true: "reg u h d = (True, d') \<Longrightarrow>
      stored v d' = (if key v = key u then key h else stored v d)"
    and reg_false: "reg u h d = (False, d') \<Longrightarrow> d' = d"
    and reg_taken: "stored u d \<noteq> [] \<Longrightarrow> reg u h d = (False, d)"
    and stored_key: "key u = key v \<Longrightarrow> stored u d = stored v d"
begin

text \<open>A stored hash is never changed by a registration, whoever registers.\<close>

lemma reg_keeps:
  assumes "stored v d \<noteq> []"
  shows "stored v (snd (reg u h d)) = stored v d"
proof (cases "reg u h d")
  case (Pair ok d')
  show ?thesis
  proof (cases ok)
    case True
    have "key v \<noteq> key u"
      using assms reg_taken [of u d h] stored_key [of v u d] Pair True by auto
    then show ?thesis using reg_true [of u h d d' v] Pair True by simp
  next
    case False
    then show ?thesis using reg_false [of u h d d'] Pair by simp
  qed
qed

fun reg_all :: "(string \<times> string) list \<Rightarrow> 'd \<Rightarrow> 'd" where
  "reg_all [] d = d"
| "reg_all ((u, h) # rs) d = reg_all rs (snd (reg u h d))"

lemma reg_all_keeps: "stored v d \<noteq> [] \<Longrightarrow> stored v (reg_all rs d) = stored v d"
proof (induction rs arbitrary: d)
  case (Cons r rs)
  then show ?case by (cases r) (simp add: reg_keeps)
qed simp

lemma earliest_wins:
  assumes "reg u h d = (True, d')" and "key h \<noteq> []"
  shows "stored u (reg_all rs d') = key h"
    and "key v = key u \<Longrightarrow> reg v h' (reg_all rs d') = (False, reg_all rs d')"
proof -
  have "stored u d' = key h" using reg_true [OF assms(1)] by simp
  with assms(2) show *: "stored u (reg_all rs d') = key h" by (simp add: reg_all_keeps)
  assume "key v = key u"
  with * have "stored v (reg_all rs d') = key h" using stored_key [of v u] by simp
  with assms(2) show "reg v h' (reg_all rs d') = (False, reg_all rs d')" by (simp add: reg_taken)
qed

end

lemma register_user_True:
  "register_user b u h d = (True, d') \<longleftrightarrow>
     u \<noteq> [] \<and> b \<and> c_str u \<notin> fst ` set (users d) \<and>
     d' = d\<lparr>users := users d @ [(c_str u, c_str h)]\<rparr>"
  by (auto simp: register_user_def)

lemma register_user_False: "register_user b u h d = (False, d') \<Longrightarrow> d' = d"
  by (auto simp: register_user_def split: if_splits)

lemma get_stored_hash_known: "get_stored_hash b u d \<noteq> [] \<Longrightarrow> c_str u \<in> fst ` set (users d)"
  by (auto simp: get_stored_hash_def dest!: map_of_SomeD split: option.splits if_splits)
     (force)

lemma map_of_append_fresh:
  "k \<notin> fst ` set xs \<Longrightarrow> map_of (xs @ [(k, v)]) = (map_of xs)(k \<mapsto> v)"
  by (induction xs) (auto simp: fun_eq_iff)

interpretation us: user_store "register_user step_done" "get_stored_hash True" c_str
  for step_done
proof
  fix u h d d' v assume "register_user step_done u h d = (True, d')"
  then show "get_stored_hash True v d' = (if c_str v = c_str u then c_str h else get_stored_hash True v d)"
    by (auto simp: register_user_True get_stored_hash_def map_of_append_fresh simp del: map_of_append)
next
  fix u h d d' assume "register_user step_done u h d = (False, d')"
  then show "d' = d" by (rule register_user_False)
next
  fix u d h assume "get_stored_hash True u d \<noteq> []"
  then have "c_str u \<in> fst ` set (users d)" by (rule get_stored_hash_known)
  then show "register_user step_done u h d = (False, d)" by (simp add: register_user_def)
next
  fix u v d assume "c_str u = c_str v"
  then show "get_stored_hash True u d = get_stored_hash True v d" by (simp add: get_stored_hash_def)
qed

section \<open>Invariant\<close>

text \<open>Usernames are a primary key; row identifiers grow.\<close>

definition database_wf :: "database \<Rightarrow> bool" where
  "database_wf d \<longleftrightarrow> distinct (map fst (users d)) \<and>
     sorted_wrt (<) (map row_id (messages d)) \<and> (\<forall>r \<in> set (messages d). row_id r < next_id d)"

lemma database_wf_empty [inv_intros]: "database_wf empty_database"
  by (simp add: database_wf_def empty_database_def)

lemma database_wf_register [inv_intros]: "database_wf d \<Longrightarrow> database_wf (snd (register_user b u h d))"
  by (auto simp: database_wf_def register_user_def)

lemma database_wf_store [inv_intros]: "database_wf d \<Longrightarrow> database_wf (store_message b f t c ts d)"
  by (auto simp: database_wf_def store_message_def sorted_wrt_append)


section \<open>Lemmas on the history query\<close>

lemma mset_take_drop: "mset xs = mset (take n xs) + mset (drop n xs)"
  by (metis append_take_drop_id mset_append)

lemma clamp_limit_bounds: "1 \<le> clamp_limit l \<and> clamp_limit l \<le> 200"
  by (cases "l < 1"; cases "200 < l") (auto simp: clamp_limit_def le_nat_iff)

text \<open>What the inner query keeps and what it cuts off.\<close>

lemma history_rows_mset:
  assumes "order_by_desc desc" "order_by_asc asc"
  shows "mset (history_rows desc asc req tgt lim d) +
      mset (drop (clamp_limit lim) (desc (filter (history_match req tgt) (messages d)))) =
    mset (filter (history_match req tgt) (messages d))"
  using assms mset_take_drop [of "desc (filter (history_match req tgt) (messages d))" "clamp_limit lim"]
  by (simp add: history_rows_def order_by_desc_def order_by_asc_def)

lemma history_rows_set:
  assumes "order_by_desc desc" "order_by_asc asc"
  shows "set (history_rows desc asc req tgt lim d) \<subseteq>
    {r \<in> set (messages d). history_match req tgt r}"
proof -
  have "set_mset (mset (history_rows desc asc req tgt lim d)) \<subseteq>
      set_mset (mset (filter (history_match req tgt) (messages d)))"
    unfolding history_rows_mset [OF assms, of req tgt lim d, symmetric] by simp
  then show ?thesis by auto
qed

lemma sorted_wrt_take_drop:
  "sorted_wrt P xs \<Longrightarrow> x \<in> set (take n xs) \<Longrightarrow> y \<in> set (drop n xs) \<Longrightarrow> P x y"
  using sorted_wrt_append [of P "take n xs" "drop n xs"] by simp

lemma history_rows_length:
  assumes "order_by_desc desc" "order_by_asc asc"
  shows "length (history_rows desc asc req tgt lim d) =
    min (clamp_limit lim) (length (filter (history_match req tgt) (messages d)))"
proof -
  let ?m = "filter (history_match req tgt) (messages d)"
  have "length (asc xs) = length xs" "length (desc xs) = length xs" for xs
    using assms by (metis order_by_asc_def size_mset, metis order_by_desc_def size_mset)
  then show ?thesis by (simp add: history_rows_def min.commute)
qed

lemma history_rows_cut:
  assumes "order_by_desc desc" "order_by_asc asc"
    and "r \<in> set (drop (clamp_limit lim) (desc (filter (history_match req tgt) (messages d))))"
    and "r' \<in> set (history_rows desc asc req tgt lim d)"
  shows "row_timestamp r \<le> row_timestamp r'"
proof -
  let ?m = "desc (filter (history_match req tgt) (messages d))"
  have "mset (history_rows desc asc req tgt lim d) = mset (take (clamp_limit lim) ?m)"
    using assms(2) by (simp add: history_rows_def order_by_asc_def)
  with assms(4) have "r' \<in> set (take (clamp_limit lim) ?m)" by (metis mset_eq_setD)
  moreover have "sorted_wrt (\<lambda>a b. row_timestamp b \<le> row_timestamp a) ?m"
    using assms(1) by (simp add: order_by_desc_def)
  ultimately show ?thesis using sorted_wrt_take_drop [OF _ _ assms(3)] by fastforce
qed

lemma c_str_id: "CHR 0x00 \<notin> set s \<Longrightarrow> c_str s = s"
  by (auto simp: c_str_def takeWhile_eq_all_conv)

lemma c_str_idem [simp]: "c_str (c_str s) = c_str s"
  by (simp add: c_str_def)

lemma c_str_room [simp]: "c_str room = room"
  by (simp add: c_str_def room_def)

section \<open>Properties\<close>

text \<open>
  A history query returns the newest messages of the conversation, oldest first: given what
  SQL promises of \<open>ORDER BY\<close>, the result has as many rows as match, up to the limit clamped to
  1..200; its rows are matching rows, each as often as stored; their timestamps increase; and no
  matching row that is left out is newer than a returned one.
\<close>

theorem history_newest:
  assumes "order_by_desc desc" and "order_by_asc asc"
  shows "let rows = history_rows desc asc req tgt lim d;
      matching = filter (history_match req tgt) (messages d)
    in length rows = min (clamp_limit lim) (length matching) \<and>
      sorted_wrt (\<lambda>a b. row_timestamp a \<le> row_timestamp b) rows \<and>
      mset rows \<subseteq># mset matching \<and>
      (\<forall>r \<in># mset matching - mset rows. \<forall>r' \<in> set rows. row_timestamp r \<le> row_timestamp r')"
proof (unfold Let_def, intro conjI ballI)
  let ?rows = "history_rows desc asc req tgt lim d"
  let ?m = "filter (history_match req tgt) (messages d)"
  have m: "mset ?m = mset ?rows + mset (drop (clamp_limit lim) (desc ?m))"
    using history_rows_mset [OF assms] by simp
  show "length ?rows = min (clamp_limit lim) (length ?m)"
    by (rule history_rows_length [OF assms])
  show "sorted_wrt (\<lambda>a b. row_timestamp a \<le> row_timestamp b) ?rows"
    using assms(2) by (simp add: history_rows_def order_by_asc_def)
  show "mset ?rows \<subseteq># mset ?m" unfolding m by simp
  fix r r' assume "r \<in># mset ?m - mset ?rows" and r': "r' \<in> set ?rows"
  then have "r \<in> set (drop (clamp_limit lim) (desc ?m))" unfolding m by simp
  from history_rows_cut [OF assms this r'] show "row_timestamp r \<le> row_timestamp r'" .
qed

text \<open>Three room messages for the witnesses, with equal and out-of-order timestamps.\<close>

definition sample_database :: database where
  "sample_database =
     store_message True ''bob'' room ''two'' 20 (store_message True ''eve'' room ''three'' 30
       (store_message True ''amy'' room ''one'' 10 empty_database))"

theorem history_newest_witness:
  "length (history_rows stable_desc stable_asc ''amy'' room 2 sample_database) = 2 \<and>
   map row_content (history_rows stable_desc stable_asc ''amy'' room 2 sample_database) = [''two'', ''three'']"
proof -
  have two: "map row_content (history_rows stable_desc stable_asc ''amy'' room 2 sample_database)
      = [''two'', ''three'']"
    by (simp add: history_rows_def stable_asc_def stable_desc_def sample_database_def
        store_message_def empty_database_def history_match_def clamp_limit_def room_def c_str_def)
  have "length (filter (history_match ''amy'' room) (messages sample_database)) = 3"
    by (simp add: sample_database_def store_message_def empty_database_def history_match_def
        room_def c_str_def)
  with history_newest [OF order_by_stable_desc order_by_stable_asc, of "''amy''" room 2 sample_database] two
  show ?thesis by (simp add: clamp_limit_def Let_def)
qed

text \<open>
  A private history is private: every row returned for a target other than the room was
  sent by the requestor to the target or by the target to the requestor (as the strings SQLite
  compares), and a room history contains only messages addressed to the room.
\<close>

theorem history_private:
  assumes "order_by_desc desc" and "order_by_asc asc"
    and "r \<in> set (history_rows desc asc req tgt lim d)"
  shows "r \<in> set (messages d) \<and>
    (if tgt = room then to_user r = room
     else {from_user r, to_user r} = {c_str req, c_str tgt})"
  using subsetD [OF history_rows_set [OF assms(1,2)] assms(3)]
  by (auto simp: history_match_def split: if_splits)

theorem history_private_witness:
  "\<exists>r. r \<in> set (history_rows stable_desc stable_asc ''amy'' ''bob'' 50
        (store_message True ''bob'' ''amy'' ''hi'' 5 sample_database)) \<and>
     {from_user r, to_user r} = {''amy'', ''bob''}"
proof -
  let ?r = "\<lparr>row_id = 4, from_user = ''bob'', to_user = ''amy'', row_content = ''hi'', row_timestamp = 5\<rparr>"
  have "?r \<in> set (history_rows stable_desc stable_asc ''amy'' ''bob'' 50
        (store_message True ''bob'' ''amy'' ''hi'' 5 sample_database))"
    by (simp add: history_rows_def stable_asc_def stable_desc_def sample_database_def
        store_message_def empty_database_def history_match_def clamp_limit_def room_def c_str_def)
  moreover from history_private [OF order_by_stable_desc order_by_stable_asc this]
  have "{from_user ?r, to_user ?r} = {''amy'', ''bob''}" by (simp add: room_def c_str_def)
  ultimately show ?thesis by blast
qed

text \<open>
  The first registration wins for good: after a registration succeeds, whatever
  registrations follow, the stored hash is the one given then, and every further registration of
  the name, also of a name that differs only after a NUL byte, is refused and changes nothing.
\<close>

theorem first_registration_wins:
  assumes "register_user True u h d = (True, d')" and "c_str h \<noteq> []"
  shows "get_stored_hash True u (us.reg_all True rs d') = c_str h \<and>
    (\<forall>v h'. c_str v = c_str u \<longrightarrow>
       register_user True v h' (us.reg_all True rs d') = (False, us.reg_all True rs d'))"
  using us.earliest_wins [OF assms] by blast

theorem first_registration_wins_witness:
  "\<exists>d'. register_user True ''amy'' ''salt:hash'' empty_database = (True, d') \<and>
     get_stored_hash True ''amy'' (us.reg_all True [(''bob'', ''x''), (''amy'', ''y'')] d') = ''salt:hash''"
proof -
  let ?d' = "snd (register_user True ''amy'' ''salt:hash'' empty_database)"
  have r: "register_user True ''amy'' ''salt:hash'' empty_database = (True, ?d')"
    by (simp add: register_user_def empty_database_def)
  have h: "c_str ''salt:hash'' = ''salt:hash''" by (simp add: c_str_def)
  from first_registration_wins [OF r, of "[(''bob'', ''x''), (''amy'', ''y'')]"] r show ?thesis
    by (auto simp: h)
qed

text \<open>
  A stored message comes back: a message stored with a timestamp newer than all stored ones
  is in the next history its conversation asks for, whatever the limit, and the JSON object
  carries the sender, the text (neither containing a NUL byte) and the timestamp unchanged.
\<close>

theorem store_then_history:
  assumes "order_by_desc desc" and "order_by_asc asc"
    and "\<forall>r \<in> set (messages d). row_timestamp r < ts"
    and "CHR 0x00 \<notin> set from" and "CHR 0x00 \<notin> set content"
    and "(if tgt = room then c_str to = room else
           c_str from = c_str req \<and> c_str to = c_str tgt \<or>
           c_str from = c_str tgt \<and> c_str to = c_str req)"
  shows "\<exists>j \<in> set (get_history desc asc True req tgt lim (store_message True from to content ts d)).
    json_value j ''from'' [] = Inr from \<and> json_value j ''content'' [] = Inr content \<and>
    j = json_object [(''from'', JString from), (''content'', JString content), (''timestamp'', JInt ts)]"
proof -
  define r where "r = \<lparr>row_id = next_id d, from_user = c_str from, to_user = c_str to,
      row_content = c_str content, row_timestamp = ts\<rparr>"
  let ?d = "store_message True from to content ts d"
  let ?rows = "history_rows desc asc req tgt lim ?d"
  let ?m = "filter (history_match req tgt) (messages ?d)"
  have msgs: "messages ?d = messages d @ [r]" by (simp add: store_message_def r_def)
  have match: "history_match req tgt r"
    using assms(6) by (auto simp: history_match_def r_def split: if_splits)
  have "r \<in> set ?m" using match msgs by simp
  then have inm: "r \<in># mset ?rows + mset (drop (clamp_limit lim) (desc ?m))"
    unfolding history_rows_mset [OF assms(1,2)] by simp
  have "r \<in> set ?rows"
  proof (rule ccontr)
    assume out: "r \<notin> set ?rows"
    with inm have cut: "r \<in> set (drop (clamp_limit lim) (desc ?m))" by simp
    have "length ?m \<noteq> 0" using \<open>r \<in> set ?m\<close> by (metis length_0_conv empty_iff list.set(1))
    then have "length ?rows \<noteq> 0"
      using history_rows_length [OF assms(1,2), of req tgt lim ?d] clamp_limit_bounds [of lim] by simp
    then obtain r' where r': "r' \<in> set ?rows" by (cases ?rows) auto
    have "r' \<in> set (messages ?d)" "r' \<noteq> r"
      using subsetD [OF history_rows_set [OF assms(1,2)] r'] r' out by auto
    then have "row_timestamp r' < ts" using msgs assms(3) by simp
    moreover have "ts \<le> row_timestamp r'"
      using history_rows_cut [OF assms(1,2) cut r'] by (simp add: r_def)
    ultimately show False by simp
  qed
  then have "row_json r \<in> set (get_history desc asc True req tgt lim ?d)"
    by (simp add: get_history_def)
  then show ?thesis
    by (rule bexI [rotated])
       (simp add: row_json_def json_value_object r_def c_str_id assms(4,5))
qed


theorem store_then_history_witness:
  "\<exists>j \<in> set (get_history stable_desc stable_asc True ''eve'' room 20
      (store_message True ''bob'' room ''hello'' 40 sample_database)).
     json_value j ''from'' [] = Inr ''bob'' \<and> json_value j ''content'' [] = Inr ''hello''"
proof -
  have "\<forall>r \<in> set (messages sample_database). row_timestamp r < 40"
    by (simp add: sample_database_def store_message_def empty_database_def)
  from store_then_history [OF order_by_stable_desc order_by_stable_asc this,
      of "''bob''" "''hello''" room room "''eve''" 20]
  show ?thesis by auto
qed

end
