(* ===== verification/RateLimit.thy ===== *)
theory RateLimit
  imports Prelude
begin

text \<open>
  The login rate limiter of \<open>server/src/message_router.cpp\<close>: \<open>is_rate_limited\<close>,
  \<open>record_failed_login\<close> and \<open>clear_login_attempts\<close>, each one critical section of
  \<open>rate_limit_mutex_\<close>. Times are readings of \<open>steady_clock\<close> in nanoseconds since its epoch;
  a default-constructed time point is the epoch, \<open>0\<close>.
\<close>

section \<open>Operations\<close>

record login_attempt =
  attempt_count :: int
  first_attempt :: int
  blocked_until :: int

type_synonym attempt_table = "(string \<times> login_attempt) list"

definition MAX_LOGIN_ATTEMPTS :: int where
  "MAX_LOGIN_ATTEMPTS = 5"

definition seconds :: "int \<Rightarrow> int" where
  "seconds n = n * 1000000000"

definition BLOCK_DURATION :: int where
  "BLOCK_DURATION = seconds 300"

definition new_attempt :: login_attempt where
  "new_attempt = \<lparr>attempt_count = 0, first_attempt = 0, blocked_until = 0\<rparr>"

definition is_rate_limited :: "string \<Rightarrow> int \<Rightarrow> attempt_table \<Rightarrow> bool \<times> attempt_table" where
  "is_rate_limited ip now t =
     (case map_of t ip of
        None \<Rightarrow> (False, t)
      | Some a \<Rightarrow>
          if now > blocked_until a then (False, alist_erase ip t)
          else (attempt_count a \<ge> MAX_LOGIN_ATTEMPTS, t))"

text \<open>One update of an entry by \<open>record_failed_login\<close>.\<close>

definition bump_attempt :: "int \<Rightarrow> login_attempt \<Rightarrow> login_attempt" where
  "bump_attempt now a0 =
     (let a1 = (if attempt_count a0 > 0 \<and> now - first_attempt a0 > seconds 60
                then a0\<lparr>attempt_count := 0\<rparr> else a0);
          a2 = (if attempt_count a1 = 0 then a1\<lparr>first_attempt := now\<rparr> else a1);
          a3 = a2\<lparr>attempt_count := attempt_count a2 + 1\<rparr>
      in if attempt_count a3 \<ge> MAX_LOGIN_ATTEMPTS
         then a3\<lparr>blocked_until := now + BLOCK_DURATION\<rparr> else a3)"

definition record_failed_login :: "string \<Rightarrow> int \<Rightarrow> attempt_table \<Rightarrow> attempt_table" where
  "record_failed_login ip now t =
     alist_put ip (bump_attempt now (case map_of t ip of None \<Rightarrow> new_attempt | Some a \<Rightarrow> a)) t"

definition clear_login_attempts :: "string \<Rightarrow> attempt_table \<Rightarrow> attempt_table" where
  "clear_login_attempts ip t = alist_erase ip t"

section \<open>Histories of login attempts\<close>

text \<open>
  A worker that handles a LOGIN first checks its address and then, later, records a failure or
  clears the address; other workers may act in between. Events carry the worker, the address and
  the clock reading.
\<close>

datatype rate_event = Check nat string int | Fail nat string int | Succeed nat string

fun rate_step :: "rate_event \<Rightarrow> attempt_table \<Rightarrow> bool \<times> attempt_table" where
  "rate_step (Check w ip now) t = is_rate_limited ip now t"
| "rate_step (Fail w ip now) t = (False, record_failed_login ip now t)"
| "rate_step (Succeed w ip) t = (False, clear_login_attempts ip t)"

fun rate_run :: "attempt_table \<Rightarrow> rate_event list \<Rightarrow> bool list \<times> attempt_table" where
  "rate_run t [] = ([], t)"
| "rate_run t (e # es) =
     (let (b, t') = rate_step e t; (bs, t'') = rate_run t' es in (b # bs, t''))"

text \<open>
  The discipline of \<open>handle_login\<close> on \<open>n\<close> workers: \<open>busy w\<close> is the address worker \<open>w\<close> has
  checked and not yet settled; only such a worker records or clears, and clock readings are
  positive.
\<close>

fun login_discipline :: "nat \<Rightarrow> (nat \<Rightarrow> string option) \<Rightarrow> rate_event list \<Rightarrow> bool" where
  "login_discipline n busy [] = True"
| "login_discipline n busy (Check w ip now # es) =
     (w < n \<and> 0 < now \<and> login_discipline n (busy(w := Some ip)) es)"
| "login_discipline n busy (Fail w ip now # es) =
     (w < n \<and> busy w = Some ip \<and> login_discipline n (busy(w := None)) es)"
| "login_discipline n busy (Succeed w ip # es) =
     (w < n \<and> busy w = Some ip \<and> login_discipline n (busy(w := None)) es)"

section \<open>Lemmas\<close>

text \<open>At most \<open>c\<close> failures since the last check of the address, and no block.\<close>

definition unblocked :: "string \<Rightarrow> int \<Rightarrow> attempt_table \<Rightarrow> bool" where
  "unblocked ip c t \<longleftrightarrow> 0 \<le> c \<and>
     (\<forall>a. map_of t ip = Some a \<longrightarrow> blocked_until a = 0 \<and> 0 \<le> attempt_count a \<and> attempt_count a \<le> c)"

lemma unblocked_check:
  "unblocked ip c t \<Longrightarrow> 0 < now \<Longrightarrow> c < 5 \<Longrightarrow>
   \<not> fst (is_rate_limited ip' now t) \<or> ip' \<noteq> ip"
  by (auto simp: unblocked_def is_rate_limited_def split: option.splits)

lemma unblocked_after_check:
  "unblocked ip c t \<Longrightarrow> 0 < now \<Longrightarrow>
   unblocked ip (if ip' = ip then 0 else c) (snd (is_rate_limited ip' now t))"
  by (auto simp: unblocked_def is_rate_limited_def split: option.splits)

lemma unblocked_after_fail:
  "unblocked ip c t \<Longrightarrow> c < 4 \<or> ip' \<noteq> ip \<Longrightarrow>
   unblocked ip (if ip' = ip then c + 1 else c) (record_failed_login ip' now t)"
  by (auto simp: unblocked_def record_failed_login_def bump_attempt_def new_attempt_def
      MAX_LOGIN_ATTEMPTS_def Let_def split: option.splits)

lemma unblocked_after_clear: "unblocked ip c t \<Longrightarrow> unblocked ip c (clear_login_attempts ip' t)"
  by (auto simp: unblocked_def clear_login_attempts_def)

text \<open>The workers that have checked an address and not settled it.\<close>

definition busy_on :: "nat \<Rightarrow> (nat \<Rightarrow> string option) \<Rightarrow> string \<Rightarrow> nat set" where
  "busy_on n busy ip = {w. w < n \<and> busy w = Some ip}"

lemma busy_on_finite [simp]: "finite (busy_on n busy ip)"
  by (simp add: busy_on_def)

lemma busy_on_card: "card (busy_on n busy ip) \<le> n"
  using card_mono [of "{..<n}" "busy_on n busy ip"] by (auto simp: busy_on_def)

lemma busy_on_None: "busy_on n (busy(w := None)) ip = busy_on n busy ip - {w}"
  by (auto simp: busy_on_def)

lemma busy_on_Some_other: "ip' \<noteq> ip \<Longrightarrow> busy_on n (busy(w := Some ip')) ip \<subseteq> busy_on n busy ip"
  by (auto simp: busy_on_def)

lemma rate_run_unblocked:
  "login_discipline n busy es \<Longrightarrow> n \<le> 4 \<Longrightarrow> unblocked ip c t \<Longrightarrow>
   c + int (card (busy_on n busy ip)) \<le> int n \<Longrightarrow>
   e \<in> set (zip es (fst (rate_run t es))) \<Longrightarrow> \<not> (\<exists>w now. e = (Check w ip now, True))"
proof (induction n busy es arbitrary: t c rule: login_discipline.induct)
  case (1 n busy)
  then show ?case by simp
next
  case (2 n busy w ip' now es)
  let ?t' = "snd (is_rate_limited ip' now t)"
  have "\<not> fst (is_rate_limited ip' now t) \<or> ip' \<noteq> ip"
    using 2 by (intro unblocked_check) auto
  moreover have "\<not> (\<exists>w now. e = (Check w ip now, True))" if "e \<in> set (zip es (fst (rate_run ?t' es)))"
  proof (rule "2.IH" [OF _ _ _ _ that])
    show "unblocked ip (if ip' = ip then 0 else c) ?t'"
      using 2 by (intro unblocked_after_check) auto
    show "(if ip' = ip then 0 else c) + int (card (busy_on n (busy(w := Some ip')) ip)) \<le> int n"
      using "2.prems"(4) busy_on_card [of n "busy(w := Some ip')" ip]
        card_mono [OF busy_on_finite busy_on_Some_other, of ip' ip n busy w] by auto
  qed (use "2.prems" in \<open>simp_all add: fun_upd_def\<close>)
  ultimately show ?case
    using "2.prems"(5) by (auto split: prod.splits)
next
  case (3 n busy w ip' now es)
  from "3.prems"(1) have w: "w < n" "busy w = Some ip'" by auto
  have "\<not> (\<exists>w now. e = (Check w ip now, True))"
    if "e \<in> set (zip es (fst (rate_run (record_failed_login ip' now t) es)))"
  proof (rule "3.IH" [OF _ _ _ _ that])
    have pos: "0 < card (busy_on n busy ip)" if "ip' = ip"
      using w that by (auto simp: card_gt_0_iff busy_on_def)
    then show "unblocked ip (if ip' = ip then c + 1 else c) (record_failed_login ip' now t)"
      using "3.prems" by (intro unblocked_after_fail) auto
    show "(if ip' = ip then c + 1 else c) + int (card (busy_on n (busy(w := None)) ip)) \<le> int n"
    proof -
      have "w \<in> busy_on n busy ip \<longleftrightarrow> ip' = ip" using w by (auto simp: busy_on_def)
      then show ?thesis
        using "3.prems"(4) pos unfolding busy_on_None by (auto simp: card_Diff_singleton_if)
    qed
  qed (use "3.prems" in \<open>simp_all add: fun_upd_def\<close>)
  then show ?case using "3.prems"(5) by (auto split: prod.splits)
next
  case (4 n busy w ip' es)
  have "\<not> (\<exists>w now. e = (Check w ip now, True))"
    if "e \<in> set (zip es (fst (rate_run (clear_login_attempts ip' t) es)))"
  proof (rule "4.IH" [OF _ _ _ _ that])
    show "unblocked ip c (clear_login_attempts ip' t)"
      by (rule unblocked_after_clear) (rule "4.prems")
    show "c + int (card (busy_on n (busy(w := None)) ip)) \<le> int n"
      using "4.prems"(4) card_Diff1_le [of "busy_on n busy ip" w] by (simp add: busy_on_None)
  qed (use "4.prems" in \<open>simp_all add: fun_upd_def\<close>)
  then show ?case using "4.prems"(5) by (auto split: prod.splits)
qed


section \<open>Properties\<close>

text \<open>
  C33. With up to four workers (the default of \<open>server/main.cpp\<close>) the limiter never blocks
  anyone: however the checks, failures and successes of the workers' logins interleave, and
  however many logins fail, no check of any address comes out positive. The check that precedes
  every login forgets an address that is not blocked yet, so the count of failures starts again
  and never reaches five.
\<close>

theorem rate_limit_never_blocks:
  assumes "login_discipline n (\<lambda>_. None) es" and "n \<le> 4"
  shows "(Check w ip now, True) \<notin> set (zip es (fst (rate_run [] es)))"
proof
  assume "(Check w ip now, True) \<in> set (zip es (fst (rate_run [] es)))"
  moreover have "unblocked ip 0 []" by (simp add: unblocked_def)
  moreover have "busy_on n (\<lambda>_. None) ip = {}" by (simp add: busy_on_def)
  ultimately show False
    using rate_run_unblocked [OF assms, of ip 0 "[]" "(Check w ip now, True)"] by auto
qed

definition six_failures :: "rate_event list" where
  "six_failures =
     concat (map (\<lambda>k. [Check 0 ''10.0.0.1'' (2 * k + 1), Fail 0 ''10.0.0.1'' (2 * k + 2)]) [0, 1, 2, 3, 4, 5])"

theorem rate_limit_never_blocks_witness:
  "login_discipline 1 (\<lambda>_. None) (six_failures @ [Check 0 ''10.0.0.1'' 99]) \<and>
   (Check 0 ''10.0.0.1'' 99, True) \<notin>
     set (zip (six_failures @ [Check 0 ''10.0.0.1'' 99])
           (fst (rate_run [] (six_failures @ [Check 0 ''10.0.0.1'' 99]))))"
proof -
  have "login_discipline 1 (\<lambda>_. None) (six_failures @ [Check 0 ''10.0.0.1'' 99])"
    by (simp add: six_failures_def)
  with rate_limit_never_blocks [OF this] show ?thesis by simp
qed

text \<open>
  Where five failures of one address are recorded with no check in between, the first and
  the last at most a minute apart, the address is blocked at every later time up to five minutes
  after the last failure, and free (and forgotten) after that.
\<close>

theorem rate_limit_blocks_burst:
  assumes "n1 \<le> n2" and "n2 \<le> n3" and "n3 \<le> n4" and "n4 \<le> n5" and "n5 - n1 \<le> seconds 60"
  shows "is_rate_limited ip now (fold (record_failed_login ip) [n1, n2, n3, n4, n5] []) =
    (if now \<le> n5 + seconds 300
     then (True, fold (record_failed_login ip) [n1, n2, n3, n4, n5] []) else (False, []))"
  using assms
  by (simp add: is_rate_limited_def record_failed_login_def bump_attempt_def new_attempt_def
      alist_erase_def MAX_LOGIN_ATTEMPTS_def BLOCK_DURATION_def Let_def)

theorem rate_limit_blocks_burst_witness:
  "fst (is_rate_limited ''10.0.0.1'' 100
     (fold (record_failed_login ''10.0.0.1'') [1, 2, 3, 4, 5] []))"
  using rate_limit_blocks_burst [of 1 2 3 4 5 "''10.0.0.1''" 100] by (simp add: seconds_def)

end
