(* ===== verification/Auth.thy ===== *)
theory Auth
  imports Prelude
begin

text \<open>
  Password hashing in \<open>server/src/message_router.cpp\<close>: \<open>sha256_hex\<close>, \<open>generate_salt\<close>,
  \<open>hash_password\<close> and \<open>verify_password\<close>. OpenSSL is a parameter: \<open>digest\<close> is the EVP SHA-256
  computation (no value when a call of it fails), \<open>rand\<close> the bytes \<open>RAND_bytes\<close> delivers for
  one call (no value when it fails).
\<close>

section \<open>Hexadecimal output\<close>

text \<open>\<open>std::hex << std::setw(2) << std::setfill('0')\<close> of a byte.\<close>

definition hex_digit :: "nat \<Rightarrow> char" where
  "hex_digit n = (if n < 10 then char_of (48 + n) else char_of (87 + n))"

definition hex_byte :: "byte \<Rightarrow> string" where
  "hex_byte b = [hex_digit (unat b div 16), hex_digit (unat b mod 16)]"

definition hex_bytes :: "bytes \<Rightarrow> string" where
  "hex_bytes bs = concat (map hex_byte bs)"

section \<open>Operations\<close>

definition sha256_hex :: "(string \<Rightarrow> bytes option) \<Rightarrow> string \<Rightarrow> string" where
  "sha256_hex digest input = (case digest input of None \<Rightarrow> [] | Some h \<Rightarrow> hex_bytes h)"

definition rand_failure :: cpp_exception where
  "rand_failure = RuntimeError (''FATAL: RAND_bytes failed '' @ utf8 [226, 128, 148] @
     '' cannot generate cryptographic salt'')"

definition generate_salt :: "bytes option \<Rightarrow> cpp_exception + string" where
  "generate_salt rand = (case rand of None \<Rightarrow> Inl rand_failure | Some bs \<Rightarrow> Inr (hex_bytes bs))"

definition hash_password :: "(string \<Rightarrow> bytes option) \<Rightarrow> bytes option \<Rightarrow> string \<Rightarrow> cpp_exception + string" where
  "hash_password digest rand password =
     (case generate_salt rand of
        Inl e \<Rightarrow> Inl e
      | Inr salt \<Rightarrow> Inr (salt @ '':'' @ sha256_hex digest (salt @ '':'' @ password)))"

text \<open>
  \<open>find(':')\<close> is the length of the part before the first colon; there is none when that part is
  the whole string. The constant-time comparison returns equality.
\<close>

definition verify_password :: "(string \<Rightarrow> bytes option) \<Rightarrow> string \<Rightarrow> string \<Rightarrow> bool" where
  "verify_password digest password stored =
     (let colon_pos = length (takeWhile (\<lambda>c. c \<noteq> CHR '':'') stored) in
      if colon_pos = length stored \<or> colon_pos + 1 \<ge> length stored then
        (let computed = sha256_hex digest password in
         if length computed \<noteq> length stored then False else computed = stored)
      else
        (let salt = take colon_pos stored;
             expected_hash = drop (colon_pos + 1) stored;
             computed = sha256_hex digest (salt @ '':'' @ password)
         in if length computed \<noteq> length expected_hash then False else computed = expected_hash))"

section \<open>Lemmas\<close>

lemma of_char_hex_digit: "n < 16 \<Longrightarrow> of_char (hex_digit n) = (if n < 10 then 48 + n else 87 + n :: nat)"
  by (simp add: hex_digit_def)

lemma hex_digit_range: "n < 16 \<Longrightarrow> 48 \<le> (of_char (hex_digit n) :: nat) \<and> of_char (hex_digit n) \<noteq> (58 :: nat)"
  by (simp add: of_char_hex_digit)

lemma hex_bytes_chars:
  assumes "c \<in> set (hex_bytes bs)"
  shows "\<exists>n < 16. c = hex_digit n"
proof -
  from assms obtain b where "c \<in> set (hex_byte b)" by (auto simp: hex_bytes_def)
  then have "c = hex_digit (unat b div 16) \<or> c = hex_digit (unat b mod 16)"
    by (simp add: hex_byte_def)
  moreover have "unat b div 16 < 16" using unat_byte_lt [of b] by simp
  moreover have "unat b mod 16 < 16" by simp
  ultimately show ?thesis by blast
qed

lemma hex_bytes_no_colon: "CHR '':'' \<notin> set (hex_bytes bs)"
proof
  assume "CHR '':'' \<in> set (hex_bytes bs)"
  then obtain n where "n < 16" "CHR '':'' = hex_digit n" by (blast dest: hex_bytes_chars)
  then have "(of_char (CHR '':'') :: nat) \<noteq> 58" using hex_digit_range by metis
  then show False by simp
qed

lemma hex_bytes_no_nul: "CHR 0x00 \<notin> set (hex_bytes bs)"
proof
  assume "CHR 0x00 \<in> set (hex_bytes bs)"
  then obtain n where "n < 16" "CHR 0x00 = hex_digit n" by (blast dest: hex_bytes_chars)
  then have "48 \<le> (of_char (CHR 0x00) :: nat)" using hex_digit_range by metis
  then show False by simp
qed

lemma sha256_hex_no_nul: "CHR 0x00 \<notin> set (sha256_hex digest s)"
  using hex_bytes_no_nul by (simp add: sha256_hex_def split: option.split)

lemma hash_password_no_nul: "hash_password digest rand p = Inr h \<Longrightarrow> CHR 0x00 \<notin> set h"
  using hex_bytes_no_nul sha256_hex_no_nul
  by (auto simp: hash_password_def generate_salt_def split: option.splits)

lemma hash_password_nonempty: "hash_password digest rand p = Inr h \<Longrightarrow> h \<noteq> []"
  by (auto simp: hash_password_def split: sum.splits)

lemma takeWhile_colon: "CHR '':'' \<notin> set salt \<Longrightarrow> takeWhile (\<lambda>c. c \<noteq> CHR '':'') (salt @ '':'' @ rest) = salt"
  by (induction salt) auto

lemma verify_salted:
  assumes "CHR '':'' \<notin> set salt" and "hash \<noteq> []"
  shows "verify_password digest p (salt @ '':'' @ hash) \<longleftrightarrow> sha256_hex digest (salt @ '':'' @ p) = hash"
proof -
  have "length (salt @ '':'' @ hash) = length salt + 1 + length hash" by simp
  with assms show ?thesis
    by (auto simp: verify_password_def Let_def takeWhile_colon [OF assms(1), simplified])
qed

section \<open>Properties\<close>

text \<open>
  Stored hashes verify exactly the right passwords: for a hash made by \<open>hash_password\<close> with
  the random bytes \<open>rb\<close>, whose digest computation succeeded, \<open>verify_password\<close> accepts a
  password if and only if its salted digest equals that of the original one; in particular the
  original password is always accepted.
\<close>

theorem verify_hash_iff:
  assumes "hash_password digest (Some rb) p = Inr h"
    and "sha256_hex digest (hex_bytes rb @ '':'' @ p) \<noteq> []"
  shows "(verify_password digest p' h \<longleftrightarrow>
      sha256_hex digest (hex_bytes rb @ '':'' @ p') = sha256_hex digest (hex_bytes rb @ '':'' @ p)) \<and>
    verify_password digest p h"
proof -
  from assms(1) have "h = hex_bytes rb @ '':'' @ sha256_hex digest (hex_bytes rb @ '':'' @ p)"
    by (auto simp: hash_password_def generate_salt_def)
  then show ?thesis using verify_salted [OF hex_bytes_no_colon assms(2)] by simp
qed

theorem verify_hash_iff_witness:
  "\<exists>h. hash_password (\<lambda>s. Some (string_bytes s)) (Some [10, 255]) ''pw'' = Inr h \<and>
     verify_password (\<lambda>s. Some (string_bytes s)) ''pw'' h"
proof -
  let ?d = "\<lambda>s. Some (string_bytes s)"
  let ?h = "hex_bytes [10, 255] @ '':'' @ sha256_hex ?d (hex_bytes [10, 255] @ '':'' @ ''pw'')"
  have h: "hash_password ?d (Some [10, 255]) ''pw'' = Inr ?h"
    by (simp add: hash_password_def generate_salt_def)
  have "sha256_hex ?d (hex_bytes [10, 255] @ '':'' @ ''pw'') \<noteq> []"
    by (simp add: sha256_hex_def hex_bytes_def hex_byte_def string_bytes_def)
  from verify_hash_iff [OF h this] h show ?thesis by blast
qed

end
