(* ===== verification/Texts.thy ===== *)
theory Texts
  imports Prelude
begin

text \<open>
  The user-visible texts of \<open>server/src/message_router.cpp\<close>, as the UTF-8 bytes of the string
  literals. They only appear in outgoing messages; no decision depends on them.
\<close>

definition txt_missing_credentials :: string where
  "txt_missing_credentials = utf8
    [231, 188, 186, 229, 176, 145, 231, 148, 168, 230, 136, 183, 229, 144, 141, 230,
     136, 150, 229, 175, 134, 231, 160, 129]"

definition txt_username_too_long :: string where
  "txt_username_too_long = utf8
    [231, 148, 168, 230, 136, 183, 229, 144, 141, 232, 191, 135, 233, 149, 191, 239,
     188, 136, 230, 156, 128, 229, 164, 154, 51, 50, 229, 173, 151, 231, 172, 166,
     239, 188, 137]"

definition txt_password_too_long :: string where
  "txt_password_too_long = utf8
    [229, 175, 134, 231, 160, 129, 232, 191, 135, 233, 149, 191, 239, 188, 136, 230,
     156, 128, 229, 164, 154, 49, 50, 56, 229, 173, 151, 231, 172, 166, 239, 188, 137]"

definition txt_registering :: string where
  "txt_registering = utf8
    [232, 175, 165, 232, 180, 166, 229, 143, 183, 230, 173, 163, 229, 156, 168, 230,
     179, 168, 229, 134, 140, 228, 184, 173]"

definition txt_user_exists :: string where
  "txt_user_exists = utf8
    [231, 148, 168, 230, 136, 183, 229, 144, 141, 229, 183, 178, 229, 173, 152, 229,
     156, 168]"

definition txt_rate_limited :: string where
  "txt_rate_limited = utf8
    [231, 153, 187, 229, 189, 149, 229, 176, 157, 232, 175, 149, 232, 191, 135, 229,
     164, 154, 239, 188, 140, 232, 175, 183, 231, 168, 141, 229, 144, 142, 229, 134,
     141, 232, 175, 149]"

definition txt_logging_in :: string where
  "txt_logging_in = utf8
    [232, 175, 165, 232, 180, 166, 229, 143, 183, 230, 173, 163, 229, 156, 168, 231,
     153, 187, 229, 189, 149, 228, 184, 173]"

definition txt_already_logged_in :: string where
  "txt_already_logged_in = utf8
    [232, 175, 165, 232, 180, 166, 229, 143, 183, 229, 183, 178, 229, 156, 168, 229,
     133, 182, 228, 187, 150, 229, 156, 176, 230, 150, 185, 231, 153, 187, 229, 189,
     149]"

definition txt_wrong_password :: string where
  "txt_wrong_password = utf8
    [229, 175, 134, 231, 160, 129, 233, 148, 153, 232, 175, 175]"

definition txt_empty_message :: string where
  "txt_empty_message = utf8
    [230, 182, 136, 230, 129, 175, 229, 134, 133, 229, 174, 185, 228, 184, 141, 232,
     131, 189, 228, 184, 186, 231, 169, 186]"

definition txt_message_too_long :: string where
  "txt_message_too_long = utf8
    [230, 182, 136, 230, 129, 175, 229, 134, 133, 229, 174, 185, 232, 191, 135, 233,
     149, 191, 239, 188, 136, 230, 156, 128, 229, 164, 154, 52, 48, 57, 54, 229, 173,
     151, 231, 172, 166, 239, 188, 137]"

definition txt_missing_target :: string where
  "txt_missing_target = utf8
    [231, 188, 186, 229, 176, 145, 230, 142, 165, 230, 148, 182, 230, 150, 185, 230,
     136, 150, 230, 182, 136, 230, 129, 175, 229, 134, 133, 229, 174, 185]"

definition txt_target_offline :: string where
  "txt_target_offline = utf8
    [231, 155, 174, 230, 160, 135, 231, 148, 168, 230, 136, 183, 228, 184, 141, 229,
     156, 168, 231, 186, 191]"

definition txt_login_first :: string where
  "txt_login_first = utf8
    [232, 175, 183, 229, 133, 136, 231, 153, 187, 229, 189, 149, 230, 136, 150, 230,
     179, 168, 229, 134, 140]"

definition txt_unknown_type :: string where
  "txt_unknown_type = utf8
    [230, 156, 170, 231, 159, 165, 230, 182, 136, 230, 129, 175, 231, 177, 187, 229,
     158, 139, 58, 32]"

definition txt_joined :: string where
  "txt_joined = utf8
    [32, 229, 138, 160, 229, 133, 165, 228, 186, 134, 232, 129, 138, 229, 164, 169,
     229, 174, 164]"

definition txt_left :: string where
  "txt_left = utf8
    [32, 231, 166, 187, 229, 188, 128, 228, 186, 134, 232, 129, 138, 229, 164, 169,
     229, 174, 164]"

end
