(* ===== verification/MessageRouter.thy ===== *)
theory MessageRouter
  imports EpollServer Database RateLimit Auth Texts
begin

text \<open>
  \<open>server/src/message_router.cpp\<close>: the dispatcher \<open>route\<close> and the handlers, on the state of the
  router (\<open>router\<close>), the session table (\<open>EpollServer\<close>) and the database (\<open>Database\<close>). A handler
  runs from its call to its return; it yields the exception that leaves it, if any, and the state
  it leaves, also when it throws.

  Third-party functions are the fields of \<open>platform\<close>; what the environment answers during one
  call (clock readings, random bytes, results of SQLite steps) are the fields of \<open>call_env\<close>: the
  \<open>n\<close>-th reading of \<open>std::time\<close> is \<open>clock n\<close>, of \<open>steady_clock\<close> \<open>steady n\<close>. The default argument
  of \<open>value(key, default)\<close> and the C++ evaluation order are those of the source.
\<close>

section \<open>State\<close>

record router =
  online_users :: "string list"
  login_in_progress :: "string list"
  login_attempts :: attempt_table
  server_set :: bool

record world =
  w_router :: router
  w_server :: server
  w_db :: database

record platform =
  pf_digest :: "string \<Rightarrow> bytes option"
  pf_desc :: "message_row list \<Rightarrow> message_row list"
  pf_asc :: "message_row list \<Rightarrow> message_row list"
  pf_set_order :: "string list \<Rightarrow> string list"
  pf_table_order :: table_order

record call_env =
  clock :: "nat \<Rightarrow> int"
  steady :: "nat \<Rightarrow> int"
  rand :: "bytes option"
  step_done :: bool
  prep_ok :: bool

definition MAX_USERNAME_LEN :: nat where "MAX_USERNAME_LEN = 32"

definition MAX_PASSWORD_LEN :: nat where "MAX_PASSWORD_LEN = 128"

definition MAX_MESSAGE_LEN :: nat where "MAX_MESSAGE_LEN = 4096"

definition new_router :: router where
  "new_router = \<lparr>online_users = [], login_in_progress = [], login_attempts = [], server_set = False\<rparr>"

definition set_server :: "router \<Rightarrow> router" where
  "set_server r = r\<lparr>server_set := True\<rparr>"

abbreviation session_of :: "world \<Rightarrow> sid \<Rightarrow> client_session" where
  "session_of w i \<equiv> heap (w_server w) i"

definition on_server :: "(server \<Rightarrow> server) \<Rightarrow> world \<Rightarrow> world" where
  "on_server f w = w\<lparr>w_server := f (w_server w)\<rparr>"

definition on_router :: "(router \<Rightarrow> router) \<Rightarrow> world \<Rightarrow> world" where
  "on_router f w = w\<lparr>w_router := f (w_router w)\<rparr>"

lemma on_simps [simp]:
  "w_server (on_server f w) = f (w_server w)"
  "w_router (on_server f w) = w_router w"
  "w_db (on_server f w) = w_db w"
  "w_server (on_router g w) = w_server w"
  "w_router (on_router g w) = g (w_router w)"
  "w_db (on_router g w) = w_db w"
  by (simp_all add: on_server_def on_router_def)

section \<open>Sending from a handler\<close>

text \<open>\<open>Protocol::send_error\<close> and \<open>send_ok\<close> write to the session's descriptor directly.\<close>

definition send_error :: "sid \<Rightarrow> string \<Rightarrow> string \<Rightarrow> world \<Rightarrow> world" where
  "send_error i code content w =
     on_server (emit (cs_fd (session_of w i)) (error_msg code content)) w"

definition send_ok :: "sid \<Rightarrow> string \<Rightarrow> string \<Rightarrow> world \<Rightarrow> world" where
  "send_ok i type from w = on_server (emit (cs_fd (session_of w i)) (ok_msg type from)) w"

definition server_broadcast :: "platform \<Rightarrow> json \<Rightarrow> string \<Rightarrow> world \<Rightarrow> world" where
  "server_broadcast pf msg exclude w =
     (if server_set (w_router w) then on_server (broadcast (pf_table_order pf) msg exclude) w else w)"

definition server_send :: "fd \<Rightarrow> json \<Rightarrow> world \<Rightarrow> world" where
  "server_send f msg w =
     (if server_set (w_router w) then on_server (send_to_fd f msg) w else w)"

definition server_find :: "platform \<Rightarrow> string \<Rightarrow> world \<Rightarrow> sid option" where
  "server_find pf name w =
     (if server_set (w_router w) then find_session (pf_table_order pf) name (w_server w) else None)"

section \<open>Helpers\<close>

definition history_resp :: "string \<Rightarrow> json list \<Rightarrow> json" where
  "history_resp to rows = json_object
     [(''type'', JString ''HISTORY_RESP''), (''to'', JString to), (''data'', JArray rows)]"

definition push_history :: "platform \<Rightarrow> call_env \<Rightarrow> fd \<Rightarrow> string \<Rightarrow> world \<Rightarrow> world" where
  "push_history pf env f name w =
     server_send f
       (history_resp room (get_history (pf_desc pf) (pf_asc pf) (prep_ok env) name room 20 (w_db w))) w"

definition make_user_list_msg :: "platform \<Rightarrow> int \<Rightarrow> router \<Rightarrow> json" where
  "make_user_list_msg pf now r = json_object
     [(''type'', JString ''USER_LIST''),
      (''data'', JArray (map JString (pf_set_order pf (online_users r)))),
      (''timestamp'', JInt now)]"

definition broadcast_user_list :: "platform \<Rightarrow> int \<Rightarrow> world \<Rightarrow> world" where
  "broadcast_user_list pf now w =
     (if \<not> server_set (w_router w) then w
      else server_broadcast pf (make_user_list_msg pf now (w_router w)) [] w)"

definition is_user_online :: "string \<Rightarrow> router \<Rightarrow> bool" where
  "is_user_online name r \<longleftrightarrow> name \<in> set (online_users r)"

definition reserve :: "string \<Rightarrow> router \<Rightarrow> router" where
  "reserve name r = r\<lparr>login_in_progress := set_insert name (login_in_progress r)\<rparr>"

definition release :: "string \<Rightarrow> router \<Rightarrow> router" where
  "release name r = r\<lparr>login_in_progress := set_erase name (login_in_progress r)\<rparr>"

definition cleanup_login_reservation :: "string \<Rightarrow> router \<Rightarrow> router" where
  "cleanup_login_reservation name r = (if name = [] then r else release name r)"

definition notify_msg :: "string \<Rightarrow> int \<Rightarrow> json" where
  "notify_msg content now = json_object
     [(''type'', JString ''NOTIFY''), (''content'', JString content), (''timestamp'', JInt now)]"

definition finish_login :: "platform \<Rightarrow> call_env \<Rightarrow> sid \<Rightarrow> string \<Rightarrow> world \<Rightarrow> world" where
  "finish_login pf env i name w =
     (let w1 = on_server (upd_session (set_username name) i) w;
          w2 = on_router (\<lambda>r. r\<lparr>online_users := set_insert name (online_users r)\<rparr>) w1;
          w3 = send_ok i ''LOGIN_OK'' name w2;
          w4 = push_history pf env (cs_fd (session_of w3 i)) name w3;
          w5 = broadcast_user_list pf (clock env 0) w4
      in server_broadcast pf (notify_msg (name @ txt_joined) (clock env 1)) name w5)"

section \<open>Handlers\<close>

type_synonym handler = "sid \<Rightarrow> json \<Rightarrow> world \<Rightarrow> cpp_exception option \<times> world"

definition handle_register :: "platform \<Rightarrow> call_env \<Rightarrow> handler" where
  "handle_register pf env i msg w =
    (case json_value msg ''from'' [] of Inl e \<Rightarrow> (Some e, w) | Inr name \<Rightarrow>
     case json_value msg ''content'' [] of Inl e \<Rightarrow> (Some e, w) | Inr password \<Rightarrow>
      if name = [] \<or> password = []
      then (None, send_error i ''INVALID_MSG'' txt_missing_credentials w)
      else if length name > MAX_USERNAME_LEN
      then (None, send_error i ''INVALID_MSG'' txt_username_too_long w)
      else if length password > MAX_PASSWORD_LEN
      then (None, send_error i ''INVALID_MSG'' txt_password_too_long w)
      else if name \<in> set (login_in_progress (w_router w))
      then (None, send_error i ''ALREADY_LOGGED_IN'' txt_registering w)
      else
        (let w1 = on_router (reserve name) w;
             w2 = on_server (upd_session (set_pending_login name) i) w1
         in case hash_password (pf_digest pf) (rand env) password of
              Inl e \<Rightarrow> (Some e, w2)
            | Inr hash \<Rightarrow>
               (case register_user (step_done env) name hash (w_db w2) of
                  (False, d) \<Rightarrow>
                    (let w3 = on_router (release name) (w2\<lparr>w_db := d\<rparr>);
                         w4 = on_server (upd_session clear_pending_login i) w3
                     in (None, send_error i ''USER_EXISTS'' txt_user_exists w4))
                | (True, d) \<Rightarrow>
                    (let w3 = finish_login pf env i name (w2\<lparr>w_db := d\<rparr>);
                         w4 = on_server (upd_session clear_pending_login i) w3
                     in (None, on_router (release name) w4)))))"

text \<open>The rate-limit check of \<open>handle_login\<close>, skipped for a session without an address.\<close>

definition check_rate :: "call_env \<Rightarrow> sid \<Rightarrow> world \<Rightarrow> bool \<times> world" where
  "check_rate env i w =
     (let ip = ip_address (session_of w i) in
      if ip = [] then (False, w)
      else (case is_rate_limited ip (steady env 0) (login_attempts (w_router w)) of
              (b, t) \<Rightarrow> (b, on_router (\<lambda>r. r\<lparr>login_attempts := t\<rparr>) w)))"

definition on_attempts :: "(string \<Rightarrow> attempt_table \<Rightarrow> attempt_table) \<Rightarrow> sid \<Rightarrow> world \<Rightarrow> world" where
  "on_attempts f i w =
     (let ip = ip_address (session_of w i) in
      if ip = [] then w
      else on_router (\<lambda>r. r\<lparr>login_attempts := f ip (login_attempts r)\<rparr>) w)"

definition handle_login :: "platform \<Rightarrow> call_env \<Rightarrow> handler" where
  "handle_login pf env i msg w =
    (case json_value msg ''from'' [] of Inl e \<Rightarrow> (Some e, w) | Inr name \<Rightarrow>
     case json_value msg ''content'' [] of Inl e \<Rightarrow> (Some e, w) | Inr password \<Rightarrow>
      if name = [] \<or> password = []
      then (None, send_error i ''INVALID_MSG'' txt_missing_credentials w)
      else if length name > MAX_USERNAME_LEN
      then (None, send_error i ''INVALID_MSG'' txt_username_too_long w)
      else if length password > MAX_PASSWORD_LEN
      then (None, send_error i ''INVALID_MSG'' txt_password_too_long w)
      else
        (case check_rate env i w of (limited, w0) \<Rightarrow>
         if limited then (None, send_error i ''RATE_LIMITED'' txt_rate_limited w0)
         else if name \<in> set (login_in_progress (w_router w0))
         then (None, send_error i ''ALREADY_LOGGED_IN'' txt_logging_in w0)
         else if server_find pf name w0 \<noteq> None
         then (None, send_error i ''ALREADY_LOGGED_IN'' txt_already_logged_in w0)
         else
           (let w1 = on_router (reserve name) w0;
                w2 = on_server (upd_session (set_pending_login name) i) w1;
                stored_hash = get_stored_hash (prep_ok env) name (w_db w2)
            in if stored_hash = [] \<or> \<not> verify_password (pf_digest pf) password stored_hash
               then
                 (let w3 = on_attempts (\<lambda>ip. record_failed_login ip (steady env 1)) i w2;
                      w4 = on_router (release name) w3;
                      w5 = on_server (upd_session clear_pending_login i) w4
                  in (None, send_error i ''WRONG_PASSWORD'' txt_wrong_password w5))
               else
                 (let w3 = on_attempts clear_login_attempts i w2;
                      w4 = finish_login pf env i name w3;
                      w5 = on_server (upd_session clear_pending_login i) w4
                  in (None, on_router (release name) w5)))))"

definition handle_logout :: "platform \<Rightarrow> call_env \<Rightarrow> sid \<Rightarrow> world \<Rightarrow> world" where
  "handle_logout pf env i w =
     (if \<not> is_authenticated (session_of w i) then w
      else
        (let name = get_username (session_of w i);
             w1 = on_router (\<lambda>r. r\<lparr>online_users := set_erase name (online_users r)\<rparr>) w;
             w2 = on_server (upd_session clear_username i) w1;
             w3 = broadcast_user_list pf (clock env 0) w2
         in server_broadcast pf (notify_msg (name @ txt_left) (clock env 1)) [] w3))"

definition broadcast_msg :: "string \<Rightarrow> string \<Rightarrow> int \<Rightarrow> json" where
  "broadcast_msg sender content ts = json_object
     [(''type'', JString ''BROADCAST''), (''from'', JString sender),
      (''content'', JString content), (''timestamp'', JInt ts)]"

definition handle_broadcast :: "platform \<Rightarrow> call_env \<Rightarrow> handler" where
  "handle_broadcast pf env i msg w =
    (case json_value msg ''content'' [] of Inl e \<Rightarrow> (Some e, w) | Inr content \<Rightarrow>
      if content = [] then (None, send_error i ''INVALID_MSG'' txt_empty_message w)
      else if length content > MAX_MESSAGE_LEN
      then (None, send_error i ''INVALID_MSG'' txt_message_too_long w)
      else
        (let ts = clock env 0;
             sender = get_username (session_of w i);
             w1 = w\<lparr>w_db := store_message (step_done env) sender room content ts (w_db w)\<rparr>
         in (None, server_broadcast pf (broadcast_msg sender content ts) [] w1)))"

definition private_msg :: "string \<Rightarrow> string \<Rightarrow> string \<Rightarrow> int \<Rightarrow> json" where
  "private_msg sender to content ts = json_object
     [(''type'', JString ''PRIVATE''), (''from'', JString sender), (''to'', JString to),
      (''content'', JString content), (''timestamp'', JInt ts)]"

definition handle_private :: "platform \<Rightarrow> call_env \<Rightarrow> handler" where
  "handle_private pf env i msg w =
    (case json_value msg ''to'' [] of Inl e \<Rightarrow> (Some e, w) | Inr to \<Rightarrow>
     case json_value msg ''content'' [] of Inl e \<Rightarrow> (Some e, w) | Inr content \<Rightarrow>
      if to = [] \<or> content = []
      then (None, send_error i ''INVALID_MSG'' txt_missing_target w)
      else if length to > MAX_USERNAME_LEN
      then (None, send_error i ''INVALID_MSG'' txt_username_too_long w)
      else if length content > MAX_MESSAGE_LEN
      then (None, send_error i ''INVALID_MSG'' txt_message_too_long w)
      else
        (case server_find pf to w of
           None \<Rightarrow> (None, send_error i ''TARGET_OFFLINE'' txt_target_offline w)
         | Some j \<Rightarrow>
             (let ts = clock env 0;
                  sender = get_username (session_of w i);
                  w1 = w\<lparr>w_db := store_message (step_done env) sender to content ts (w_db w)\<rparr>;
                  m = private_msg sender to content ts;
                  w2 = server_send (cs_fd (session_of w1 j)) m w1
              in (None, server_send (cs_fd (session_of w2 i)) m w2))))"

definition handle_history_req :: "platform \<Rightarrow> call_env \<Rightarrow> handler" where
  "handle_history_req pf env i msg w =
    (case json_value msg ''to'' room of Inl e \<Rightarrow> (Some e, w) | Inr to \<Rightarrow>
      (None, server_send (cs_fd (session_of w i))
         (history_resp to
           (get_history (pf_desc pf) (pf_asc pf) (prep_ok env)
              (get_username (session_of w i)) to 50 (w_db w))) w))"

section \<open>Dispatch\<close>

definition route :: "platform \<Rightarrow> call_env \<Rightarrow> handler" where
  "route pf env i msg w =
    (case json_value msg ''type'' [] of Inl e \<Rightarrow> (Some e, w) | Inr type \<Rightarrow>
      if \<not> is_authenticated (session_of w i) then
        (if type = ''REGISTER'' then handle_register pf env i msg w
         else if type = ''LOGIN'' then handle_login pf env i msg w
         else if type = ''PONG'' then (None, w)
         else (None, send_error i ''NOT_AUTHENTICATED'' txt_login_first w))
      else if type = ''PONG'' then (None, w)
      else if type = ''BROADCAST'' then handle_broadcast pf env i msg w
      else if type = ''PRIVATE'' then handle_private pf env i msg w
      else if type = ''HISTORY_REQ'' then handle_history_req pf env i msg w
      else if type = ''LOGOUT'' then (None, handle_logout pf env i w)
      else (None, send_error i ''INVALID_MSG'' (txt_unknown_type @ type) w))"

end
