(* ===== verification/ThreadPool.thy ===== *)
theory ThreadPool
  imports Prelude
begin

text \<open>
  \<open>server/src/thread_pool.cpp\<close>: a fixed number of workers over one task queue. The queue
  \<open>tasks_\<close> is a \<open>std::queue\<close>; its contract is the locale \<open>task_queue\<close>. What the workers do is
  a step relation: a step is one critical section of \<open>mutex_\<close>, or the end of a task, which
  runs outside the lock. Condition-variable wake-ups carry no state: a worker may take a step
  whenever its wait predicate holds.
\<close>

section \<open>The queue interface\<close>

datatype 't queue_op = Push 't | Pop

locale task_queue =
  fixes push :: "'t \<Rightarrow> 'q \<Rightarrow> 'q"
    and pop :: "'q \<Rightarrow> ('t \<times> 'q) option"
    and contents :: "'q \<Rightarrow> 't list"
  assumes contents_push: "contents (push t q) = contents q @ [t]"
    and pop_empty: "pop q = None \<longleftrightarrow> contents q = []"
    and pop_front: "pop q = Some (t, q') \<Longrightarrow> contents q = t # contents q'"
begin

text \<open>
  First in, first out: a sequence of operations that turns \<open>q\<close> into \<open>q'\<close>, pushing \<open>ins\<close> and
  popping \<open>outs\<close>, pops in the order of pushing.
\<close>

inductive ops :: "'q \<Rightarrow> 't list \<Rightarrow> 't list \<Rightarrow> 'q \<Rightarrow> bool" where
  ops_refl: "ops q [] [] q"
| ops_push: "ops q ins outs q' \<Longrightarrow> ops q (ins @ [t]) outs (push t q')"
| ops_pop: "ops q ins outs q' \<Longrightarrow> pop q' = Some (t, q'') \<Longrightarrow> ops q ins (outs @ [t]) q''"

lemma fifo: "ops q ins outs q' \<Longrightarrow> contents q @ ins = outs @ contents q'"
proof (induction rule: ops.induct)
  case (ops_push q ins outs q' t)
  have "contents q @ (ins @ [t]) = (contents q @ ins) @ [t]" by simp
  also have "\<dots> = outs @ contents (push t q')"
    by (simp add: ops_push.IH contents_push)
  finally show ?case .
next
  case (ops_pop q ins outs q' t q'')
  then show ?case by (simp add: pop_front)
qed simp

end

section \<open>State\<close>

definition queue_push :: "'t \<Rightarrow> 't list \<Rightarrow> 't list" where
  "queue_push t q = q @ [t]"

definition queue_pop :: "'t list \<Rightarrow> ('t \<times> 't list) option" where
  "queue_pop q = (case q of [] \<Rightarrow> None | t # ts \<Rightarrow> Some (t, ts))"

interpretation tq: task_queue queue_push queue_pop "\<lambda>q. q"
  by unfold_locales (auto simp: queue_push_def queue_pop_def split: list.splits)

datatype 't worker = Waiting | Running 't | Exited

record 't pool =
  workers :: "'t worker list"
  tasks :: "'t list"
  stop_flag :: bool

definition thread_pool :: "nat \<Rightarrow> cpp_exception + 't pool" where
  "thread_pool num_threads =
     (if num_threads = 0
      then Inl (InvalidArgument ''ThreadPool: num_threads must be > 0'')
      else Inr \<lparr>workers = replicate num_threads Waiting, tasks = [], stop_flag = False\<rparr>)"

definition enqueue :: "'t \<Rightarrow> 't pool \<Rightarrow> cpp_exception + 't pool" where
  "enqueue t p =
     (if stop_flag p
      then Inl (RuntimeError ''ThreadPool: enqueue called after stop'')
      else Inr (p\<lparr>tasks := queue_push t (tasks p)\<rparr>))"

definition pool_size :: "'t pool \<Rightarrow> nat" where
  "pool_size p = length (workers p)"

text \<open>
  The critical section of a waiting worker: blocked, exit, or take the front task.
\<close>

datatype 't wait_result = Blocked | Exit | Take 't "'t list"

definition worker_wait :: "'t pool \<Rightarrow> 't wait_result" where
  "worker_wait p =
     (if \<not> (stop_flag p \<or> tasks p \<noteq> []) then Blocked
      else if stop_flag p \<and> tasks p = [] then Exit
      else case queue_pop (tasks p) of None \<Rightarrow> Blocked | Some (t, ts) \<Rightarrow> Take t ts)"

text \<open>The first half of the destructor; the second half joins the workers.\<close>

definition request_stop :: "'t pool \<Rightarrow> 't pool" where
  "request_stop p = p\<lparr>stop_flag := True\<rparr>"

datatype 't pool_event = Submit 't | Start nat 't | Finish nat 't | Leave nat | Stop

inductive pool_step :: "'t pool \<Rightarrow> 't pool_event \<Rightarrow> 't pool \<Rightarrow> bool" where
  submit: "enqueue t p = Inr p' \<Longrightarrow> pool_step p (Submit t) p'"
| start: "i < length (workers p) \<Longrightarrow> workers p ! i = Waiting \<Longrightarrow> worker_wait p = Take t ts \<Longrightarrow>
    pool_step p (Start i t) (p\<lparr>workers := (workers p)[i := Running t], tasks := ts\<rparr>)"
| finish: "i < length (workers p) \<Longrightarrow> workers p ! i = Running t \<Longrightarrow>
    pool_step p (Finish i t) (p\<lparr>workers := (workers p)[i := Waiting]\<rparr>)"
| leave: "i < length (workers p) \<Longrightarrow> workers p ! i = Waiting \<Longrightarrow> worker_wait p = Exit \<Longrightarrow>
    pool_step p (Leave i) (p\<lparr>workers := (workers p)[i := Exited]\<rparr>)"
| stop: "pool_step p Stop (request_stop p)"

inductive_cases pool_stepE: "pool_step p e p'"

text \<open>An execution: the events in order, from a pool to a pool.\<close>

inductive pool_run :: "'t pool \<Rightarrow> 't pool_event list \<Rightarrow> 't pool \<Rightarrow> bool" where
  run_Nil: "pool_run p [] p"
| run_snoc: "pool_run p es p' \<Longrightarrow> pool_step p' e p'' \<Longrightarrow> pool_run p (es @ [e]) p''"

fun submitted :: "'t pool_event list \<Rightarrow> 't list" where
  "submitted [] = []"
| "submitted (Submit t # es) = t # submitted es"
| "submitted (_ # es) = submitted es"

fun started :: "'t pool_event list \<Rightarrow> 't list" where
  "started [] = []"
| "started (Start i t # es) = t # started es"
| "started (_ # es) = started es"

fun finished :: "'t pool_event list \<Rightarrow> 't list" where
  "finished [] = []"
| "finished (Finish i t # es) = t # finished es"
| "finished (_ # es) = finished es"

fun running_task :: "'t worker \<Rightarrow> 't list" where
  "running_task (Running t) = [t]"
| "running_task _ = []"

definition running :: "'t pool \<Rightarrow> 't list" where
  "running p = concat (map running_task (workers p))"

section \<open>Lemmas\<close>

lemma submitted_append [simp]: "submitted (es @ es') = submitted es @ submitted es'"
  by (induction es rule: submitted.induct) auto

lemma started_append [simp]: "started (es @ es') = started es @ started es'"
  by (induction es rule: started.induct) auto

lemma finished_append [simp]: "finished (es @ es') = finished es @ finished es'"
  by (induction es rule: finished.induct) auto

lemma worker_wait_iff:
  "worker_wait p = Take t ts \<longleftrightarrow> tasks p = t # ts"
  "worker_wait p = Exit \<longleftrightarrow> stop_flag p \<and> tasks p = []"
  "worker_wait p = Blocked \<longleftrightarrow> \<not> stop_flag p \<and> tasks p = []"
  by (auto simp: worker_wait_def queue_pop_def split: list.splits)

text \<open>The tasks in hand, when worker \<open>i\<close> changes what it does.\<close>

lemma mset_running_update:
  "i < length ws \<Longrightarrow>
   mset (concat (map running_task (ws[i := w]))) + mset (running_task (ws ! i)) =
   mset (concat (map running_task ws)) + mset (running_task w)"
proof (induction ws arbitrary: i)
  case (Cons a ws)
  then show ?case by (cases i) (auto simp: ac_simps)
qed simp

lemma run_ops: "pool_run p es p' \<Longrightarrow> tq.ops (tasks p) (submitted es) (started es) (tasks p')"
proof (induction rule: pool_run.induct)
  case (run_Nil p)
  then show ?case by (simp add: tq.ops_refl)
next
  case (run_snoc p es p' e p'')
  from run_snoc.hyps(2) show ?case
  proof (cases rule: pool_step.cases)
    case (submit t)
    then have "tasks p'' = queue_push t (tasks p')"
      by (auto simp: enqueue_def split: if_splits)
    with run_snoc.IH submit show ?thesis by (auto intro: tq.ops_push)
  next
    case (start i t ts)
    then have "queue_pop (tasks p') = Some (t, ts)"
      by (simp add: worker_wait_iff queue_pop_def)
    with run_snoc.IH start show ?thesis by (auto intro: tq.ops_pop)
  qed (use run_snoc.IH in \<open>auto simp: request_stop_def\<close>)
qed

lemma run_running:
  "pool_run p es p' \<Longrightarrow> mset (running p) + mset (started es) = mset (finished es) + mset (running p')"
proof (induction rule: pool_run.induct)
  case (run_Nil p)
  then show ?case by simp
next
  case (run_snoc p es p' e p'')
  from run_snoc.hyps(2) show ?case
  proof (cases rule: pool_step.cases)
    case (submit t)
    then show ?thesis
      using run_snoc.IH by (auto simp: enqueue_def running_def split: if_splits)
  next
    case (start i t ts)
    with mset_running_update [of i "workers p'" "Running t"] run_snoc.IH show ?thesis
      by (simp add: running_def)
  next
    case (finish i t)
    have "mset (running p'') + mset [t] = mset (running p')"
      using finish mset_running_update [of i "workers p'" Waiting] by (simp add: running_def)
    with finish run_snoc.IH show ?thesis by (simp add: ac_simps)
  next
    case (leave i)
    with mset_running_update [of i "workers p'" Exited] run_snoc.IH show ?thesis
      by (simp add: running_def)
  next
    case stop
    then show ?thesis using run_snoc.IH by (simp add: request_stop_def running_def)
  qed
qed

lemma run_exited:
  "pool_run p es p' \<Longrightarrow> Exited \<notin> set (workers p) \<Longrightarrow> Exited \<in> set (workers p') \<Longrightarrow>
   stop_flag p' \<and> tasks p' = []"
proof (induction rule: pool_run.induct)
  case (run_snoc p es p' e p'')
  from run_snoc.hyps(2) run_snoc.prems run_snoc.IH show ?case
    by (cases rule: pool_step.cases)
       (auto simp: enqueue_def worker_wait_iff request_stop_def
          dest!: set_update_subset_insert [THEN subsetD] split: if_splits)
qed simp

lemma run_workers: "pool_run p es p' \<Longrightarrow> length (workers p') = length (workers p)"
proof (induction rule: pool_run.induct)
  case (run_snoc p es p' e p'')
  from run_snoc.hyps(2) run_snoc.IH show ?case
    by (cases rule: pool_step.cases) (auto simp: enqueue_def request_stop_def split: if_splits)
qed simp


text \<open>What is left to do once the pool is stopping: two steps per task, one per idle worker.\<close>

fun worker_weight :: "'t worker \<Rightarrow> nat" where
  "worker_weight Waiting = 1"
| "worker_weight (Running t) = 2"
| "worker_weight Exited = 0"

definition weight :: "'t pool \<Rightarrow> nat" where
  "weight p = 2 * length (tasks p) + sum_list (map worker_weight (workers p))"

lemma weight_update:
  "i < length ws \<Longrightarrow> sum_list (map worker_weight (ws[i := w])) + worker_weight (ws ! i) =
     sum_list (map worker_weight ws) + worker_weight w"
proof (induction ws arbitrary: i)
  case (Cons a ws)
  then show ?case by (cases i) auto
qed simp

lemma stopping_step:
  assumes "pool_step p e p'" "stop_flag p" "e \<noteq> Stop"
  shows "Suc (weight p') \<le> weight p \<and> stop_flag p'"
  using assms(1)
proof (cases rule: pool_step.cases)
  case (submit t)
  with assms(2) show ?thesis by (simp add: enqueue_def)
next
  case (start i t ts)
  then show ?thesis
    using weight_update [of i "workers p" "Running t"] assms(2)
    by (simp add: weight_def worker_wait_iff)
next
  case (finish i t)
  then show ?thesis
    using weight_update [of i "workers p" Waiting] assms(2) by (simp add: weight_def)
next
  case (leave i)
  then show ?thesis
    using weight_update [of i "workers p" Exited] assms(2) by (simp add: weight_def)
qed (use assms(3) in simp)

lemma stopping_run:
  "pool_run p es p' \<Longrightarrow> stop_flag p \<Longrightarrow> Stop \<notin> set es \<Longrightarrow>
   length es + weight p' \<le> weight p \<and> stop_flag p'"
proof (induction rule: pool_run.induct)
  case (run_snoc p es p' e p'')
  then have "length es + weight p' \<le> weight p" "stop_flag p'" "e \<noteq> Stop" by auto
  with stopping_step [OF run_snoc.hyps(2)] show ?case by auto
qed simp

lemma stopping_progress:
  assumes "stop_flag p" "w \<in> set (workers p)" "w \<noteq> Exited"
  shows "\<exists>e p'. e \<noteq> Stop \<and> pool_step p e p'"
proof -
  from assms(2) obtain i where i: "i < length (workers p)" "workers p ! i = w"
    by (auto simp: in_set_conv_nth)
  show ?thesis
  proof (cases w)
    case Waiting
    show ?thesis
    proof (cases "tasks p")
      case Nil
      with assms(1) have "worker_wait p = Exit" by (simp add: worker_wait_iff)
      with i Waiting show ?thesis by (blast intro: pool_step.leave)
    next
      case (Cons t ts)
      then have "worker_wait p = Take t ts" by (simp add: worker_wait_iff)
      with i Waiting show ?thesis by (blast intro: pool_step.start)
    qed
  next
    case (Running t)
    with i show ?thesis by (blast intro: pool_step.finish)
  qed (use assms(3) in simp)
qed

section \<open>Properties\<close>

text \<open>
  Tasks start in the order they were submitted: in every execution of a fresh pool, the
  started tasks followed by the tasks still queued are the submitted tasks.
\<close>

theorem pool_fifo:
  assumes "thread_pool n = Inr p" and "pool_run p es p'"
  shows "submitted es = started es @ tasks p'"
proof -
  have "tasks p = []" using assms(1) by (auto simp: thread_pool_def split: if_splits)
  with tq.fifo [OF run_ops [OF assms(2)]] show ?thesis by simp
qed

theorem pool_fifo_witness:
  "\<exists>p p'. thread_pool 2 = Inr p \<and> pool_run p [Submit ''a'', Submit ''b'', Start 1 ''a''] p' \<and>
     submitted [Submit ''a'', Submit ''b'', Start 1 ''a''] = started [Submit ''a'', Submit ''b'', Start 1 ''a''] @ tasks p'"
proof -
  define p :: "string pool" where
    "p = \<lparr>workers = [Waiting, Waiting], tasks = [], stop_flag = False\<rparr>"
  have new: "thread_pool 2 = Inr p" by (simp add: thread_pool_def p_def numeral_2_eq_2)
  let ?p1 = "p\<lparr>tasks := [''a'']\<rparr>" and ?p2 = "p\<lparr>tasks := [''a'', ''b'']\<rparr>"
  let ?p3 = "?p2\<lparr>workers := (workers ?p2)[1 := Running ''a''], tasks := [''b'']\<rparr>"
  have "pool_run p ([] @ [Submit ''a'']) ?p1"
    by (rule run_snoc [OF run_Nil], rule pool_step.submit)
       (simp add: enqueue_def p_def queue_push_def)
  then have "pool_run p (([] @ [Submit ''a'']) @ [Submit ''b'']) ?p2"
    by (rule run_snoc, intro pool_step.submit) (simp add: enqueue_def p_def queue_push_def)
  then have "pool_run p ((([] @ [Submit ''a'']) @ [Submit ''b'']) @ [Start 1 ''a'']) ?p3"
    by (rule run_snoc, intro pool_step.start) (simp_all add: worker_wait_iff p_def)
  then have run: "pool_run p [Submit ''a'', Submit ''b'', Start 1 ''a''] ?p3" by simp
  from pool_fifo [OF new run] new run show ?thesis by blast
qed

text \<open>
  No task is lost or run twice: when every worker of a pool has left, every submitted task
  has been run to its end exactly once, including the tasks still queued when the destructor
  asked the pool to stop.
\<close>

theorem pool_shutdown_complete:
  assumes "thread_pool n = Inr p" and "pool_run p es p'" and "\<forall>w \<in> set (workers p'). w = Exited"
  shows "mset (finished es) = mset (submitted es) \<and> tasks p' = []"
proof -
  have p: "workers p = replicate n Waiting" "n \<noteq> 0"
    using assms(1) by (auto simp: thread_pool_def split: if_splits)
  have len: "length (workers p') = n" using run_workers [OF assms(2)] p by simp
  with p(2) assms(3) have "Exited \<in> set (workers p')"
    by (metis length_greater_0_conv not_gr_zero nth_mem)
  moreover have "Exited \<notin> set (workers p)" using p by simp
  ultimately have t: "tasks p' = []" using run_exited [OF assms(2)] by blast
  have "running p = []" "running p' = []"
    using p(1) assms(3) by (auto simp: running_def)
  with run_running [OF assms(2)] have "mset (started es) = mset (finished es)" by simp
  moreover have "submitted es = started es @ tasks p'"
    using tq.fifo [OF run_ops [OF assms(2)]] assms(1)
    by (auto simp: thread_pool_def split: if_splits)
  ultimately show ?thesis using t by simp
qed

theorem pool_shutdown_complete_witness:
  "\<exists>p p'. thread_pool 1 = Inr p \<and> pool_run p [Submit ''a'', Stop, Start 0 ''a'', Finish 0 ''a'', Leave 0] p' \<and>
     mset (finished [Submit ''a'', Stop, Start 0 ''a'', Finish 0 ''a'', Leave 0]) = {# ''a'' #}"
proof -
  define p :: "string pool" where
    "p = \<lparr>workers = [Waiting], tasks = [], stop_flag = False\<rparr>"
  let ?p1 = "p\<lparr>tasks := [''a'']\<rparr>"
  let ?p2 = "?p1\<lparr>stop_flag := True\<rparr>"
  let ?p3 = "?p2\<lparr>workers := [Running ''a''], tasks := []\<rparr>"
  let ?p4 = "?p3\<lparr>workers := [Waiting]\<rparr>"
  let ?p5 = "?p4\<lparr>workers := [Exited]\<rparr>"
  have new: "thread_pool 1 = Inr p" by (simp add: thread_pool_def p_def)
  have s1: "pool_step p (Submit ''a'') ?p1"
    by (rule pool_step.submit) (simp add: enqueue_def p_def queue_push_def)
  have s2: "pool_step ?p1 Stop ?p2"
    using pool_step.stop [of ?p1] by (simp add: request_stop_def)
  have s3: "pool_step ?p2 (Start 0 ''a'') ?p3"
    using pool_step.start [of 0 ?p2 "''a''" "[]"] by (simp add: worker_wait_iff p_def)
  have s4: "pool_step ?p3 (Finish 0 ''a'') ?p4"
    using pool_step.finish [of 0 ?p3 "''a''"] by (simp add: p_def)
  have s5: "pool_step ?p4 (Leave 0) ?p5"
    using pool_step.leave [of 0 ?p4] by (simp add: worker_wait_iff p_def)
  have "pool_run p ((((([] @ [Submit ''a'']) @ [Stop]) @ [Start 0 ''a'']) @ [Finish 0 ''a'']) @ [Leave 0]) ?p5"
    by (intro run_snoc [OF _ s5] run_snoc [OF _ s4] run_snoc [OF _ s3] run_snoc [OF _ s2]
        run_snoc [OF _ s1] run_Nil)
  then have run: "pool_run p [Submit ''a'', Stop, Start 0 ''a'', Finish 0 ''a'', Leave 0] ?p5" by simp
  from pool_shutdown_complete [OF new run] new run show ?thesis by fastforce
qed



end
