(* ===== verification/ServerMain.thy ===== *)
theory ServerMain
  imports MessageRouter ThreadPool
begin

text \<open>
  How the server's parts are put together: the command line and the handler registration of
  \<open>server/main.cpp\<close>, and the two places of \<open>server/src/epoll_server.cpp\<close> where the event loop
  meets the thread pool and the router: \<open>handle_client_event\<close> with the worker lambda, and
  \<open>remove_client\<close> with the disconnect handler. The whole server is a step relation whose steps
  are the iterations of the event loop and the tasks of the workers; a worker's task is one step
  here (interleavings inside a login are the subject of \<open>LoginRace\<close>).
\<close>

section \<open>Command line\<close>

record config =
  port :: int
  num_workers :: int
  db_path :: string

definition default_config :: config where
  "default_config = \<lparr>port = 18080, num_workers = 4, db_path = ''linuxchat.db''\<rparr>"

definition is_space :: "char \<Rightarrow> bool" where
  "is_space c \<longleftrightarrow> c = CHR '' '' \<or> (9 \<le> (of_char c :: nat) \<and> of_char c \<le> (13 :: nat))"

definition is_digit :: "char \<Rightarrow> bool" where
  "is_digit c \<longleftrightarrow> 48 \<le> (of_char c :: nat) \<and> of_char c \<le> (57 :: nat)"

text \<open>
  \<open>std::atoi\<close>: leading white space, an optional sign, digits up to the first other character.
  Values outside the range of \<open>int\<close> are undefined in C; the model keeps the mathematical value.
\<close>

definition digits_value :: "string \<Rightarrow> int" where
  "digits_value s = foldl (\<lambda>n c. 10 * n + (int (of_char c) - 48)) 0 (takeWhile is_digit s)"

definition atoi :: "string \<Rightarrow> int" where
  "atoi s =
     (case dropWhile is_space s of
        [] \<Rightarrow> 0
      | c # cs \<Rightarrow> if c = CHR ''-'' then - digits_value cs
                  else if c = CHR ''+'' then digits_value cs
                  else digits_value (c # cs))"

text \<open>The arguments after the program name; \<open>None\<close> is the exit after printing the usage.\<close>

fun parse_args :: "string list \<Rightarrow> config \<Rightarrow> config option" where
  "parse_args [] cfg = Some cfg"
| "parse_args [arg] cfg = (if arg = ''--help'' \<or> arg = ''-h'' then None else Some cfg)"
| "parse_args (arg # val # rest) cfg =
     (if arg = ''--port'' \<or> arg = ''-p'' then parse_args rest (cfg\<lparr>port := atoi val\<rparr>)
      else if arg = ''--workers'' \<or> arg = ''-w'' then parse_args rest (cfg\<lparr>num_workers := atoi val\<rparr>)
      else if arg = ''--db'' \<or> arg = ''-d'' then parse_args rest (cfg\<lparr>db_path := val\<rparr>)
      else if arg = ''--help'' \<or> arg = ''-h'' then None
      else parse_args (val # rest) cfg)"

section \<open>Disconnecting\<close>

definition disconnect_handler :: "platform \<Rightarrow> call_env \<Rightarrow> sid \<Rightarrow> world \<Rightarrow> world" where
  "disconnect_handler pf env i w =
     (let pending = get_pending_login (session_of w i);
          w1 = (if pending \<noteq> []
                then on_server (upd_session clear_pending_login i)
                       (on_router (cleanup_login_reservation pending) w)
                else w)
      in handle_logout pf env i w1)"

definition remove_client :: "platform \<Rightarrow> call_env \<Rightarrow> fd \<Rightarrow> world \<Rightarrow> world" where
  "remove_client pf env f w =
     (case remove_begin f (w_server w) of
        (removed, s1) \<Rightarrow>
          (let w1 = w\<lparr>w_server := s1\<rparr>;
               w2 = (case removed of None \<Rightarrow> w1 | Some i \<Rightarrow> disconnect_handler pf env i w1)
           in on_server (remove_end f removed) w2))"

section \<open>Tasks\<close>

text \<open>
  A task as the worker lambda captures it: the session, its generation at dispatch and the
  message. An exception that leaves the handler is logged by the lambda and goes no further.
\<close>

type_synonym task = "sid \<times> 64 word \<times> json"

definition worker_task :: "platform \<Rightarrow> call_env \<Rightarrow> task \<Rightarrow> world \<Rightarrow> world" where
  "worker_task pf env t w =
     (case t of (i, gen_at_dispatch, msg) \<Rightarrow>
        if generation (session_of w i) \<noteq> gen_at_dispatch then w
        else snd (route pf env i msg w))"

section \<open>Reading from a client\<close>

text \<open>
  The dispatch loop of \<open>handle_client_event\<close>: for a session that is not authenticated it reads
  the message's type for a log line, outside any \<open>try\<close>, so an exception of \<open>value\<close> leaves the
  loop.
\<close>

fun dispatch_msgs ::
  "sid \<Rightarrow> client_session \<Rightarrow> json list \<Rightarrow> task pool \<Rightarrow> cpp_exception option \<times> task pool" where
  "dispatch_msgs i c [] p = (None, p)"
| "dispatch_msgs i c (msg # msgs) p =
     (case (if is_authenticated c then Inr [] else json_value msg ''type'' []) of
        Inl e \<Rightarrow> (Some e, p)
      | Inr t \<Rightarrow>
          (case enqueue (i, generation c, msg) p of
             Inl e \<Rightarrow> (Some e, p)
           | Inr p' \<Rightarrow> dispatch_msgs i c msgs p'))"

record system =
  sys_world :: world
  sys_pool :: "task pool"
  crashed :: "cpp_exception option"

definition handle_client_event ::
  "platform \<Rightarrow> (string \<Rightarrow> parse_outcome) \<Rightarrow> call_env \<Rightarrow> (nat \<Rightarrow> recv_result) \<Rightarrow> fd \<Rightarrow> system \<Rightarrow> system" where
  "handle_client_event pf parse env net f s =
     (let w = sys_world s in
      case map_of (sessions (w_server w)) f of
        None \<Rightarrow> s
      | Some i \<Rightarrow>
          (case recv_msgs parse net (session_of w i) of
             (r, c) \<Rightarrow>
               (let w1 = on_server (upd_session (\<lambda>_. c) i) w in
                case r of
                  Inl e \<Rightarrow> s\<lparr>sys_world := w1, crashed := Some e\<rparr>
                | Inr None \<Rightarrow> s\<lparr>sys_world := remove_client pf env f w1\<rparr>
                | Inr (Some msgs) \<Rightarrow>
                    (case dispatch_msgs i c msgs (sys_pool s) of
                       (e, p) \<Rightarrow> s\<lparr>sys_world := w1, sys_pool := p, crashed := e\<rparr>))))"

section \<open>The server\<close>

definition initial_world :: world where
  "initial_world = \<lparr>w_router = set_server new_router, w_server = new_server, w_db = empty_database\<rparr>"

definition initial_system :: "nat \<Rightarrow> cpp_exception + system" where
  "initial_system n =
     (case thread_pool n of
        Inl e \<Rightarrow> Inl e
      | Inr p \<Rightarrow> Inr \<lparr>sys_world = initial_world, sys_pool = p, crashed = None\<rparr>)"

text \<open>
  One step: the loop accepts a connection whose descriptor is fresh (the kernel does not hand out
  the descriptor of an open socket) while the 64-bit connection counter has not run out, reads
  from a client, fires the heartbeat; or a worker starts a task or finishes one. Nothing happens
  after an exception has left the event loop.
\<close>

inductive sys_step :: "platform \<Rightarrow> (string \<Rightarrow> parse_outcome) \<Rightarrow> system \<Rightarrow> system \<Rightarrow> bool"
  for pf parse where
  accept: "crashed s = None \<Longrightarrow> f \<notin> fst ` set (sessions (w_server (sys_world s))) \<Longrightarrow> 0 \<le> f \<Longrightarrow>
    next_generation (w_server (sys_world s)) < 2 ^ 63 \<Longrightarrow>
    sys_step pf parse s
      (s\<lparr>sys_world := on_server (handle_new_connection [Accepted f ip ok, AcceptAgain]) (sys_world s)\<rparr>)"
| client_event: "crashed s = None \<Longrightarrow> next_generation (w_server (sys_world s)) < 2 ^ 63 \<Longrightarrow>
    sys_step pf parse s (handle_client_event pf parse env net f s)"
| heartbeat_fired: "crashed s = None \<Longrightarrow>
    sys_step pf parse s
      (s\<lparr>sys_world := on_server (heartbeat (pf_table_order pf)) (sys_world s)\<rparr>)"
| task_start: "crashed s = None \<Longrightarrow> pool_step (sys_pool s) (Start k t) p \<Longrightarrow>
    sys_step pf parse s
      (s\<lparr>sys_world := worker_task pf env t (sys_world s), sys_pool := p\<rparr>)"
| task_finish: "crashed s = None \<Longrightarrow> pool_step (sys_pool s) (Finish k t) p \<Longrightarrow>
    sys_step pf parse s (s\<lparr>sys_pool := p\<rparr>)"

inductive reachable :: "platform \<Rightarrow> (string \<Rightarrow> parse_outcome) \<Rightarrow> system \<Rightarrow> bool"
  for pf parse where
  start: "initial_system n = Inr s \<Longrightarrow> reachable pf parse s"
| step: "reachable pf parse s \<Longrightarrow> sys_step pf parse s s' \<Longrightarrow> reachable pf parse s'"

inductive_cases sys_stepE: "sys_step pf parse s s'"

end
