(* ===== verification/FineHandlers.thy ===== *)
theory FineHandlers
  imports Programs ServerMain
begin

text \<open>
  Every handler of \<open>server/src/message_router.cpp\<close>, and the messaging operations of
  \<open>server/src/epoll_server.cpp\<close> it calls, as programs of atomic steps. A step is one critical
  section of the source (one lock held, or one access to a session's name or pending login), one
  operation of the database, or one message handed to a socket; between any two of them another
  thread may run. The words of a \<open>call_env\<close> (clocks, random bytes, results of SQLite) belong to
  the call. Run without interruption the programs are the handlers of \<open>MessageRouter\<close>.
\<close>

type_synonym handler_prog = "sid \<Rightarrow> json \<Rightarrow> world prog"

section \<open>Messaging\<close>

definition error_prog :: "sid \<Rightarrow> string \<Rightarrow> string \<Rightarrow> world prog" where
  "error_prog i code content = act (send_error i code content)"

text \<open>\<open>broadcast\<close> copies the targets under \<open>sessions_mutex_\<close> and sends to each without it.\<close>

fun send_each :: "json \<Rightarrow> sid list \<Rightarrow> world prog" where
  "send_each msg [] = Done None"
| "send_each msg (i # is) =
     andthen (act (on_server (\<lambda>s. emit (cs_fd (heap s i)) msg s))) (send_each msg is)"

definition broadcast_prog :: "platform \<Rightarrow> json \<Rightarrow> string \<Rightarrow> world prog" where
  "broadcast_prog pf msg exclude =
     ask (\<lambda>w. if server_set (w_router w)
              then broadcast_targets (pf_table_order pf) exclude (w_server w) else [])
       (send_each msg)"

definition send_to_fd_prog :: "fd \<Rightarrow> json \<Rightarrow> world prog" where
  "send_to_fd_prog f msg =
     ask (\<lambda>w. if server_set (w_router w) then map_of (sessions (w_server w)) f else None)
       (\<lambda>r. send_each msg (case r of None \<Rightarrow> [] | Some i \<Rightarrow> [i]))"

definition push_history_prog :: "platform \<Rightarrow> call_env \<Rightarrow> fd \<Rightarrow> string \<Rightarrow> world prog" where
  "push_history_prog pf env f name =
     ask (\<lambda>w. get_history (pf_desc pf) (pf_asc pf) (prep_ok env) name room 20 (w_db w))
       (\<lambda>rows. send_to_fd_prog f (history_resp room rows))"

definition user_list_prog :: "platform \<Rightarrow> int \<Rightarrow> world prog" where
  "user_list_prog pf now =
     ask (\<lambda>w. make_user_list_msg pf now (w_router w)) (\<lambda>msg. broadcast_prog pf msg [])"

section \<open>Logging in and out\<close>

definition finish_login_prog :: "platform \<Rightarrow> call_env \<Rightarrow> sid \<Rightarrow> string \<Rightarrow> world prog" where
  "finish_login_prog pf env i name = stage
     [act (on_server (upd_session (set_username name) i)),
      act (on_router (\<lambda>r. r\<lparr>online_users := set_insert name (online_users r)\<rparr>)),
      act (send_ok i ''LOGIN_OK'' name),
      ask (\<lambda>w. cs_fd (session_of w i)) (\<lambda>f. push_history_prog pf env f name),
      user_list_prog pf (clock env 0),
      broadcast_prog pf (notify_msg (name @ txt_joined) (clock env 1)) name,
      act (on_server (upd_session clear_pending_login i)),
      act (on_router (release name))]"

text \<open>\<open>handle_register\<close> once the name is reserved.\<close>

definition register_reserved :: "platform \<Rightarrow> call_env \<Rightarrow> sid \<Rightarrow> string \<Rightarrow> string \<Rightarrow> world prog" where
  "register_reserved pf env i name password =
     andthen (act (on_server (upd_session (set_pending_login name) i)))
       (case hash_password (pf_digest pf) (rand env) password of
          Inl e \<Rightarrow> Done (Some e)
        | Inr hash \<Rightarrow> Step (\<lambda>w.
            case register_user (step_done env) name hash (w_db w) of
              (False, d) \<Rightarrow>
                (stage [act (on_router (release name)),
                        act (on_server (upd_session clear_pending_login i)),
                        error_prog i ''USER_EXISTS'' txt_user_exists], w\<lparr>w_db := d\<rparr>)
            | (True, d) \<Rightarrow> (finish_login_prog pf env i name, w\<lparr>w_db := d\<rparr>)))"

text \<open>
  The section under \<open>login_mutex_\<close> at the start of \<open>handle_register\<close>; its error reply is sent
  with the mutex held.
\<close>

definition handle_register_prog :: "platform \<Rightarrow> call_env \<Rightarrow> handler_prog" where
  "handle_register_prog pf env i msg =
    (case json_value msg ''from'' [] of Inl e \<Rightarrow> Done (Some e) | Inr name \<Rightarrow>
     case json_value msg ''content'' [] of Inl e \<Rightarrow> Done (Some e) | Inr password \<Rightarrow>
      if name = [] \<or> password = []
      then error_prog i ''INVALID_MSG'' txt_missing_credentials
      else if length name > MAX_USERNAME_LEN
      then error_prog i ''INVALID_MSG'' txt_username_too_long
      else if length password > MAX_PASSWORD_LEN
      then error_prog i ''INVALID_MSG'' txt_password_too_long
      else Step (\<lambda>w.
        if name \<in> set (login_in_progress (w_router w))
        then (Done None, send_error i ''ALREADY_LOGGED_IN'' txt_registering w)
        else (register_reserved pf env i name password, on_router (reserve name) w)))"

text \<open>\<open>handle_login\<close> once the name is reserved.\<close>

definition login_reserved :: "platform \<Rightarrow> call_env \<Rightarrow> sid \<Rightarrow> string \<Rightarrow> string \<Rightarrow> world prog" where
  "login_reserved pf env i name password =
     andthen (act (on_server (upd_session (set_pending_login name) i)))
       (ask (\<lambda>w. get_stored_hash (prep_ok env) name (w_db w)) (\<lambda>stored_hash.
          if stored_hash = [] \<or> \<not> verify_password (pf_digest pf) password stored_hash
          then stage [act (on_attempts (\<lambda>ip. record_failed_login ip (steady env 1)) i),
                      act (on_router (release name)),
                      act (on_server (upd_session clear_pending_login i)),
                      error_prog i ''WRONG_PASSWORD'' txt_wrong_password]
          else andthen (act (on_attempts clear_login_attempts i))
                 (finish_login_prog pf env i name)))"

definition handle_login_prog :: "platform \<Rightarrow> call_env \<Rightarrow> handler_prog" where
  "handle_login_prog pf env i msg =
    (case json_value msg ''from'' [] of Inl e \<Rightarrow> Done (Some e) | Inr name \<Rightarrow>
     case json_value msg ''content'' [] of Inl e \<Rightarrow> Done (Some e) | Inr password \<Rightarrow>
      if name = [] \<or> password = []
      then error_prog i ''INVALID_MSG'' txt_missing_credentials
      else if length name > MAX_USERNAME_LEN
      then error_prog i ''INVALID_MSG'' txt_username_too_long
      else if length password > MAX_PASSWORD_LEN
      then error_prog i ''INVALID_MSG'' txt_password_too_long
      else Step (\<lambda>w. case check_rate env i w of (limited, w0) \<Rightarrow>
        (if limited then error_prog i ''RATE_LIMITED'' txt_rate_limited
         else Step (\<lambda>w.
           if name \<in> set (login_in_progress (w_router w))
           then (Done None, send_error i ''ALREADY_LOGGED_IN'' txt_logging_in w)
           else if server_find pf name w \<noteq> None
           then (Done None, send_error i ''ALREADY_LOGGED_IN'' txt_already_logged_in w)
           else (login_reserved pf env i name password, on_router (reserve name) w)), w0)))"

definition handle_logout_prog :: "platform \<Rightarrow> call_env \<Rightarrow> sid \<Rightarrow> world prog" where
  "handle_logout_prog pf env i =
     ask (\<lambda>w. is_authenticated (session_of w i)) (\<lambda>auth.
       if \<not> auth then Done None
       else ask (\<lambda>w. get_username (session_of w i)) (\<lambda>name. stage
         [act (on_router (\<lambda>r. r\<lparr>online_users := set_erase name (online_users r)\<rparr>)),
          act (on_server (upd_session clear_username i)),
          user_list_prog pf (clock env 0),
          broadcast_prog pf (notify_msg (name @ txt_left) (clock env 1)) []]))"

section \<open>Messages and histories\<close>

definition store_prog :: "call_env \<Rightarrow> string \<Rightarrow> string \<Rightarrow> string \<Rightarrow> world prog" where
  "store_prog env from to content =
     act (\<lambda>w. w\<lparr>w_db := store_message (step_done env) from to content (clock env 0) (w_db w)\<rparr>)"

definition handle_broadcast_prog :: "platform \<Rightarrow> call_env \<Rightarrow> handler_prog" where
  "handle_broadcast_prog pf env i msg =
    (case json_value msg ''content'' [] of Inl e \<Rightarrow> Done (Some e) | Inr content \<Rightarrow>
      if content = [] then error_prog i ''INVALID_MSG'' txt_empty_message
      else if length content > MAX_MESSAGE_LEN
      then error_prog i ''INVALID_MSG'' txt_message_too_long
      else ask (\<lambda>w. get_username (session_of w i)) (\<lambda>sender. stage
        [store_prog env sender room content,
         broadcast_prog pf (broadcast_msg sender content (clock env 0)) []]))"

definition handle_private_prog :: "platform \<Rightarrow> call_env \<Rightarrow> handler_prog" where
  "handle_private_prog pf env i msg =
    (case json_value msg ''to'' [] of Inl e \<Rightarrow> Done (Some e) | Inr to \<Rightarrow>
     case json_value msg ''content'' [] of Inl e \<Rightarrow> Done (Some e) | Inr content \<Rightarrow>
      if to = [] \<or> content = []
      then error_prog i ''INVALID_MSG'' txt_missing_target
      else if length to > MAX_USERNAME_LEN
      then error_prog i ''INVALID_MSG'' txt_username_too_long
      else if length content > MAX_MESSAGE_LEN
      then error_prog i ''INVALID_MSG'' txt_message_too_long
      else ask (server_find pf to) (\<lambda>target.
        case target of
          None \<Rightarrow> error_prog i ''TARGET_OFFLINE'' txt_target_offline
        | Some j \<Rightarrow> ask (\<lambda>w. get_username (session_of w i)) (\<lambda>sender. stage
            [store_prog env sender to content,
             ask (\<lambda>w. cs_fd (session_of w j)) (\<lambda>f.
               send_to_fd_prog f (private_msg sender to content (clock env 0))),
             ask (\<lambda>w. cs_fd (session_of w i)) (\<lambda>f.
               send_to_fd_prog f (private_msg sender to content (clock env 0)))])))"

definition handle_history_req_prog :: "platform \<Rightarrow> call_env \<Rightarrow> handler_prog" where
  "handle_history_req_prog pf env i msg =
    (case json_value msg ''to'' room of Inl e \<Rightarrow> Done (Some e) | Inr to \<Rightarrow>
      ask (\<lambda>w. get_username (session_of w i)) (\<lambda>name.
      ask (\<lambda>w. get_history (pf_desc pf) (pf_asc pf) (prep_ok env) name to 50 (w_db w)) (\<lambda>rows.
      ask (\<lambda>w. cs_fd (session_of w i)) (\<lambda>f. send_to_fd_prog f (history_resp to rows)))))"

section \<open>Dispatch\<close>

definition route_prog :: "platform \<Rightarrow> call_env \<Rightarrow> handler_prog" where
  "route_prog pf env i msg =
    (case json_value msg ''type'' [] of Inl e \<Rightarrow> Done (Some e) | Inr type \<Rightarrow>
      ask (\<lambda>w. is_authenticated (session_of w i)) (\<lambda>auth.
        if \<not> auth then
          (if type = ''REGISTER'' then handle_register_prog pf env i msg
           else if type = ''LOGIN'' then handle_login_prog pf env i msg
           else if type = ''PONG'' then Done None
           else error_prog i ''NOT_AUTHENTICATED'' txt_login_first)
        else if type = ''PONG'' then Done None
        else if type = ''BROADCAST'' then handle_broadcast_prog pf env i msg
        else if type = ''PRIVATE'' then handle_private_prog pf env i msg
        else if type = ''HISTORY_REQ'' then handle_history_req_prog pf env i msg
        else if type = ''LOGOUT'' then handle_logout_prog pf env i
        else error_prog i ''INVALID_MSG'' (txt_unknown_type @ type)))"

text \<open>The worker's lambda: the generation first; an exception of the handler ends there.\<close>

definition task_prog :: "platform \<Rightarrow> call_env \<Rightarrow> task \<Rightarrow> world prog" where
  "task_prog pf env t =
     (case t of (i, gen_at_dispatch, msg) \<Rightarrow>
        ask (\<lambda>w. generation (session_of w i)) (\<lambda>g.
          if g \<noteq> gen_at_dispatch then Done None else route_prog pf env i msg))"

section \<open>Disconnecting\<close>

definition disconnect_prog :: "platform \<Rightarrow> call_env \<Rightarrow> sid \<Rightarrow> world prog" where
  "disconnect_prog pf env i =
     ask (\<lambda>w. get_pending_login (session_of w i)) (\<lambda>pending.
       andthen
         (if pending \<noteq> []
          then stage [act (on_router (cleanup_login_reservation pending)),
                      act (on_server (upd_session clear_pending_login i))]
          else Done None)
         (handle_logout_prog pf env i))"

definition remove_client_prog :: "platform \<Rightarrow> call_env \<Rightarrow> fd \<Rightarrow> world prog" where
  "remove_client_prog pf env f = Step (\<lambda>w.
     case remove_begin f (w_server w) of
       (removed, s) \<Rightarrow>
         (andthen (case removed of None \<Rightarrow> Done None | Some i \<Rightarrow> disconnect_prog pf env i)
            (act (on_server (remove_end f removed))), w\<lparr>w_server := s\<rparr>))"

section \<open>Run alone, the programs are the handlers\<close>

lemma run_error [simp]: "run (error_prog i code content) w = (None, send_error i code content w)"
  by (simp add: error_prog_def)

lemma run_send_each [simp]:
  "run (send_each msg is) w =
     (None, on_server (\<lambda>s. fold (\<lambda>i s. emit (cs_fd (heap s i)) msg s) is s) w)"
  by (induction "is" arbitrary: w) (simp_all add: on_server_def)

lemma run_broadcast [simp]: "run (broadcast_prog pf msg ex) w = (None, server_broadcast pf msg ex w)"
  by (simp add: broadcast_prog_def server_broadcast_def broadcast_def on_server_def)

lemma run_send_to_fd [simp]: "run (send_to_fd_prog f msg) w = (None, server_send f msg w)"
  by (simp add: send_to_fd_prog_def server_send_def send_to_fd_def on_server_def split: option.split)

lemma run_push_history [simp]: "run (push_history_prog pf env f u) w = (None, push_history pf env f u w)"
  by (simp add: push_history_prog_def push_history_def)

lemma run_user_list [simp]: "run (user_list_prog pf now) w = (None, broadcast_user_list pf now w)"
  by (simp add: user_list_prog_def broadcast_user_list_def server_broadcast_def)

lemma run_finish_login [simp]:
  "run (finish_login_prog pf env i u) w =
     (None, on_router (release u) (on_server (upd_session clear_pending_login i) (finish_login pf env i u w)))"
  by (simp add: finish_login_prog_def finish_login_def Let_def)

lemma run_store [simp]:
  "run (store_prog env from to c) w =
     (None, w\<lparr>w_db := store_message (step_done env) from to c (clock env 0) (w_db w)\<rparr>)"
  by (simp add: store_prog_def)

lemma run_Step' [simp]: "run (Step f) s = (case f s of (p, s') \<Rightarrow> run p s')"
  by (simp add: run_Step case_prod_beta)

lemma run_register [simp]: "run (handle_register_prog pf env i msg) w = handle_register pf env i msg w"
  by (auto simp: handle_register_prog_def register_reserved_def handle_register_def Let_def split: sum.split prod.split bool.split)

lemma run_login [simp]: "run (handle_login_prog pf env i msg) w = handle_login pf env i msg w"
  by (auto simp: handle_login_prog_def login_reserved_def handle_login_def Let_def split: sum.split prod.split)

lemma run_logout [simp]: "run (handle_logout_prog pf env i) w = (None, handle_logout pf env i w)"
  by (simp add: handle_logout_prog_def handle_logout_def Let_def)

lemma run_handle_broadcast [simp]:
  "run (handle_broadcast_prog pf env i msg) w = handle_broadcast pf env i msg w"
  by (auto simp: handle_broadcast_prog_def handle_broadcast_def Let_def split: sum.split)

lemma run_private [simp]: "run (handle_private_prog pf env i msg) w = handle_private pf env i msg w"
  by (auto simp: handle_private_prog_def handle_private_def Let_def split: sum.split option.split)

lemma run_history_req [simp]:
  "run (handle_history_req_prog pf env i msg) w = handle_history_req pf env i msg w"
  by (auto simp: handle_history_req_prog_def handle_history_req_def split: sum.split)

lemma run_route [simp]: "run (route_prog pf env i msg) w = route pf env i msg w"
  by (auto simp: route_prog_def route_def split: sum.split)

lemma run_disconnect [simp]: "run (disconnect_prog pf env i) w = (None, disconnect_handler pf env i w)"
  by (simp add: disconnect_prog_def disconnect_handler_def Let_def)

end
