(* ===== verification/RouterLaws.thy ===== *)
theory RouterLaws
  imports MessageRouter
begin

text \<open>
  What the handlers of \<open>MessageRouter\<close> do to each part of the state: frame equations of the
  sending helpers, a case rule for each handler, and the properties of single messages: who can
  become authenticated and how, what a registration enables, whom a message reaches, which
  exceptions can leave the dispatcher.
\<close>

section \<open>Frame equations\<close>

lemma send_error_simps [simp]:
  "w_router (send_error i c t w) = w_router w"
  "w_db (send_error i c t w) = w_db w"
  "sessions (w_server (send_error i c t w)) = sessions (w_server w)"
  "heap (w_server (send_error i c t w)) = heap (w_server w)"
  "next_sid (w_server (send_error i c t w)) = next_sid (w_server w)"
  "next_generation (w_server (send_error i c t w)) = next_generation (w_server w)"
  "out (w_server (send_error i c t w)) =
     out (w_server w) @ [(cs_fd (session_of w i), error_msg c t)]"
  by (simp_all add: send_error_def)

lemma send_ok_simps [simp]:
  "w_router (send_ok i t u w) = w_router w"
  "w_db (send_ok i t u w) = w_db w"
  "sessions (w_server (send_ok i t u w)) = sessions (w_server w)"
  "heap (w_server (send_ok i t u w)) = heap (w_server w)"
  "next_sid (w_server (send_ok i t u w)) = next_sid (w_server w)"
  "next_generation (w_server (send_ok i t u w)) = next_generation (w_server w)"
  "out (w_server (send_ok i t u w)) = out (w_server w) @ [(cs_fd (session_of w i), ok_msg t u)]"
  by (simp_all add: send_ok_def)

lemma server_broadcast_simps [simp]:
  "w_router (server_broadcast pf m ex w) = w_router w"
  "w_db (server_broadcast pf m ex w) = w_db w"
  "sessions (w_server (server_broadcast pf m ex w)) = sessions (w_server w)"
  "heap (w_server (server_broadcast pf m ex w)) = heap (w_server w)"
  "next_sid (w_server (server_broadcast pf m ex w)) = next_sid (w_server w)"
  "next_generation (w_server (server_broadcast pf m ex w)) = next_generation (w_server w)"
  by (simp_all add: server_broadcast_def)

lemma server_send_simps [simp]:
  "w_router (server_send f m w) = w_router w"
  "w_db (server_send f m w) = w_db w"
  "sessions (w_server (server_send f m w)) = sessions (w_server w)"
  "heap (w_server (server_send f m w)) = heap (w_server w)"
  "next_sid (w_server (server_send f m w)) = next_sid (w_server w)"
  "next_generation (w_server (server_send f m w)) = next_generation (w_server w)"
  by (simp_all add: server_send_def)

lemma push_history_simps [simp]:
  "w_router (push_history pf env f u w) = w_router w"
  "w_db (push_history pf env f u w) = w_db w"
  "sessions (w_server (push_history pf env f u w)) = sessions (w_server w)"
  "heap (w_server (push_history pf env f u w)) = heap (w_server w)"
  "next_sid (w_server (push_history pf env f u w)) = next_sid (w_server w)"
  "next_generation (w_server (push_history pf env f u w)) = next_generation (w_server w)"
  by (simp_all add: push_history_def)

lemma broadcast_user_list_simps [simp]:
  "w_router (broadcast_user_list pf t w) = w_router w"
  "w_db (broadcast_user_list pf t w) = w_db w"
  "sessions (w_server (broadcast_user_list pf t w)) = sessions (w_server w)"
  "heap (w_server (broadcast_user_list pf t w)) = heap (w_server w)"
  "next_sid (w_server (broadcast_user_list pf t w)) = next_sid (w_server w)"
  "next_generation (w_server (broadcast_user_list pf t w)) = next_generation (w_server w)"
  by (simp_all add: broadcast_user_list_def)

lemma router_simps [simp]:
  "online_users (reserve u r) = online_users r"
  "online_users (release u r) = online_users r"
  "server_set (reserve u r) = server_set r"
  "server_set (release u r) = server_set r"
  "login_attempts (reserve u r) = login_attempts r"
  "login_attempts (release u r) = login_attempts r"
  "login_in_progress (reserve u r) = set_insert u (login_in_progress r)"
  "login_in_progress (release u r) = set_erase u (login_in_progress r)"
  by (simp_all add: reserve_def release_def)

lemma finish_login_simps [simp]:
  "online_users (w_router (finish_login pf env i u w)) = set_insert u (online_users (w_router w))"
  "login_in_progress (w_router (finish_login pf env i u w)) = login_in_progress (w_router w)"
  "login_attempts (w_router (finish_login pf env i u w)) = login_attempts (w_router w)"
  "server_set (w_router (finish_login pf env i u w)) = server_set (w_router w)"
  "w_db (finish_login pf env i u w) = w_db w"
  "sessions (w_server (finish_login pf env i u w)) = sessions (w_server w)"
  "next_sid (w_server (finish_login pf env i u w)) = next_sid (w_server w)"
  "next_generation (w_server (finish_login pf env i u w)) = next_generation (w_server w)"
  "heap (w_server (finish_login pf env i u w)) =
     (heap (w_server w))(i := set_username u (heap (w_server w) i))"
  by (auto simp: finish_login_def Let_def)

lemma on_attempts_simps [simp]:
  "w_db (on_attempts f i w) = w_db w"
  "w_server (on_attempts f i w) = w_server w"
  "online_users (w_router (on_attempts f i w)) = online_users (w_router w)"
  "login_in_progress (w_router (on_attempts f i w)) = login_in_progress (w_router w)"
  "server_set (w_router (on_attempts f i w)) = server_set (w_router w)"
  by (simp_all add: on_attempts_def Let_def)

lemma check_rate_simps [simp]:
  "w_db (snd (check_rate env i w)) = w_db w"
  "w_server (snd (check_rate env i w)) = w_server w"
  "online_users (w_router (snd (check_rate env i w))) = online_users (w_router w)"
  "login_in_progress (w_router (snd (check_rate env i w))) = login_in_progress (w_router w)"
  "server_set (w_router (snd (check_rate env i w))) = server_set (w_router w)"
  by (simp_all add: check_rate_def Let_def split: prod.splits)

lemma handle_logout_simps [simp]:
  "w_db (handle_logout pf env i w) = w_db w"
  "sessions (w_server (handle_logout pf env i w)) = sessions (w_server w)"
  "next_sid (w_server (handle_logout pf env i w)) = next_sid (w_server w)"
  "next_generation (w_server (handle_logout pf env i w)) = next_generation (w_server w)"
  "login_in_progress (w_router (handle_logout pf env i w)) = login_in_progress (w_router w)"
  "login_attempts (w_router (handle_logout pf env i w)) = login_attempts (w_router w)"
  "server_set (w_router (handle_logout pf env i w)) = server_set (w_router w)"
  "online_users (w_router (handle_logout pf env i w)) =
     (if is_authenticated (session_of w i)
      then set_erase (get_username (session_of w i)) (online_users (w_router w))
      else online_users (w_router w))"
  "heap (w_server (handle_logout pf env i w)) =
     (heap (w_server w))(i := clear_username (heap (w_server w) i))"
  by (auto simp: handle_logout_def Let_def session_defs)

section \<open>What a message can do\<close>

text \<open>
  Two worlds with the same sessions, accounts, messages and online users: they may differ in what
  has been sent, in pending logins, in reservations and in the rate limiter's table.
\<close>

definition same_client :: "client_session \<Rightarrow> client_session \<Rightarrow> bool" where
  "same_client c c' \<longleftrightarrow> cs_fd c' = cs_fd c \<and> recv_buf c' = recv_buf c \<and>
     generation c' = generation c \<and> parse_failures c' = parse_failures c \<and>
     ip_address c' = ip_address c \<and> username c' = username c"

definition quiet :: "world \<Rightarrow> world \<Rightarrow> bool" where
  "quiet w w' \<longleftrightarrow>
     sessions (w_server w') = sessions (w_server w) \<and>
     next_sid (w_server w') = next_sid (w_server w) \<and>
     next_generation (w_server w') = next_generation (w_server w) \<and>
     w_db w' = w_db w \<and>
     online_users (w_router w') = online_users (w_router w) \<and>
     server_set (w_router w') = server_set (w_router w) \<and>
     (\<forall>j. same_client (session_of w j) (session_of w' j))"

lemma same_client_simps [simp]:
  "same_client c c"
  "same_client c (set_pending_login u c') \<longleftrightarrow> same_client c c'"
  "same_client c (clear_pending_login c') \<longleftrightarrow> same_client c c'"
  "same_client (set_username u c) (set_username u c)"
  by (simp_all add: same_client_def session_defs)

lemma quiet_refl [simp, intro]: "quiet w w"
  by (simp add: quiet_def)

lemma quiet_trans: "quiet w w' \<Longrightarrow> quiet w' w'' \<Longrightarrow> quiet w w''"
  by (simp add: quiet_def same_client_def)

definition logged_in :: "sid \<Rightarrow> string \<Rightarrow> world \<Rightarrow> world" where
  "logged_in i u w = on_router (\<lambda>r. r\<lparr>online_users := set_insert u (online_users r)\<rparr>)
     (on_server (upd_session (set_username u) i) w)"

definition logged_out :: "sid \<Rightarrow> world \<Rightarrow> world" where
  "logged_out i w =
     on_router (\<lambda>r. r\<lparr>online_users := set_erase (get_username (session_of w i)) (online_users r)\<rparr>)
       (on_server (upd_session clear_username i) w)"

text \<open>
  The effects a dispatched message can have, with the conditions under which it has them.
\<close>

inductive effect :: "platform \<Rightarrow> call_env \<Rightarrow> sid \<Rightarrow> json \<Rightarrow> world \<Rightarrow> world \<Rightarrow> bool"
  for pf env i msg w where
  nothing: "quiet w w' \<Longrightarrow> effect pf env i msg w w'"
| signup: "\<not> is_authenticated (session_of w i) \<Longrightarrow> json_value msg ''type'' [] = Inr ''REGISTER'' \<Longrightarrow>
    json_value msg ''from'' [] = Inr u \<Longrightarrow> json_value msg ''content'' [] = Inr password \<Longrightarrow>
    u \<noteq> [] \<Longrightarrow> length u \<le> MAX_USERNAME_LEN \<Longrightarrow>
    hash_password (pf_digest pf) (rand env) password = Inr h \<Longrightarrow>
    register_user (step_done env) u h (w_db w) = (True, d) \<Longrightarrow>
    quiet (logged_in i u (w\<lparr>w_db := d\<rparr>)) w' \<Longrightarrow> effect pf env i msg w w'"
| login: "\<not> is_authenticated (session_of w i) \<Longrightarrow> json_value msg ''type'' [] = Inr ''LOGIN'' \<Longrightarrow>
    json_value msg ''from'' [] = Inr u \<Longrightarrow> json_value msg ''content'' [] = Inr password \<Longrightarrow>
    u \<noteq> [] \<Longrightarrow> length u \<le> MAX_USERNAME_LEN \<Longrightarrow> server_find pf u w = None \<Longrightarrow>
    get_stored_hash (prep_ok env) u (w_db w) \<noteq> [] \<Longrightarrow>
    verify_password (pf_digest pf) password (get_stored_hash (prep_ok env) u (w_db w)) \<Longrightarrow>
    quiet (logged_in i u w) w' \<Longrightarrow> effect pf env i msg w w'"
| logout: "is_authenticated (session_of w i) \<Longrightarrow> json_value msg ''type'' [] = Inr ''LOGOUT'' \<Longrightarrow>
    quiet (logged_out i w) w' \<Longrightarrow> effect pf env i msg w w'"
| post: "is_authenticated (session_of w i) \<Longrightarrow> json_value msg ''type'' [] = Inr ''BROADCAST'' \<Longrightarrow>
    json_value msg ''content'' [] = Inr content \<Longrightarrow> content \<noteq> [] \<Longrightarrow>
    length content \<le> MAX_MESSAGE_LEN \<Longrightarrow>
    quiet (w\<lparr>w_db := store_message (step_done env) (get_username (session_of w i)) room content
      (clock env 0) (w_db w)\<rparr>) w' \<Longrightarrow> effect pf env i msg w w'"
| whisper: "is_authenticated (session_of w i) \<Longrightarrow> json_value msg ''type'' [] = Inr ''PRIVATE'' \<Longrightarrow>
    json_value msg ''to'' [] = Inr to \<Longrightarrow> json_value msg ''content'' [] = Inr content \<Longrightarrow>
    to \<noteq> [] \<Longrightarrow> content \<noteq> [] \<Longrightarrow> length content \<le> MAX_MESSAGE_LEN \<Longrightarrow>
    server_find pf to w = Some j \<Longrightarrow>
    quiet (w\<lparr>w_db := store_message (step_done env) (get_username (session_of w i)) to content
      (clock env 0) (w_db w)\<rparr>) w' \<Longrightarrow> effect pf env i msg w w'"

lemma quiet_simps [simp]:
  "quiet w (send_error i c t w') \<longleftrightarrow> quiet w w'"
  "quiet w (send_ok i t u w') \<longleftrightarrow> quiet w w'"
  "quiet w (server_broadcast pf m ex w') \<longleftrightarrow> quiet w w'"
  "quiet w (server_send f m w') \<longleftrightarrow> quiet w w'"
  "quiet w (push_history pf env f u w') \<longleftrightarrow> quiet w w'"
  "quiet w (broadcast_user_list pf now w') \<longleftrightarrow> quiet w w'"
  "quiet w (on_attempts g i w') \<longleftrightarrow> quiet w w'"
  "quiet w (snd (check_rate env i w')) \<longleftrightarrow> quiet w w'"
  "quiet w (on_router (reserve u) w') \<longleftrightarrow> quiet w w'"
  "quiet w (on_router (release u) w') \<longleftrightarrow> quiet w w'"
  by (simp_all add: quiet_def)

lemma quiet_session_simps [simp]:
  "quiet w (on_server (upd_session (set_pending_login u) i) w') \<longleftrightarrow> quiet w w'"
  "quiet w (on_server (upd_session clear_pending_login i) w') \<longleftrightarrow> quiet w w'"
  by (auto simp: quiet_def same_client_def set_pending_login_def clear_pending_login_def)

lemma quiet_finish_login [simp]:
  "quiet w (finish_login pf env i u w') \<longleftrightarrow> quiet w (logged_in i u w')"
  by (auto simp: quiet_def logged_in_def)

lemma quiet_logged_in: "quiet w w' \<Longrightarrow> quiet (logged_in i u w) (logged_in i u w')"
  by (auto simp: quiet_def logged_in_def same_client_def set_username_def)

lemma quiet_db: "quiet w w' \<Longrightarrow> quiet (w\<lparr>w_db := d\<rparr>) (w'\<lparr>w_db := d\<rparr>)"
  by (auto simp: quiet_def)

lemma quiet_db_same [simp]:
  "w_db w' = w_db w \<Longrightarrow> quiet w (w'\<lparr>w_db := w_db w\<rparr>) \<longleftrightarrow> quiet w w'"
  by (simp add: quiet_def)

lemma handle_register_effect:
  assumes "\<not> is_authenticated (session_of w i)" "json_value msg ''type'' [] = Inr ''REGISTER''"
    and "handle_register pf env i msg w = (e, w')"
  shows "effect pf env i msg w w'"
proof (cases "quiet w w'")
  case False
  from assms(3) False obtain u password h d where
    *: "json_value msg ''from'' [] = Inr u" "json_value msg ''content'' [] = Inr password"
      "u \<noteq> []" "length u \<le> MAX_USERNAME_LEN"
      "hash_password (pf_digest pf) (rand env) password = Inr h"
      "register_user (step_done env) u h (w_db w) = (True, d)"
    and w': "quiet (logged_in i u (w\<lparr>w_db := d\<rparr>)) w'"
    by (auto simp: handle_register_def Let_def quiet_logged_in quiet_db
        split: sum.splits if_splits prod.splits bool.splits dest!: register_user_False)
  from signup [OF assms(1,2) * w'] show ?thesis .
qed (rule nothing)

lemma server_find_cong:
  "w_server w' = w_server w \<Longrightarrow> server_set (w_router w') = server_set (w_router w) \<Longrightarrow>
   server_find pf u w' = server_find pf u w"
  by (simp add: server_find_def)

lemma handle_login_effect:
  assumes "\<not> is_authenticated (session_of w i)" "json_value msg ''type'' [] = Inr ''LOGIN''"
    and "handle_login pf env i msg w = (e, w')"
  shows "effect pf env i msg w w'"
proof (cases "quiet w w'")
  case False
  obtain limited w0 where c: "check_rate env i w = (limited, w0)" by (cases "check_rate env i w")
  have w0: "w_db w0 = w_db w" "w_server w0 = w_server w"
    "online_users (w_router w0) = online_users (w_router w)"
    "server_set (w_router w0) = server_set (w_router w)"
    using check_rate_simps [of env i w] c by simp_all
  have q0: "quiet w w0"
    using quiet_simps(8) [of w env i w] c by simp
  from w0 have find: "server_find pf u w0 = server_find pf u w" for u
    by (intro server_find_cong)
  from assms(3) False obtain u password where
    *: "json_value msg ''from'' [] = Inr u" "json_value msg ''content'' [] = Inr password"
      "u \<noteq> []" "length u \<le> MAX_USERNAME_LEN" "server_find pf u w = None"
      "get_stored_hash (prep_ok env) u (w_db w) \<noteq> []"
      "verify_password (pf_digest pf) password (get_stored_hash (prep_ok env) u (w_db w))"
    and w': "quiet (logged_in i u w) w'"
    by (auto simp: handle_login_def Let_def c w0 find q0 quiet_logged_in
        split: sum.splits if_splits prod.splits)
  from login [OF assms(1,2) * w'] show ?thesis .
qed (rule nothing)

lemma handle_logout_quiet:
  "is_authenticated (session_of w i) \<Longrightarrow> quiet (logged_out i w) (handle_logout pf env i w)"
  by (auto simp: quiet_def logged_out_def)

lemma handle_broadcast_effect:
  assumes "is_authenticated (session_of w i)" "json_value msg ''type'' [] = Inr ''BROADCAST''"
    and "handle_broadcast pf env i msg w = (e, w')"
  shows "effect pf env i msg w w'"
proof (cases "quiet w w'")
  case False
  from assms(3) False obtain content where
    *: "json_value msg ''content'' [] = Inr content" "content \<noteq> []"
      "length content \<le> MAX_MESSAGE_LEN"
    and w': "quiet (w\<lparr>w_db := store_message (step_done env) (get_username (session_of w i)) room
      content (clock env 0) (w_db w)\<rparr>) w'"
    by (auto simp: handle_broadcast_def Let_def split: sum.splits if_splits)
  from post [OF assms(1,2) * w'] show ?thesis .
qed (rule nothing)

lemma handle_private_effect:
  assumes "is_authenticated (session_of w i)" "json_value msg ''type'' [] = Inr ''PRIVATE''"
    and "handle_private pf env i msg w = (e, w')"
  shows "effect pf env i msg w w'"
proof (cases "quiet w w'")
  case False
  from assms(3) False obtain to content j where
    *: "json_value msg ''to'' [] = Inr to" "json_value msg ''content'' [] = Inr content"
      "to \<noteq> []" "content \<noteq> []" "length content \<le> MAX_MESSAGE_LEN"
      "server_find pf to w = Some j"
    and w': "quiet (w\<lparr>w_db := store_message (step_done env) (get_username (session_of w i)) to
      content (clock env 0) (w_db w)\<rparr>) w'"
    by (auto simp: handle_private_def Let_def split: sum.splits if_splits option.splits)
  from whisper [OF assms(1,2) * w'] show ?thesis .
qed (rule nothing)

lemma handle_history_req_quiet: "quiet w (snd (handle_history_req pf env i msg w))"
  by (auto simp: handle_history_req_def quiet_def split: sum.splits)

text \<open>Every dispatched message has one of the effects, also when its handler throws.\<close>

lemma route_effect: "route pf env i msg w = (e, w') \<Longrightarrow> effect pf env i msg w w'"
  using handle_history_req_quiet [of w pf env i msg] handle_logout_quiet [of w i pf env]
  by (auto simp: route_def split: sum.splits if_splits
      intro: handle_register_effect handle_login_effect handle_broadcast_effect
        handle_private_effect effect.nothing effect.logout)

text \<open>Only the session that sent the message changes, and only its name and pending login.\<close>

lemma effect_frame:
  assumes "effect pf env i msg w w'"
  shows "sessions (w_server w') = sessions (w_server w)"
    and "next_sid (w_server w') = next_sid (w_server w)"
    and "next_generation (w_server w') = next_generation (w_server w)"
    and "server_set (w_router w') = server_set (w_router w)"
    and "j \<noteq> i \<Longrightarrow> same_client (session_of w j) (session_of w' j)"
    and "cs_fd (session_of w' j) = cs_fd (session_of w j)"
    and "generation (session_of w' j) = generation (session_of w j)"
  using assms
  by (cases; simp add: quiet_def logged_in_def logged_out_def same_client_def session_defs)+

section \<open>Properties of single messages\<close>

lemma effect_authenticated:
  assumes "effect pf env i msg w w'"
    and "username (session_of w' j) \<noteq> username (session_of w j)"
    and "username (session_of w' j) = u" and "u \<noteq> []"
  shows "j = i \<and> username (session_of w i) = [] \<and> json_value msg ''from'' [] = Inr u \<and>
    length u \<le> MAX_USERNAME_LEN \<and> (\<exists>password. json_value msg ''content'' [] = Inr password \<and>
      ((json_value msg ''type'' [] = Inr ''REGISTER'' \<and> c_str u \<notin> fst ` set (users (w_db w)) \<and>
          (\<exists>h. hash_password (pf_digest pf) (rand env) password = Inr h \<and>
             users (w_db w') = users (w_db w) @ [(c_str u, h)])) \<or>
       (json_value msg ''type'' [] = Inr ''LOGIN'' \<and> w_db w' = w_db w \<and>
          server_find pf u w = None \<and> get_stored_hash (prep_ok env) u (w_db w) \<noteq> [] \<and>
          verify_password (pf_digest pf) password (get_stored_hash (prep_ok env) u (w_db w)))))"
  using assms(1)
proof cases
  case (signup u' password h d)
  have "c_str h = h" using hash_password_no_nul [OF signup(7)] by (rule c_str_id)
  then show ?thesis
    using signup assms(2-4)
    by (auto simp: quiet_def same_client_def logged_in_def set_username_def register_user_True
        is_authenticated_def split: if_splits)
next
  case (login u' password)
  then show ?thesis
    using assms(2-4)
    by (auto simp: quiet_def same_client_def logged_in_def set_username_def is_authenticated_def
        split: if_splits)
qed (use assms(2-4) in \<open>auto simp: quiet_def same_client_def logged_out_def clear_username_def
      split: if_splits\<close>)

text \<open>
  C5. The only ways to become somebody: if dispatching a message changes the name of a session
  to \<open>u\<close>, then it is the session that sent the message, it had no name, and the message was
  either a REGISTER that created the account \<open>u\<close>, with a hash of the message's password, or a
  LOGIN whose password the stored hash of \<open>u\<close> verifies, while no live session had the name \<open>u\<close>.
\<close>

theorem authentication_sound:
  assumes "route pf env i msg w = (e, w')"
    and "username (session_of w' j) \<noteq> username (session_of w j)"
    and "username (session_of w' j) = u" and "u \<noteq> []"
  shows "j = i \<and> username (session_of w i) = [] \<and> json_value msg ''from'' [] = Inr u \<and>
    length u \<le> MAX_USERNAME_LEN \<and> (\<exists>password. json_value msg ''content'' [] = Inr password \<and>
      ((json_value msg ''type'' [] = Inr ''REGISTER'' \<and> c_str u \<notin> fst ` set (users (w_db w)) \<and>
          (\<exists>h. hash_password (pf_digest pf) (rand env) password = Inr h \<and>
             users (w_db w') = users (w_db w) @ [(c_str u, h)])) \<or>
       (json_value msg ''type'' [] = Inr ''LOGIN'' \<and> w_db w' = w_db w \<and>
          server_find pf u w = None \<and> get_stored_hash (prep_ok env) u (w_db w) \<noteq> [] \<and>
          verify_password (pf_digest pf) password (get_stored_hash (prep_ok env) u (w_db w)))))"
  by (rule effect_authenticated [OF route_effect [OF assms(1)] assms(2-4)])

text \<open>A small platform, environment and world for the witnesses.\<close>

definition sample_platform :: platform where
  "sample_platform = \<lparr>pf_digest = (\<lambda>s. Some (string_bytes s)), pf_desc = stable_desc,
     pf_asc = stable_asc, pf_set_order = (\<lambda>xs. xs), pf_table_order = (\<lambda>xs. xs)\<rparr>"

definition sample_env :: call_env where
  "sample_env = \<lparr>clock = (\<lambda>n. 1000 + int n), steady = (\<lambda>n. 5 + int n), rand = Some [10, 255],
     step_done = True, prep_ok = True\<rparr>"

definition request :: "string \<Rightarrow> string \<Rightarrow> string \<Rightarrow> json" where
  "request type from content = json_object
     [(''type'', JString type), (''from'', JString from), (''content'', JString content)]"

definition sample_world :: "nat \<Rightarrow> world" where
  "sample_world n = \<lparr>w_router = set_server new_router,
     w_server = handle_new_connection (map (\<lambda>k. Accepted (int k + 7) ''10.0.0.1'' True) [0..<n]) new_server,
     w_db = empty_database\<rparr>"

lemma request_values:
  "json_value (request t u c) ''type'' d = Inr t"
  "json_value (request t u c) ''from'' d = Inr u"
  "json_value (request t u c) ''content'' d = Inr c"
  by (simp_all add: request_def json_value_object)

text \<open>Handlers on requests that pass every check.\<close>

lemma route_register_ok:
  assumes "\<not> is_authenticated (session_of w i)" "json_value msg ''type'' [] = Inr ''REGISTER''"
    and "json_value msg ''from'' [] = Inr u" "json_value msg ''content'' [] = Inr password"
    and "u \<noteq> []" "password \<noteq> []" "length u \<le> MAX_USERNAME_LEN" "length password \<le> MAX_PASSWORD_LEN"
    and "u \<notin> set (login_in_progress (w_router w))"
    and "hash_password (pf_digest pf) (rand env) password = Inr h"
    and "register_user (step_done env) u h (w_db w) = (True, d)"
  shows "fst (route pf env i msg w) = None \<and>
    quiet (logged_in i u (w\<lparr>w_db := d\<rparr>)) (snd (route pf env i msg w))"
  using assms
  by (auto simp: route_def handle_register_def Let_def intro!: quiet_logged_in quiet_db)

lemma route_login_ok:
  assumes "\<not> is_authenticated (session_of w i)" "json_value msg ''type'' [] = Inr ''LOGIN''"
    and "json_value msg ''from'' [] = Inr u" "json_value msg ''content'' [] = Inr password"
    and "u \<noteq> []" "password \<noteq> []" "length u \<le> MAX_USERNAME_LEN" "length password \<le> MAX_PASSWORD_LEN"
    and "\<not> fst (check_rate env i w)"
    and "u \<notin> set (login_in_progress (w_router w))" "server_find pf u w = None"
    and "get_stored_hash (prep_ok env) u (w_db w) \<noteq> []"
  shows "fst (route pf env i msg w) = None \<and>
    quiet (if verify_password (pf_digest pf) password (get_stored_hash (prep_ok env) u (w_db w))
           then logged_in i u w else w) (snd (route pf env i msg w))"
proof -
  obtain w0 where c: "check_rate env i w = (False, w0)"
    using assms(9) by (cases "check_rate env i w") auto
  have w0: "w_db w0 = w_db w" "w_server w0 = w_server w"
    "login_in_progress (w_router w0) = login_in_progress (w_router w)"
    "server_set (w_router w0) = server_set (w_router w)" "quiet w w0"
    using check_rate_simps [of env i w] quiet_simps(8) [of w env i w] c by simp_all
  from w0 have find: "server_find pf u w0 = server_find pf u w"
    by (intro server_find_cong)
  show ?thesis
    using assms(1-8,10-) w0 find
    by (auto simp: route_def handle_login_def Let_def c intro!: quiet_logged_in)
qed

lemma quiet_username: "quiet w w' \<Longrightarrow> username (session_of w' j) = username (session_of w j)"
  by (simp add: quiet_def same_client_def)

definition sample_hash :: string where
  "sample_hash = hex_bytes [10, 255] @ '':'' @
     sha256_hex (\<lambda>s. Some (string_bytes s)) (hex_bytes [10, 255] @ '':'' @ ''pw'')"

lemma sample_hash_password:
  "hash_password (pf_digest sample_platform) (rand sample_env) ''pw'' = Inr sample_hash"
  by (simp add: sample_platform_def sample_env_def hash_password_def generate_salt_def sample_hash_def)

lemma sample_world_simps:
  "w_router (sample_world n) = set_server new_router"
  "w_db (sample_world n) = empty_database"
  "username (session_of (sample_world 2) j) = []"
  "sessions (w_server (sample_world 2)) = [(7, 0), (8, 1)]"
  "cs_fd (session_of (sample_world 2) 0) = 7" "cs_fd (session_of (sample_world 2) 1) = 8"
  "cs_fd (session_of (sample_world 2) (Suc 0)) = 8"
  "ip_address (session_of (sample_world 2) 1) = ''10.0.0.1''"
  by (simp_all add: sample_world_def upt_rec accept_one_def Let_def new_server_def session_defs)

lemma sample_register:
  "fst (route sample_platform sample_env 0 (request ''REGISTER'' ''amy'' ''pw'') (sample_world 2)) = None \<and>
   quiet (logged_in 0 ''amy''
       ((sample_world 2)\<lparr>w_db := empty_database\<lparr>users := [(''amy'', sample_hash)]\<rparr>\<rparr>))
     (snd (route sample_platform sample_env 0 (request ''REGISTER'' ''amy'' ''pw'') (sample_world 2)))"
proof (rule route_register_ok [OF _ _ _ _ _ _ _ _ _ sample_hash_password])
  have "c_str sample_hash = sample_hash"
    using hash_password_no_nul [OF sample_hash_password] by (rule c_str_id)
  then show "register_user (step_done sample_env) ''amy'' sample_hash (w_db (sample_world 2)) =
      (True, empty_database\<lparr>users := [(''amy'', sample_hash)]\<rparr>)"
    by (simp add: sample_world_simps sample_env_def register_user_def empty_database_def c_str_def)
qed (simp_all add: request_values sample_world_simps is_authenticated_def set_server_def
    new_router_def MAX_USERNAME_LEN_def MAX_PASSWORD_LEN_def)

theorem authentication_sound_witness:
  "\<exists>e w'. route sample_platform sample_env 0 (request ''REGISTER'' ''amy'' ''pw'') (sample_world 2) = (e, w') \<and>
     c_str ''amy'' \<notin> fst ` set (users (w_db (sample_world 2))) \<and> username (session_of w' 0) = ''amy''"
proof -
  obtain e w' where r: "route sample_platform sample_env 0 (request ''REGISTER'' ''amy'' ''pw'')
      (sample_world 2) = (e, w')" by fastforce
  have u: "username (session_of w' 0) = ''amy''"
    using quiet_username [OF conjunct2 [OF sample_register], of 0] r
    by (simp add: logged_in_def set_username_def)
  with authentication_sound [OF r, of 0 "''amy''"] r show ?thesis
    by (auto simp: request_values sample_world_simps)
qed

text \<open>
  C10. What a registration is good for: after a REGISTER with which a session became \<open>u\<close>, and in
  any later world whose accounts still have the entry it made, a LOGIN of \<open>u\<close> from an
  unauthenticated session that is neither rate limited nor racing another login of \<open>u\<close> succeeds
  exactly when its password has the same salted digest as the registered one.
\<close>

theorem register_then_login:
  assumes "route pf env i msg w = (e, w1)" "json_value msg ''type'' [] = Inr ''REGISTER''"
    and "json_value msg ''content'' [] = Inr p"
    and "username (session_of w i) = []" "username (session_of w1 i) = u" "u \<noteq> []"
    and "rand env = Some rb" "sha256_hex (pf_digest pf) (hex_bytes rb @ '':'' @ p) \<noteq> []"
    and "map_of (users (w_db w2)) (c_str u) = map_of (users (w_db w1)) (c_str u)"
    and "username (session_of w2 j) = []" "\<not> fst (check_rate env2 j w2)"
    and "u \<notin> set (login_in_progress (w_router w2))" "server_find pf u w2 = None" "prep_ok env2"
    and "json_value msg2 ''type'' [] = Inr ''LOGIN''" "json_value msg2 ''from'' [] = Inr u"
    and "json_value msg2 ''content'' [] = Inr p2" "p2 \<noteq> []" "length p2 \<le> MAX_PASSWORD_LEN"
  shows "username (session_of (snd (route pf env2 j msg2 w2)) j) =
    (if sha256_hex (pf_digest pf) (hex_bytes rb @ '':'' @ p2) =
        sha256_hex (pf_digest pf) (hex_bytes rb @ '':'' @ p) then u else [])"
proof -
  from effect_authenticated [OF route_effect [OF assms(1)], of i u] assms(2-6)
  obtain h where h: "hash_password (pf_digest pf) (rand env) p = Inr h"
    and fresh: "c_str u \<notin> fst ` set (users (w_db w))"
    and users: "users (w_db w1) = users (w_db w) @ [(c_str u, h)]"
    and len: "length u \<le> MAX_USERNAME_LEN"
    by auto
  from h assms(7) have h': "h = hex_bytes rb @ '':'' @ sha256_hex (pf_digest pf) (hex_bytes rb @ '':'' @ p)"
    by (auto simp: hash_password_def generate_salt_def)
  have stored: "get_stored_hash (prep_ok env2) u (w_db w2) = h"
    using assms(9,14) fresh users by (simp add: get_stored_hash_def map_of_append_fresh del: map_of_append)
  have "quiet (if verify_password (pf_digest pf) p2 h then logged_in j u w2 else w2)
      (snd (route pf env2 j msg2 w2))"
    using route_login_ok [of w2 j msg2 u p2 env2 pf] assms(6,10-19) len stored
      hash_password_nonempty [OF h] by (simp add: is_authenticated_def)
  from quiet_username [OF this, of j]
  show ?thesis
    using assms(10) verify_salted [OF hex_bytes_no_colon assms(8)]
    by (simp add: h' logged_in_def set_username_def)
qed

text \<open>Here the later world is the restarted server on the same database.\<close>

theorem register_then_login_witness:
  "let w1 = snd (route sample_platform sample_env 0 (request ''REGISTER'' ''amy'' ''pw'') (sample_world 2));
       w2 = (sample_world 2)\<lparr>w_db := w_db w1\<rparr>
   in username (session_of (snd (route sample_platform sample_env 1
        (request ''LOGIN'' ''amy'' ''pw'') w2)) 1) = ''amy''"
proof -
  let ?m = "request ''REGISTER'' ''amy'' ''pw''"
  obtain e w1 where r: "route sample_platform sample_env 0 ?m (sample_world 2) = (e, w1)" by fastforce
  let ?w2 = "(sample_world 2)\<lparr>w_db := w_db w1\<rparr>"
  have u1: "username (session_of w1 0) = ''amy''"
    using quiet_username [OF conjunct2 [OF sample_register], of 0] r
    by (simp add: logged_in_def set_username_def)
  have "\<not> fst (check_rate sample_env 1 ?w2)"
    by (simp add: check_rate_def Let_def sample_world_simps is_rate_limited_def set_server_def
        new_router_def)
  moreover have "''amy'' \<notin> set (login_in_progress (w_router ?w2))"
    by (simp add: sample_world_simps set_server_def new_router_def)
  moreover have "server_find sample_platform ''amy'' ?w2 = None"
    by (simp add: server_find_def find_session_def sample_world_simps set_server_def
        sample_platform_def get_username_def)
  moreover have "sha256_hex (pf_digest sample_platform) (hex_bytes [10, 255] @ '':'' @ ''pw'') \<noteq> []"
    by (simp add: sample_platform_def sha256_hex_def hex_bytes_def hex_byte_def string_bytes_def)
  ultimately have "username (session_of (snd (route sample_platform sample_env 1
      (request ''LOGIN'' ''amy'' ''pw'') ?w2)) 1) = ''amy''"
    using register_then_login [OF r, of "''pw''" "''amy''" "[10, 255]" ?w2 1 sample_env
        "request ''LOGIN'' ''amy'' ''pw''" "''pw''"] u1
    by (simp add: request_values sample_world_simps sample_env_def MAX_PASSWORD_LEN_def)
  with r show ?thesis by (simp add: Let_def)
qed

section \<open>Delivery\<close>

text \<open>The table maps every descriptor to a session that owns it.\<close>

definition table_ok :: "server \<Rightarrow> bool" where
  "table_ok s \<longleftrightarrow> distinct (map fst (sessions s)) \<and> distinct (map snd (sessions s)) \<and>
     (\<forall>(f, i) \<in> set (sessions s). cs_fd (heap s i) = f)"

lemma table_lookup: "table_ok s \<Longrightarrow> i \<in> live_sids s \<Longrightarrow> map_of (sessions s) (cs_fd (heap s i)) = Some i"
  by (auto simp: table_ok_def live_sids_def)

lemma send_to_fd_live:
  "table_ok s \<Longrightarrow> i \<in> live_sids s \<Longrightarrow>
   send_to_fd (cs_fd (heap s i)) m s = emit (cs_fd (heap s i)) m s"
  by (simp add: send_to_fd_def table_lookup)

text \<open>The sessions a broadcast reaches, whatever the iteration order.\<close>

lemma broadcast_targets_set:
  assumes "iteration_order order" "table_ok s"
  shows "mset (broadcast_targets order ex s) =
    mset_set {i \<in> live_sids s. is_authenticated (heap s i) \<and>
      \<not> (ex \<noteq> [] \<and> get_username (heap s i) = ex)}"
proof -
  let ?P = "\<lambda>i. is_authenticated (heap s i) \<and> \<not> (ex \<noteq> [] \<and> get_username (heap s i) = ex)"
  have snd_filter: "image_mset snd (filter_mset (\<lambda>p. ?P (snd p)) M) = filter_mset ?P (image_mset snd M)"
    for M :: "(fd \<times> sid) multiset" by (induction M) auto
  have "mset (broadcast_targets order ex s) =
      image_mset snd (filter_mset (\<lambda>p. ?P (snd p)) (mset (order (sessions s))))"
    by (simp add: broadcast_targets_def case_prod_unfold)
  also have "\<dots> = filter_mset ?P (image_mset snd (mset (sessions s)))"
    using assms(1) by (simp only: snd_filter iteration_order_def)
  also have "\<dots> = filter_mset ?P (mset (map snd (sessions s)))" by simp
  also have "mset (map snd (sessions s)) = mset_set (live_sids s)"
    using assms(2) mset_set_set [of "map snd (sessions s)"]
    by (simp add: table_ok_def live_sids_def del: mset_map)
  finally show ?thesis by (simp add: live_sids_def filter_mset_mset_set)
qed

text \<open>
  A room message reaches everybody: a BROADCAST of an authenticated session with acceptable
  content produces no exception, is stored once for the room when the database accepts it, and is
  sent exactly once to each session in the table that is authenticated, the sender included, and
  to nobody else.
\<close>

theorem broadcast_delivery:
  assumes "iteration_order (pf_table_order pf)" "table_ok (w_server w)" "server_set (w_router w)"
    and "is_authenticated (session_of w i)" "json_value msg ''type'' [] = Inr ''BROADCAST''"
    and "json_value msg ''content'' [] = Inr content" "content \<noteq> []"
    and "length content \<le> MAX_MESSAGE_LEN"
  shows "\<exists>targets w'. route pf env i msg w = (None, w') \<and>
    mset targets = mset_set {j \<in> live_sids (w_server w). is_authenticated (session_of w j)} \<and>
    out (w_server w') = out (w_server w) @
      map (\<lambda>j. (cs_fd (session_of w j),
        broadcast_msg (username (session_of w i)) content (clock env 0))) targets \<and>
    messages (w_db w') = messages (w_db w) @
      (if step_done env then [\<lparr>row_id = next_id (w_db w), from_user = c_str (username (session_of w i)),
         to_user = room, row_content = c_str content, row_timestamp = clock env 0\<rparr>] else [])"
proof -
  let ?u = "get_username (session_of w i)"
  let ?t = "broadcast_targets (pf_table_order pf) [] (w_server w)"
  let ?w' = "server_broadcast pf (broadcast_msg ?u content (clock env 0)) []
    (w\<lparr>w_db := store_message (step_done env) ?u room content (clock env 0) (w_db w)\<rparr>)"
  have "route pf env i msg w = (None, ?w')"
    using assms(4-) by (auto simp: route_def handle_broadcast_def Let_def)
  moreover have "mset ?t = mset_set {j \<in> live_sids (w_server w). is_authenticated (session_of w j)}"
    using broadcast_targets_set [OF assms(1,2), of "[]"] by simp
  moreover have "out (w_server ?w') = out (w_server w) @
      map (\<lambda>j. (cs_fd (session_of w j), broadcast_msg ?u content (clock env 0))) ?t"
    using assms(3) by (simp add: server_broadcast_def)
  moreover have "messages (w_db ?w') = messages (w_db w) @
      (if step_done env then [\<lparr>row_id = next_id (w_db w), from_user = c_str ?u,
         to_user = room, row_content = c_str content, row_timestamp = clock env 0\<rparr>] else [])"
    by (simp add: store_message_def)
  ultimately show ?thesis unfolding get_username_def by blast
qed

definition two_users :: world where
  "two_users = logged_in 0 ''amy'' (logged_in 1 ''bob'' (sample_world 2))"

lemma two_users_simps:
  "sessions (w_server two_users) = [(7, 0), (8, 1)]"
  "username (session_of two_users j) = (if j = 0 then ''amy'' else if j = 1 then ''bob'' else [])"
  "cs_fd (session_of two_users 0) = 7" "cs_fd (session_of two_users 1) = 8"
  "cs_fd (session_of two_users (Suc 0)) = 8"
  "w_db two_users = empty_database" "server_set (w_router two_users)"
  "live_sids (w_server two_users) = {0, 1}"
  by (simp_all add: two_users_def logged_in_def sample_world_simps set_username_def set_server_def
      live_sids_def)

theorem broadcast_delivery_witness:
  "\<exists>targets w'. route sample_platform sample_env 0 (request ''BROADCAST'' [] ''hi'') two_users = (None, w') \<and>
    mset targets = {#0, 1#} \<and>
    out (w_server w') = out (w_server two_users) @
      map (\<lambda>j. (cs_fd (session_of two_users j), broadcast_msg ''amy'' ''hi'' 1000)) targets"
proof -
  have auth: "{j \<in> live_sids (w_server two_users). is_authenticated (session_of two_users j)} = {0, 1}"
    by (auto simp: two_users_simps is_authenticated_def)
  have "table_ok (w_server two_users)"
    by (simp add: table_ok_def two_users_simps)
  from broadcast_delivery [OF _ this, of sample_platform 0 "request ''BROADCAST'' [] ''hi''" "''hi''"
      sample_env]
  show ?thesis
    unfolding auth
    by (force simp: request_values sample_platform_def two_users_simps is_authenticated_def
        MAX_MESSAGE_LEN_def sample_env_def)
qed

definition unique_online :: "server \<Rightarrow> bool" where
  "unique_online s \<longleftrightarrow> (\<forall>i \<in> live_sids s. \<forall>j \<in> live_sids s.
     username (heap s i) \<noteq> [] \<longrightarrow> username (heap s i) = username (heap s j) \<longrightarrow> i = j)"

lemma unique_online_reg: "unique_online s = reg.unique_names s"
  by (simp add: unique_online_def reg.unique_names_def name_at_def)

lemma server_find_live:
  assumes "iteration_order (pf_table_order pf)" "server_set (w_router w)"
    and "unique_online (w_server w)" "j \<in> live_sids (w_server w)" "username (session_of w j) \<noteq> []"
  shows "server_find pf (username (session_of w j)) w = Some j"
  using assms reg.find_unique [of "w_server w" j "username (session_of w j)" "pf_table_order pf"]
  by (simp add: server_find_def find_in_session unique_online_reg name_at_def)

lemma server_find_SomeD:
  assumes "iteration_order (pf_table_order pf)" "server_find pf u w = Some j"
  shows "j \<in> live_sids (w_server w) \<and> username (session_of w j) = u"
  using assms reg.find_Some [of "pf_table_order pf" u "w_server w" j]
  by (simp add: server_find_def find_in_session name_at_def split: if_splits)

lemma server_find_NoneD:
  assumes "iteration_order (pf_table_order pf)" "server_set (w_router w)"
    and "server_find pf u w = None" "j \<in> live_sids (w_server w)"
  shows "username (session_of w j) \<noteq> u"
  using assms reg.find_None [of "pf_table_order pf" u "w_server w" j]
  by (simp add: server_find_def find_in_session name_at_def)

text \<open>
  A private message goes to its addressee and back to its sender, and to nobody else: for
  an authenticated session in the table with an acceptable PRIVATE request to \<open>to\<close>, if a session
  named \<open>to\<close> is in the table, the message is sent to that session and then to the sender, and
  stored under the two names; otherwise the sender gets TARGET_OFFLINE and nothing is stored.
\<close>

theorem private_delivery:
  assumes "iteration_order (pf_table_order pf)" "table_ok (w_server w)" "server_set (w_router w)"
    and "unique_online (w_server w)" "i \<in> live_sids (w_server w)"
    and "is_authenticated (session_of w i)" "json_value msg ''type'' [] = Inr ''PRIVATE''"
    and "json_value msg ''to'' [] = Inr to" "json_value msg ''content'' [] = Inr content"
    and "to \<noteq> []" "content \<noteq> []" "length to \<le> MAX_USERNAME_LEN" "length content \<le> MAX_MESSAGE_LEN"
  shows "\<exists>w'. route pf env i msg w = (None, w') \<and>
    (let m = private_msg (username (session_of w i)) to content (clock env 0) in
     if \<exists>j \<in> live_sids (w_server w). username (session_of w j) = to
     then (\<forall>j \<in> live_sids (w_server w). username (session_of w j) = to \<longrightarrow>
         out (w_server w') = out (w_server w) @
           [(cs_fd (session_of w j), m), (cs_fd (session_of w i), m)]) \<and>
       w_db w' = store_message (step_done env) (username (session_of w i)) to content (clock env 0) (w_db w)
     else out (w_server w') = out (w_server w) @
           [(cs_fd (session_of w i), error_msg ''TARGET_OFFLINE'' txt_target_offline)] \<and>
       w_db w' = w_db w)"
proof (cases "\<exists>j \<in> live_sids (w_server w). username (session_of w j) = to")
  case True
  then obtain j where j: "j \<in> live_sids (w_server w)" "username (session_of w j) = to" by blast
  have find: "server_find pf to w = Some j"
    using server_find_live [OF assms(1,3,4) j(1)] j(2) assms(10) by simp
  have only: "k = j" if "k \<in> live_sids (w_server w)" "username (session_of w k) = to" for k
    using assms(4,10) j that by (auto simp: unique_online_def)
  let ?m = "private_msg (username (session_of w i)) to content (clock env 0)"
  let ?w1 = "w\<lparr>w_db := store_message (step_done env) (username (session_of w i)) to content
    (clock env 0) (w_db w)\<rparr>"
  let ?w2 = "server_send (cs_fd (session_of w i)) ?m (server_send (cs_fd (session_of w j)) ?m ?w1)"
  have "route pf env i msg w = (None, ?w2)"
    using assms(6-) find by (simp add: route_def handle_private_def Let_def get_username_def)
  moreover have "table_ok (emit (cs_fd (session_of w j)) ?m (w_server w))"
    "i \<in> live_sids (emit (cs_fd (session_of w j)) ?m (w_server w))"
    using assms(2,5) by (simp_all add: table_ok_def live_sids_def)
  then have "out (w_server ?w2) = out (w_server w) @
      [(cs_fd (session_of w j), ?m), (cs_fd (session_of w i), ?m)]"
    using assms(3) send_to_fd_live [OF assms(2) j(1), of ?m]
      send_to_fd_live [of "emit (cs_fd (session_of w j)) ?m (w_server w)" i ?m]
    by (simp add: server_send_def)
  moreover have "w_db ?w2 = store_message (step_done env) (username (session_of w i)) to content
    (clock env 0) (w_db w)" by simp
  ultimately show ?thesis
    using True only unfolding Let_def by metis
next
  case False
  then have "server_find pf to w = None"
    using server_find_SomeD [OF assms(1), of to w]
    by (cases "server_find pf to w") auto
  with False assms show ?thesis
    by (simp add: route_def handle_private_def Let_def)
qed

theorem private_delivery_witness:
  "\<exists>w'. route sample_platform sample_env 0 (json_object [(''type'', JString ''PRIVATE''),
       (''to'', JString ''bob''), (''content'', JString ''hi'')]) two_users = (None, w') \<and>
     out (w_server w') = out (w_server two_users) @
       [(8, private_msg ''amy'' ''bob'' ''hi'' 1000), (7, private_msg ''amy'' ''bob'' ''hi'' 1000)]"
proof -
  let ?m = "json_object [(''type'', JString ''PRIVATE''), (''to'', JString ''bob''),
    (''content'', JString ''hi'')]"
  have "table_ok (w_server two_users)" "unique_online (w_server two_users)"
    by (simp_all add: table_ok_def unique_online_def two_users_simps)
  then show ?thesis
    using private_delivery [of sample_platform two_users 0 ?m "''bob''" "''hi''" sample_env]
    by (auto simp: two_users_simps is_authenticated_def json_value_object sample_platform_def
        MAX_USERNAME_LEN_def MAX_MESSAGE_LEN_def sample_env_def Let_def)
qed

section \<open>Rejections and exceptions\<close>

text \<open>
  Before authentication only REGISTER and LOGIN do anything: any other message of an
  unauthenticated session with a string type leaves sessions, accounts, messages, online users,
  reservations and the rate limiter as they are; a PONG is ignored, everything else is answered
  to that session alone with NOT_AUTHENTICATED.
\<close>

theorem unauthenticated_whitelist:
  assumes "\<not> is_authenticated (session_of w i)" "json_value msg ''type'' [] = Inr t"
    and "t \<noteq> ''REGISTER''" "t \<noteq> ''LOGIN''"
  shows "\<exists>w'. route pf env i msg w = (None, w') \<and> quiet w w' \<and> w_router w' = w_router w \<and>
    heap (w_server w') = heap (w_server w) \<and>
    out (w_server w') = out (w_server w) @
      (if t = ''PONG'' then []
       else [(cs_fd (session_of w i), error_msg ''NOT_AUTHENTICATED'' txt_login_first)])"
  using assms by (auto simp: route_def)

theorem unauthenticated_whitelist_witness:
  "\<exists>w'. route sample_platform sample_env 1 (request ''BROADCAST'' ''bob'' ''hi'') (sample_world 2) = (None, w') \<and>
     quiet (sample_world 2) w' \<and>
     out (w_server w') = out (w_server (sample_world 2)) @
       [(8, error_msg ''NOT_AUTHENTICATED'' txt_login_first)]"
  using unauthenticated_whitelist [of "sample_world 2" 1 "request ''BROADCAST'' ''bob'' ''hi''"
      "''BROADCAST''" sample_platform sample_env]
  by (auto simp: sample_world_simps is_authenticated_def request_values)

lemma json_value_errors: "json_value m k d = Inl e \<Longrightarrow> e = TypeError 302 \<or> e = TypeError 306"
  by (cases m) (auto split: option.splits json.splits)

lemma hash_password_errors: "hash_password digest r p = Inl e \<Longrightarrow> e = rand_failure \<and> r = None"
  by (auto simp: hash_password_def generate_salt_def split: option.splits)

text \<open>
  C30. The exceptions of the dispatcher: what leaves \<open>route\<close> is one of the two type errors of
  \<open>value\<close>, and then nothing has changed and nothing has been sent; or it is the failure of the
  random generator during a REGISTER, and then accounts, messages and names are unchanged, but the
  session's pending login and the reservation of the name stay behind.
\<close>

theorem route_exceptions:
  assumes "route pf env i msg w = (Some e, w')"
  shows "((e = TypeError 302 \<or> e = TypeError 306) \<and> w' = w) \<or>
    (e = rand_failure \<and> rand env = None \<and> json_value msg ''type'' [] = Inr ''REGISTER'' \<and> quiet w w' \<and>
     out (w_server w') = out (w_server w) \<and>
     (\<exists>u. json_value msg ''from'' [] = Inr u \<and> u \<in> set (login_in_progress (w_router w')) \<and>
       pending_login (session_of w' i) = u))"
proof (cases "rand env = None \<and> e = rand_failure")
  case False
  then have "hash_password (pf_digest pf) (rand env) p \<noteq> Inl e" for p
    using hash_password_errors by blast
  with assms show ?thesis
    by (auto simp: route_def handle_register_def handle_login_def handle_broadcast_def
        handle_private_def handle_history_req_def Let_def
        split: sum.splits if_splits prod.splits option.splits bool.splits
        dest: json_value_errors)
next
  case True
  with assms have "handle_register pf env i msg w = (Some e, w') \<and>
      json_value msg ''type'' [] = Inr ''REGISTER''"
    by (auto simp: route_def handle_login_def handle_broadcast_def rand_failure_def
        handle_private_def handle_history_req_def Let_def
        split: sum.splits if_splits prod.splits option.splits dest: json_value_errors)
  with True show ?thesis
    by (auto simp: handle_register_def Let_def rand_failure_def set_pending_login_def
        split: sum.splits if_splits prod.splits bool.splits dest: json_value_errors)
qed

theorem route_exceptions_witness:
  "\<exists>w'. route sample_platform sample_env 0 (JArray []) two_users = (Some (TypeError 306), w') \<and> w' = two_users"
proof -
  have "route sample_platform sample_env 0 (JArray []) two_users = (Some (TypeError 306), two_users)"
    by (simp add: route_def)
  from route_exceptions [OF this] this show ?thesis by (auto simp: rand_failure_def)
qed

end
