(* ===== verification/ChatSpec.thy ===== *)
theory ChatSpec
  imports Prelude "HOL-Library.Sublist"
begin

text \<open>
  What the server promises to its users, without sockets, queues or tables: a chat service is a
  set of accounts, the people present, and the log of the messages. The account behind a name is
  given by \<open>key\<close> (the database cuts a name at a NUL byte). \<open>ServerInvariant\<close> shows that every
  step of the server is a step of this service or leaves it unchanged.
\<close>

section \<open>The service\<close>

type_synonym post = "string \<times> string \<times> string \<times> int"

record chat =
  registered :: "string \<rightharpoonup> string"
  presence :: "sid \<rightharpoonup> string"
  log :: "post list"

definition new_chat :: chat where
  "new_chat = \<lparr>registered = Map.empty, presence = Map.empty, log = []\<rparr>"

inductive chat_step :: "(string \<Rightarrow> string) \<Rightarrow> chat \<Rightarrow> chat \<Rightarrow> bool" for key where
  sign_up: "u \<noteq> [] \<Longrightarrow> presence c i = None \<Longrightarrow> registered c (key u) = None \<Longrightarrow>
    chat_step key c (c\<lparr>registered := (registered c)(key u \<mapsto> secret), presence := (presence c)(i \<mapsto> u)\<rparr>)"
| sign_in: "u \<noteq> [] \<Longrightarrow> presence c i = None \<Longrightarrow> registered c (key u) \<noteq> None \<Longrightarrow> u \<notin> ran (presence c) \<Longrightarrow>
    chat_step key c (c\<lparr>presence := (presence c)(i \<mapsto> u)\<rparr>)"
| sign_out: "presence c i = Some u \<Longrightarrow>
    chat_step key c (c\<lparr>presence := (presence c)(i := None)\<rparr>)"
| say: "presence c i = Some u \<Longrightarrow>
    chat_step key c (c\<lparr>log := log c @ [(key u, to, body, t)]\<rparr>)"

inductive_cases chat_stepE: "chat_step key c c'"

section \<open>What the service guarantees\<close>

definition chat_ok :: "(string \<Rightarrow> string) \<Rightarrow> chat \<Rightarrow> bool" where
  "chat_ok key c \<longleftrightarrow> inj_on (presence c) (dom (presence c)) \<and>
     (\<forall>u \<in> ran (presence c). key u \<in> dom (registered c)) \<and>
     (\<forall>p \<in> set (log c). fst p \<in> dom (registered c))"

lemma chat_ok_new: "chat_ok key new_chat"
  by (simp add: chat_ok_def new_chat_def)

lemma inj_presence_upd:
  assumes "inj_on m (dom m)" "m i = None" "u \<notin> ran m"
  shows "inj_on (m(i \<mapsto> u)) (dom (m(i \<mapsto> u)))"
  using assms by (auto simp: inj_on_def ran_def dom_def split: if_splits)

lemma chat_step_ok:
  assumes "chat_step key c c'" "chat_ok key c"
  shows "chat_ok key c'"
  using assms(1)
proof cases
  case (sign_up u i secret)
  then have "u \<notin> ran (presence c)" using assms(2) by (auto simp: chat_ok_def)
  with sign_up assms(2) show ?thesis
    by (auto simp: chat_ok_def inj_presence_upd simp del: dom_fun_upd dest: ran_map_upd)
next
  case (sign_in u i)
  with assms(2) show ?thesis
    by (auto simp: chat_ok_def inj_presence_upd simp del: dom_fun_upd)
next
  case (sign_out i u)
  with assms(2) show ?thesis
    by (auto simp: chat_ok_def inj_on_def ran_def dom_def split: if_splits)
next
  case (say i u to body t)
  with assms(2) show ?thesis by (auto simp: chat_ok_def ran_def)
qed

text \<open>Accounts and their secrets are for ever, and nothing is deleted from the log.\<close>

definition chat_grows :: "chat \<Rightarrow> chat \<Rightarrow> bool" where
  "chat_grows c c' \<longleftrightarrow> registered c \<subseteq>\<^sub>m registered c' \<and> prefix (log c) (log c')"

lemma chat_grows_refl [simp]: "chat_grows c c"
  by (simp add: chat_grows_def)

lemma chat_grows_trans: "chat_grows c c' \<Longrightarrow> chat_grows c' c'' \<Longrightarrow> chat_grows c c''"
  by (auto simp: chat_grows_def intro: map_le_trans prefix_order.trans)

lemma chat_step_grows: "chat_step key c c' \<Longrightarrow> chat_grows c c'"
  by (erule chat_stepE) (auto simp: chat_grows_def map_le_def)

end
