(* ===== verification/ServerInvariant.thy ===== *)
theory ServerInvariant
  imports ServerMain RouterLaws ChatSpec
begin

text \<open>
  The invariant of the whole server and what follows from it in every reachable state:
  the table maps descriptors to sessions that own them, the online list is exactly the set of
  names of the sessions in the table, no name is online twice, sessions that left the table are
  nobody, queued tasks of removed sessions are recognised as stale, only account holders are
  online and only account holders have written stored messages.
\<close>

section \<open>The invariant\<close>

definition accounts :: "world \<Rightarrow> string set" where
  "accounts w = fst ` set (users (w_db w))"

definition table_inv :: "server \<Rightarrow> bool" where
  "table_inv s \<longleftrightarrow> table_ok s \<and> (\<forall>i \<in> live_sids s. i < next_sid s) \<and>
     (\<forall>i. generation (heap s i) \<le> next_generation s) \<and>
     (\<forall>i. i \<notin> live_sids s \<longrightarrow> username (heap s i) = [])"

definition world_inv :: "world \<Rightarrow> bool" where
  "world_inv w \<longleftrightarrow> table_inv (w_server w) \<and> unique_online (w_server w) \<and>
     server_set (w_router w) \<and> distinct (online_users (w_router w)) \<and>
     set (online_users (w_router w)) = reg.names (w_server w) \<and>
     (\<forall>i. username (session_of w i) \<noteq> [] \<longrightarrow> c_str (username (session_of w i)) \<in> accounts w) \<and>
     (\<forall>r \<in> set (messages (w_db w)). from_user r \<in> accounts w) \<and>
     database_wf (w_db w)"

text \<open>
  A task in the queue or in a worker refers to a session that exists; once the session has left
  the table, its generation is beyond the one the task captured.
\<close>

definition task_inv :: "server \<Rightarrow> task \<Rightarrow> bool" where
  "task_inv s t \<longleftrightarrow> (case t of (i, g, msg) \<Rightarrow>
     i < next_sid s \<and> g \<le> generation (heap s i) \<and> (i \<notin> live_sids s \<longrightarrow> g < generation (heap s i)))"

definition sys_inv :: "system \<Rightarrow> bool" where
  "sys_inv s \<longleftrightarrow> world_inv (sys_world s) \<and>
     (\<forall>t \<in> set (tasks (sys_pool s)) \<union> set (running (sys_pool s)). task_inv (w_server (sys_world s)) t) \<and>
     stop_flag (sys_pool s) = False"

section \<open>Worlds that differ only in what the invariant does not see\<close>

lemma live_sids_cong [simp]:
  "live_sids (upd_session f i s) = live_sids s"
  "live_sids (broadcast order m ex s) = live_sids s"
  by (simp_all add: live_sids_def)

lemma names_cong:
  assumes "sessions s' = sessions s" "\<And>i. username (heap s' i) = username (heap s i)"
  shows "reg.names s' = reg.names s"
  using assms by (simp add: reg.names_def live_sids_def name_at_def)

definition server_same :: "server \<Rightarrow> server \<Rightarrow> bool" where
  "server_same s s' \<longleftrightarrow> sessions s' = sessions s \<and> next_sid s' = next_sid s \<and>
     next_generation s' = next_generation s \<and>
     (\<forall>i. cs_fd (heap s' i) = cs_fd (heap s i) \<and> generation (heap s' i) = generation (heap s i) \<and>
          username (heap s' i) = username (heap s i))"

lemma server_same_inv:
  assumes "server_same s s'"
  shows "table_inv s' = table_inv s" "unique_online s' = unique_online s"
    "reg.names s' = reg.names s" "task_inv s' t = task_inv s t"
  using assms
  by (auto simp: server_same_def table_inv_def table_ok_def unique_online_def live_sids_def
      reg.names_def name_at_def task_inv_def)

lemma world_inv_same:
  assumes "server_same (w_server w) (w_server w')" "online_users (w_router w') = online_users (w_router w)"
    and "server_set (w_router w') = server_set (w_router w)" "w_db w' = w_db w"
  shows "world_inv w' = world_inv w"
  using assms(2-) server_same_inv [OF assms(1)] assms(1)
  by (simp add: world_inv_def accounts_def server_same_def)

lemma quiet_server_same: "quiet w w' \<Longrightarrow> server_same (w_server w) (w_server w')"
  by (simp add: quiet_def server_same_def same_client_def)

lemma quiet_inv: "quiet w w' \<Longrightarrow> world_inv w' = world_inv w"
  by (intro world_inv_same quiet_server_same) (simp_all add: quiet_def)

section \<open>Preservation\<close>

lemma logged_in_inv [inv_intros]:
  assumes "world_inv w" "i \<in> live_sids (w_server w)" "username (session_of w i) = []" "u \<noteq> []"
    and "u \<notin> reg.names (w_server w)" "c_str u \<in> accounts w"
  shows "world_inv (logged_in i u w)"
proof -
  let ?s = "w_server (logged_in i u w)"
  have s: "?s = upd_session (set_username u) i (w_server w)" by (simp add: logged_in_def)
  have "unique_online ?s"
    using assms(1,5) unfolding s unique_online_reg world_inv_def by (blast intro: reg.login_unique)
  moreover have "reg.names ?s = insert u (reg.names (w_server w))"
    unfolding s using assms(2-4) by (intro reg.login_names) (simp_all add: name_at_def)
  ultimately show ?thesis
    using assms by (auto simp: world_inv_def table_inv_def table_ok_def logged_in_def accounts_def
        set_username_def live_sids_def split: if_splits)
qed

lemma logged_out_inv [inv_intros]:
  assumes "world_inv w" "i \<in> live_sids (w_server w)" "username (session_of w i) \<noteq> []"
  shows "world_inv (logged_out i w)"
proof -
  let ?s = "w_server (logged_out i w)"
  have s: "?s = upd_session (set_username []) i (w_server w)"
    by (simp add: logged_out_def upd_session_def clear_username_def set_username_def)
  have "unique_online ?s"
    using assms(1) unfolding s unique_online_reg world_inv_def by (blast intro: reg.logout_unique)
  moreover have "reg.names ?s = reg.names (w_server w) - {username (session_of w i)}"
    unfolding s using assms(1,2)
    by (subst reg.logout_names) (simp_all add: name_at_def world_inv_def unique_online_reg)
  ultimately show ?thesis
    using assms by (auto simp: world_inv_def table_inv_def table_ok_def logged_out_def accounts_def
        clear_username_def get_username_def live_sids_def split: if_splits)
qed

lemma register_inv [inv_intros]:
  assumes "world_inv w" "register_user b u h (w_db w) = (True, d)"
  shows "world_inv (w\<lparr>w_db := d\<rparr>)" "c_str u \<in> accounts (w\<lparr>w_db := d\<rparr>)"
proof -
  from assms(2) have d: "d = (w_db w)\<lparr>users := users (w_db w) @ [(c_str u, c_str h)]\<rparr>"
    by (simp add: register_user_True)
  have "database_wf d"
    using database_wf_register [of "w_db w" b u h] assms by (simp add: world_inv_def)
  with assms(1) show "world_inv (w\<lparr>w_db := d\<rparr>)"
    by (auto simp: world_inv_def d accounts_def)
  show "c_str u \<in> accounts (w\<lparr>w_db := d\<rparr>)" by (simp add: d accounts_def)
qed

lemma store_inv [inv_intros]:
  assumes "world_inv w" "username (session_of w i) \<noteq> []"
  shows "world_inv (w\<lparr>w_db := store_message b (get_username (session_of w i)) to c ts (w_db w)\<rparr>)"
  using assms database_wf_store [of "w_db w"]
  by (auto simp: world_inv_def accounts_def store_message_def get_username_def)

text \<open>A message of a session in the table keeps the invariant.\<close>

lemma effect_inv:
  assumes "effect pf env i msg w w'" "iteration_order (pf_table_order pf)" "world_inv w"
    and "i \<in> live_sids (w_server w)"
  shows "world_inv w'"
  using assms(1)
proof cases
  case nothing
  with assms(3) show ?thesis by (simp add: quiet_inv)
next
  case (signup u password h d)
  have fresh: "c_str u \<notin> accounts w"
    using signup by (simp add: register_user_True accounts_def)
  then have "u \<notin> reg.names (w_server w)"
    using assms(3) by (auto simp: world_inv_def reg.names_def name_at_def)
  then have "world_inv (logged_in i u (w\<lparr>w_db := d\<rparr>))"
    using register_inv [OF assms(3) signup(8)] signup assms(4)
    by (intro logged_in_inv) (simp_all add: is_authenticated_def)
  then show ?thesis using quiet_inv [OF signup(9)] by simp
next
  case (login u password)
  have "u \<notin> reg.names (w_server w)"
    using server_find_NoneD [OF assms(2) _ login(7)] assms(3)
    by (auto simp: reg.names_def name_at_def world_inv_def)
  moreover have "c_str u \<in> accounts w"
    using get_stored_hash_known [OF login(8)] by (simp add: accounts_def)
  ultimately have "world_inv (logged_in i u w)"
    using login assms(3,4) by (intro logged_in_inv) (simp_all add: is_authenticated_def)
  then show ?thesis using quiet_inv [OF login(10)] by simp
next
  case logout
  then have "world_inv (logged_out i w)"
    using assms(3,4) by (intro logged_out_inv) (simp_all add: is_authenticated_def)
  then show ?thesis using quiet_inv [OF logout(3)] by simp
next
  case (post content)
  then show ?thesis
    using store_inv [OF assms(3), of i] quiet_inv [OF post(6)] by (simp add: is_authenticated_def)
next
  case (whisper to content j)
  then show ?thesis
    using store_inv [OF assms(3), of i] quiet_inv [OF whisper(9)] by (simp add: is_authenticated_def)
qed

section \<open>Steps of the event loop\<close>

lemma recv_msgs_frame:
  assumes "recv_msgs parse net c = (r, c')"
  shows "cs_fd c' = cs_fd c" "generation c' = generation c" "username c' = username c"
    "pending_login c' = pending_login c"
  using assms by (auto simp: recv_msgs_def split: prod.splits drain_outcome.splits extract_outcome.splits)

lemma generation_less: "(n :: 64 word) < 2 ^ 63 \<Longrightarrow> n < n + 1"
  by (simp add: word_less_nat_alt unat_word_ariths)

text \<open>Accepting: the new session is fresh and nobody.\<close>

lemma accept_one_inv:
  assumes "table_inv s" "f \<notin> fst ` set (sessions s)" "next_generation s < 2 ^ 63"
  shows "table_inv (accept_one f ip ok s)"
    and "live_sids (accept_one f ip ok s) = live_sids s \<union> (if ok then {next_sid s} else {})"
proof -
  have gen: "next_generation s \<le> next_generation s + 1"
    using generation_less [OF assms(3)] by simp
  then have le: "generation (heap s i) \<le> next_generation s + 1" for i
    using assms(1) by (auto simp: table_inv_def intro: order_trans)
  have put: "alist_put f (next_sid s) (sessions s) = sessions s @ [(f, next_sid s)]"
    using assms(2) by (rule alist_put_fresh)
  have fresh: "next_sid s \<notin> live_sids s"
    using assms(1) by (auto simp: table_inv_def)
  show live: "live_sids (accept_one f ip ok s) = live_sids s \<union> (if ok then {next_sid s} else {})"
    by (auto simp: accept_one_def Let_def put live_sids_def)
  show "table_inv (accept_one f ip ok s)"
  proof (cases ok)
    case False
    with assms(1) le show ?thesis
      by (simp add: table_inv_def accept_one_def Let_def table_ok_def live_sids_def)
  next
    case True
    have "table_ok (accept_one f ip ok s)"
      using assms(1,2) fresh True
      by (auto simp: accept_one_def Let_def put table_ok_def table_inv_def live_sids_def new_session_def
          dest: imageI [where f = fst] imageI [where f = snd])
    with assms(1) le gen True show ?thesis
      by (auto simp: table_inv_def live) (auto simp: accept_one_def Let_def session_defs live_sids_def put)
  qed
qed

lemma accept_one_heap:
  "username (heap (accept_one f ip ok s) i) = (if ok \<and> i = next_sid s then [] else username (heap s i))"
  "generation (heap (accept_one f ip ok s) i) =
     (if ok \<and> i = next_sid s then next_generation s else generation (heap s i))"
  by (simp_all add: accept_one_def Let_def session_defs)

lemma accept_inv:
  assumes "world_inv w" "f \<notin> fst ` set (sessions (w_server w))" "next_generation (w_server w) < 2 ^ 63"
  shows "world_inv (on_server (accept_one f ip ok) w)"
proof -
  let ?s = "w_server w" and ?s' = "accept_one f ip ok (w_server w)"
  have t: "table_inv ?s" using assms(1) by (simp add: world_inv_def)
  then have fresh: "username (heap ?s (next_sid ?s)) = []"
    by (auto simp: table_inv_def)
  then have u: "username (heap ?s' i) = username (heap ?s i)" for i
    by (simp add: accept_one_heap)
  have live: "live_sids ?s' = live_sids ?s \<union> (if ok then {next_sid ?s} else {})"
    using accept_one_inv(2) [OF t assms(2,3)] .
  have "unique_online ?s'"
    using assms(1) fresh by (auto simp: world_inv_def unique_online_def live u)
  moreover have "reg.names ?s' = reg.names ?s"
    using fresh by (auto simp: reg.names_def live name_at_def u)
  ultimately show ?thesis
    using assms accept_one_inv(1) [OF t assms(2,3)] by (simp add: world_inv_def accounts_def u)
qed

lemma accept_task_inv:
  assumes "table_inv s" "task_inv s t" "f \<notin> fst ` set (sessions s)" "next_generation s < 2 ^ 63"
  shows "task_inv (accept_one f ip ok s) t"
proof -
  have "next_sid (accept_one f ip ok s) \<ge> next_sid s"
    by (simp add: accept_one_def Let_def)
  with assms(2) accept_one_inv(2) [OF assms(1,3,4), of ip ok] show ?thesis
    by (auto simp: task_inv_def accept_one_heap)
qed

text \<open>
  Removing: the first half leaves a named session outside the table, which the disconnect
  handler then logs out; afterwards the session is nobody and its generation is new.
\<close>

lemma remove_client_None:
  assumes "map_of (sessions (w_server w)) f = None"
  shows "remove_client pf env f w = on_server (\<lambda>s. s\<lparr>epoll_set := set_erase f (epoll_set s)\<rparr>) w"
  using assms by (simp add: remove_client_def remove_begin_def remove_end_def Let_def on_server_def)

lemma remove_client_Some:
  assumes "map_of (sessions (w_server w)) f = Some i"
  shows "username (session_of (remove_client pf env f w) j) =
      (if j = i then [] else username (session_of w j))"
    and "generation (session_of (remove_client pf env f w) j) =
      (if j = i then next_generation (w_server w) + 1 else generation (session_of w j))"
    and "cs_fd (session_of (remove_client pf env f w) j) = cs_fd (session_of w j)"
    and "next_sid (w_server (remove_client pf env f w)) = next_sid (w_server w)"
    and "next_generation (w_server (remove_client pf env f w)) = next_generation (w_server w) + 1"
    and "w_db (remove_client pf env f w) = w_db w"
    and "server_set (w_router (remove_client pf env f w)) = server_set (w_router w)"
    and "sessions (w_server (remove_client pf env f w)) = alist_erase f (sessions (w_server w))"
    and "online_users (w_router (remove_client pf env f w)) =
      (if username (session_of w i) = [] then online_users (w_router w)
       else set_erase (username (session_of w i)) (online_users (w_router w)))"
  using assms
  by (auto simp: remove_client_def remove_begin_def remove_end_def disconnect_handler_def Let_def
      session_defs cleanup_login_reservation_def)

lemma remove_live:
  assumes "table_ok s" "map_of (sessions s) f = Some i"
  shows "snd ` set (alist_erase f (sessions s)) = live_sids s - {i}" and "i \<in> live_sids s"
proof -
  have fi: "(f, i) \<in> set (sessions s)" using assms(2) by (rule map_of_SomeD)
  then show "i \<in> live_sids s" by (force simp: live_sids_def)
  have "k = f \<longleftrightarrow> j = i" if "(k, j) \<in> set (sessions s)" for k j
    using that fi assms(1) inj_onD [of fst "set (sessions s)" "(k, j)" "(f, i)"]
      inj_onD [of snd "set (sessions s)" "(k, j)" "(f, i)"]
    by (auto simp: table_ok_def distinct_map)
  then show "snd ` set (alist_erase f (sessions s)) = live_sids s - {i}"
    by (force simp: live_sids_def)
qed

lemma remove_table_inv:
  assumes "table_inv (w_server w)" "map_of (sessions (w_server w)) f = Some i"
    and "next_generation (w_server w) < 2 ^ 63"
  shows "table_inv (w_server (remove_client pf env f w))"
proof -
  let ?s' = "w_server (remove_client pf env f w)"
  note r = remove_client_Some [OF assms(2), of pf env]
  have ok: "table_ok (w_server w)" using assms(1) by (simp add: table_inv_def)
  have live: "live_sids ?s' = live_sids (w_server w) - {i}"
    using remove_live [OF ok assms(2)] by (simp add: live_sids_def r)
  have "generation (heap (w_server w) j) \<le> next_generation (w_server w) + 1" for j
    using assms(1) generation_less [OF assms(3)] by (auto simp: table_inv_def intro: order_trans)
  moreover have "table_ok ?s'"
    using ok by (auto simp: table_ok_def r distinct_alist_erase alist_erase_def distinct_map_filter)
  ultimately show ?thesis
    using assms(1) by (simp add: table_inv_def live r)
qed

lemma remove_client_inv:
  assumes "world_inv w" "next_generation (w_server w) < 2 ^ 63"
  shows "world_inv (remove_client pf env f w)"
proof (cases "map_of (sessions (w_server w)) f")
  case None
  have "server_same (w_server w) ((w_server w)\<lparr>epoll_set := set_erase f (epoll_set (w_server w))\<rparr>)"
    by (simp add: server_same_def)
  then show ?thesis
    using assms(1) world_inv_same [of w "remove_client pf env f w"]
    by (simp add: remove_client_None [OF None])
next
  case (Some i)
  let ?w' = "remove_client pf env f w"
  note r = remove_client_Some [OF Some, of pf env]
  have t: "table_inv (w_server w)" and ok: "table_ok (w_server w)"
    using assms(1) by (simp_all add: world_inv_def table_inv_def)
  have live: "live_sids (w_server ?w') = live_sids (w_server w) - {i}" "i \<in> live_sids (w_server w)"
    using remove_live [OF ok Some] by (simp_all add: live_sids_def r)
  have "unique_online (w_server ?w')"
    using assms(1) by (simp add: world_inv_def unique_online_def live r)
  moreover have "reg.names (w_server ?w') = reg.names (w_server w) - {username (session_of w i)}"
    using assms(1) live(2)
    by (auto simp: reg.names_def live name_at_def r world_inv_def unique_online_def)
  ultimately show ?thesis
    using assms(1) remove_table_inv [OF t Some assms(2), of pf env]
    by (auto simp: world_inv_def r accounts_def reg.names_def)
qed

lemma remove_client_task_inv:
  assumes "table_inv (w_server w)" "task_inv (w_server w) t" "next_generation (w_server w) < 2 ^ 63"
  shows "task_inv (w_server (remove_client pf env f w)) t"
proof (cases "map_of (sessions (w_server w)) f")
  case None
  then show ?thesis
    using assms(2) by (simp add: remove_client_None task_inv_def live_sids_def)
next
  case (Some i)
  note r = remove_client_Some [OF Some, of pf env]
  have "generation (session_of w i) < next_generation (w_server w) + 1"
    using assms(1) generation_less [OF assms(3)]
    by (auto simp: table_inv_def intro: le_less_trans)
  then show ?thesis
    using assms remove_live [OF _ Some]
    by (auto simp: task_inv_def r live_sids_def table_inv_def intro: order_trans le_less_trans)
qed

section \<open>Reachable states\<close>

lemma dispatch_msgs_pool:
  "dispatch_msgs i c msgs p = (e, p') \<Longrightarrow>
   workers p' = workers p \<and> stop_flag p' = stop_flag p \<and>
   (\<exists>ms. tasks p' = tasks p @ map (\<lambda>m. (i, generation c, m)) ms \<and> set ms \<subseteq> set msgs)"
proof (induction msgs arbitrary: p)
  case (Cons m msgs)
  let ?r = "if is_authenticated c then Inr [] else json_value m ''type'' []"
  show ?case
  proof (cases "enqueue (i, generation c, m) p")
    case (Inl e')
    with Cons.prems show ?thesis by (cases ?r) (auto simp: exI [where x = "[]"])
  next
    case (Inr p1)
    then have p1: "workers p1 = workers p" "stop_flag p1 = stop_flag p"
      "tasks p1 = tasks p @ [(i, generation c, m)]"
      by (auto simp: enqueue_def queue_push_def split: if_splits)
    show ?thesis
    proof (cases ?r)
      case Inl
      with Cons.prems show ?thesis by (auto simp: exI [where x = "[]"])
    next
      case r: (Inr t)
      with Cons.prems Inr have "dispatch_msgs i c msgs p1 = (e, p')" by simp
      from Cons.IH [OF this] p1 obtain ms where
        "workers p' = workers p" "stop_flag p' = stop_flag p" "set ms \<subseteq> set msgs"
        "tasks p' = tasks p @ map (\<lambda>m. (i, generation c, m)) (m # ms)" by auto
      then show ?thesis by (intro conjI exI [of _ "m # ms"]) auto
    qed
  qed
qed (auto simp: exI [where x = "[]"])

lemma recv_server_same:
  assumes "recv_msgs parse net (session_of w i) = (r, c)"
  shows "server_same (w_server w) (upd_session (\<lambda>_. c) i (w_server w))"
  using recv_msgs_frame [OF assms] by (auto simp: server_same_def)

lemma pool_step_tasks:
  assumes "pool_step p (Start k t) p'"
  shows "set (tasks p') \<union> set (running p') \<subseteq> set (tasks p) \<union> set (running p)" "t \<in> set (tasks p)"
    "stop_flag p' = stop_flag p"
proof -
  from assms obtain ts where k: "k < length (workers p)" "workers p ! k = Waiting"
    and wait: "worker_wait p = Take t ts"
    and p': "p' = p\<lparr>workers := (workers p)[k := Running t], tasks := ts\<rparr>"
    by (auto elim: pool_stepE)
  from wait have tasks: "tasks p = t # ts"
    by (auto simp: worker_wait_def queue_pop_def split: if_splits list.splits)
  then show "t \<in> set (tasks p)" by simp
  show "stop_flag p' = stop_flag p" by (simp add: p')
  have "set (running p') \<subseteq> insert t (set (running p))"
    using set_update_subset_insert [of "workers p" k "Running t"] by (auto simp: running_def p')
  then show "set (tasks p') \<union> set (running p') \<subseteq> set (tasks p) \<union> set (running p)"
    using tasks by (auto simp: p')
qed

lemma pool_finish_tasks:
  assumes "pool_step p (Finish k t) p'"
  shows "set (tasks p') \<union> set (running p') \<subseteq> set (tasks p) \<union> set (running p)"
    "stop_flag p' = stop_flag p"
proof -
  from assms have p': "p' = p\<lparr>workers := (workers p)[k := Waiting]\<rparr>"
    by (auto elim: pool_stepE)
  show "stop_flag p' = stop_flag p" by (simp add: p')
  show "set (tasks p') \<union> set (running p') \<subseteq> set (tasks p) \<union> set (running p)"
    using set_update_subset_insert [of "workers p" k Waiting] by (auto simp: running_def p')
qed

lemma effect_task_inv:
  assumes "effect pf env i msg w w'"
  shows "task_inv (w_server w') t = task_inv (w_server w) t"
  using effect_frame [OF assms] by (simp add: task_inv_def live_sids_def split: prod.splits)

text \<open>A worker that passes the generation check serves a session of the table.\<close>

lemma worker_task_cases:
  assumes "table_inv (w_server w)" "task_inv (w_server w) (i, g, msg)"
  obtains "worker_task pf env (i, g, msg) w = w" "generation (session_of w i) \<noteq> g"
  | "effect pf env i msg w (worker_task pf env (i, g, msg) w)" "i \<in> live_sids (w_server w)"
proof (cases "generation (session_of w i) = g")
  case True
  with assms(2) have "i \<in> live_sids (w_server w)" by (auto simp: task_inv_def)
  moreover have "effect pf env i msg w (worker_task pf env (i, g, msg) w)"
    using True route_effect [of pf env i msg w] by (cases "route pf env i msg w") (simp add: worker_task_def)
  ultimately show ?thesis by (rule that(2) [rotated])
next
  case False
  then show ?thesis by (intro that(1)) (simp_all add: worker_task_def)
qed

lemma sys_inv_initial: "initial_system n = Inr s \<Longrightarrow> sys_inv s"
  by (auto simp: initial_system_def thread_pool_def sys_inv_def world_inv_def initial_world_def
      table_inv_def table_ok_def unique_online_def live_sids_def new_server_def set_server_def
      new_router_def reg.names_def session_defs empty_database_def database_wf_def running_def
      split: if_splits)

lemma client_event_inv:
  assumes "sys_inv s" "next_generation (w_server (sys_world s)) < 2 ^ 63"
  shows "sys_inv (handle_client_event pf parse env net f s)"
proof (cases "map_of (sessions (w_server (sys_world s))) f")
  case None
  with assms(1) show ?thesis by (simp add: handle_client_event_def Let_def)
next
  case (Some i)
  let ?w = "sys_world s"
  obtain r c where rc: "recv_msgs parse net (session_of ?w i) = (r, c)" by fastforce
  let ?w1 = "on_server (upd_session (\<lambda>_. c) i) ?w"
  have same: "server_same (w_server ?w) (w_server ?w1)"
    using recv_server_same [OF rc] by simp
  then have w1: "world_inv ?w1" "\<And>t. task_inv (w_server ?w1) t = task_inv (w_server ?w) t"
    using assms(1) world_inv_same [of ?w ?w1] server_same_inv [OF same] by (simp_all add: sys_inv_def)
  have gen: "next_generation (w_server ?w1) < 2 ^ 63" using assms(2) by simp
  have t1: "table_inv (w_server ?w1)" using w1 by (simp add: world_inv_def)
  consider (threw) e where "r = Inl e" | (drop) "r = Inr None" | (msgs) ms where "r = Inr (Some ms)"
    by (cases r) auto
  then show ?thesis
  proof cases
    case threw
    with assms(1) w1 show ?thesis by (simp add: handle_client_event_def Let_def Some rc sys_inv_def)
  next
    case drop
    with assms(1) w1 t1 show ?thesis
      using remove_client_inv [OF w1(1) gen] remove_client_task_inv [OF t1 _ gen]
      by (simp add: handle_client_event_def Let_def Some rc sys_inv_def)
  next
    case msgs
    obtain e p where d: "dispatch_msgs i c ms (sys_pool s) = (e, p)" by fastforce
    from dispatch_msgs_pool [OF d] obtain ms' where
      p: "workers p = workers (sys_pool s)" "stop_flag p = stop_flag (sys_pool s)"
        "tasks p = tasks (sys_pool s) @ map (\<lambda>m. (i, generation c, m)) ms'" by blast
    have i: "i \<in> live_sids (w_server ?w)" using Some by (force simp: live_sids_def dest: map_of_SomeD)
    then have "i < next_sid (w_server ?w)" using assms(1)
      by (auto simp: sys_inv_def world_inv_def table_inv_def)
    then have "task_inv (w_server ?w1) (i, generation c, m)" for m
      using i by (simp add: task_inv_def)
    with msgs assms(1) w1 show ?thesis
      by (auto simp: handle_client_event_def Let_def Some rc d sys_inv_def p running_def)
  qed
qed

lemma sys_inv_step:
  assumes "sys_step pf parse s s'" "iteration_order (pf_table_order pf)" "sys_inv s"
  shows "sys_inv s'"
  using assms(1)
proof cases
  case (accept f ip ok)
  have "table_inv (w_server (sys_world s))" using assms(3) by (simp add: sys_inv_def world_inv_def)
  then show ?thesis
    using accept assms(3) accept_inv [of "sys_world s" f ip ok] accept_task_inv [of _ _ f ip ok]
    by (auto simp: sys_inv_def on_server_def)
next
  case (client_event env net f)
  with assms(3) show ?thesis by (simp add: client_event_inv)
next
  case heartbeat_fired
  have "server_same (w_server (sys_world s)) (heartbeat (pf_table_order pf) (w_server (sys_world s)))"
    by (simp add: server_same_def heartbeat_def)
  from server_same_inv [OF this] world_inv_same [of "sys_world s"
      "on_server (heartbeat (pf_table_order pf)) (sys_world s)"] this assms(3)
  show ?thesis by (simp add: heartbeat_fired sys_inv_def)
next
  case (task_start k t p env)
  obtain i g msg where t: "t = (i, g, msg)" by (cases t)
  note ps = pool_step_tasks [OF task_start(3)]
  have w: "world_inv (sys_world s)" and t_inv: "task_inv (w_server (sys_world s)) (i, g, msg)"
    using assms(3) ps(2) by (auto simp: sys_inv_def t)
  have table: "table_inv (w_server (sys_world s))" using w by (simp add: world_inv_def)
  let ?w' = "worker_task pf env (i, g, msg) (sys_world s)"
  have "world_inv ?w' \<and> (\<forall>t'. task_inv (w_server ?w') t' = task_inv (w_server (sys_world s)) t')"
    using worker_task_cases [OF table t_inv, of pf env thesis for thesis] w
      effect_inv [OF _ assms(2) w] effect_task_inv
    by (metis (no_types, lifting))
  with assms(3) ps show ?thesis
    by (auto simp: task_start t sys_inv_def)
next
  case (task_finish k t p)
  with assms(3) pool_finish_tasks [OF task_finish(3)] show ?thesis
    by (auto simp: sys_inv_def)
qed

lemma reachable_inv: "reachable pf parse s \<Longrightarrow> iteration_order (pf_table_order pf) \<Longrightarrow> sys_inv s"
  by (induction rule: reachable.induct) (auto intro: sys_inv_initial sys_inv_step)

section \<open>The server implements the chat service\<close>

definition chat_of :: "world \<Rightarrow> chat" where
  "chat_of w = \<lparr>registered = map_of (users (w_db w)),
     presence = (\<lambda>i. if i \<in> live_sids (w_server w) \<and> username (session_of w i) \<noteq> []
                     then Some (username (session_of w i)) else None),
     log = map (\<lambda>r. (from_user r, to_user r, row_content r, row_timestamp r)) (messages (w_db w))\<rparr>"

lemma chat_of_same:
  assumes "server_same (w_server w) (w_server w')" "w_db w' = w_db w"
  shows "chat_of w' = chat_of w"
  using assms by (simp add: chat_of_def server_same_def live_sids_def fun_eq_iff)

lemma chat_of_quiet: "quiet w w' \<Longrightarrow> chat_of w' = chat_of w"
  by (intro chat_of_same quiet_server_same) (simp_all add: quiet_def)

lemma chat_of_logged_in:
  "i \<in> live_sids (w_server w) \<Longrightarrow> u \<noteq> [] \<Longrightarrow>
   chat_of (logged_in i u w) = (chat_of w)\<lparr>presence := (presence (chat_of w))(i \<mapsto> u)\<rparr>"
  by (auto simp: chat_of_def logged_in_def set_username_def)

lemma chat_of_logged_out:
  "chat_of (logged_out i w) = (chat_of w)\<lparr>presence := (presence (chat_of w))(i := None)\<rparr>"
  by (auto simp: chat_of_def logged_out_def clear_username_def)

lemma chat_of_store:
  "chat_of (w\<lparr>w_db := store_message b u to c ts (w_db w)\<rparr>) =
     (if b then (chat_of w)\<lparr>log := log (chat_of w) @ [(c_str u, c_str to, c_str c, ts)]\<rparr> else chat_of w)"
  by (simp add: chat_of_def store_message_def cong: if_cong)

lemma ran_presence: "ran (presence (chat_of w)) = reg.names (w_server w)"
  by (auto simp: chat_of_def ran_def reg.names_def name_at_def)

text \<open>The effect of a dispatched message is a step of the service.\<close>

lemma effect_refines:
  assumes "effect pf env i msg w w'" "iteration_order (pf_table_order pf)" "world_inv w"
    and "i \<in> live_sids (w_server w)"
  shows "chat_of w' = chat_of w \<or> chat_step c_str (chat_of w) (chat_of w')"
  using assms(1)
proof cases
  case nothing
  then show ?thesis by (simp add: chat_of_quiet)
next
  case (signup u password h d)
  let ?c = "chat_of w"
  from signup(8) have d: "d = (w_db w)\<lparr>users := users (w_db w) @ [(c_str u, c_str h)]\<rparr>"
    and fresh: "c_str u \<notin> fst ` set (users (w_db w))" by (simp_all add: register_user_True)
  have "chat_of w' = ?c\<lparr>registered := (registered ?c)(c_str u \<mapsto> c_str h),
      presence := (presence ?c)(i \<mapsto> u)\<rparr>"
    using chat_of_quiet [OF signup(9)] chat_of_logged_in [of i "w\<lparr>w_db := d\<rparr>" u] assms(4) signup(5)
    by (simp add: chat_of_def d map_of_append_fresh [OF fresh] del: map_of_append cong: if_cong)
  moreover have "chat_step c_str ?c (?c\<lparr>registered := (registered ?c)(c_str u \<mapsto> c_str h),
      presence := (presence ?c)(i \<mapsto> u)\<rparr>)"
    using fresh signup(1,5)
    by (intro chat_step.sign_up) (simp_all add: chat_of_def map_of_eq_None_iff is_authenticated_def)
  ultimately show ?thesis by simp
next
  case (login u password)
  let ?c = "chat_of w"
  have "u \<notin> reg.names (w_server w)"
    using server_find_NoneD [OF assms(2) _ login(7)] assms(3)
    by (auto simp: reg.names_def name_at_def world_inv_def)
  moreover have "map_of (users (w_db w)) (c_str u) \<noteq> None"
    using get_stored_hash_known [OF login(8)] by (simp add: map_of_eq_None_iff)
  ultimately have "chat_step c_str ?c (?c\<lparr>presence := (presence ?c)(i \<mapsto> u)\<rparr>)"
    using login(1,5) unfolding ran_presence [symmetric]
    by (intro chat_step.sign_in) (simp_all add: chat_of_def is_authenticated_def)
  then show ?thesis
    using chat_of_quiet [OF login(10)] chat_of_logged_in [OF assms(4) login(5)] by simp
next
  case logout
  let ?c = "chat_of w"
  have "chat_step c_str ?c (?c\<lparr>presence := (presence ?c)(i := None)\<rparr>)"
    using logout(1) assms(4)
    by (intro chat_step.sign_out [where u = "username (session_of w i)"])
       (simp add: chat_of_def is_authenticated_def)
  then show ?thesis
    using chat_of_quiet [OF logout(3)] by (simp add: chat_of_logged_out)
next
  case (post content)
  have "presence (chat_of w) i = Some (get_username (session_of w i))"
    using post(1) assms(4) by (simp add: chat_of_def is_authenticated_def get_username_def)
  from chat_step.say [OF this] chat_of_quiet [OF post(6)] show ?thesis by (simp add: chat_of_store)
next
  case (whisper to content j)
  have "presence (chat_of w) i = Some (get_username (session_of w i))"
    using whisper(1) assms(4) by (simp add: chat_of_def is_authenticated_def get_username_def)
  from chat_step.say [OF this] chat_of_quiet [OF whisper(9)] show ?thesis by (simp add: chat_of_store)
qed

lemma chat_of_accept:
  assumes "world_inv w" "f \<notin> fst ` set (sessions (w_server w))" "next_generation (w_server w) < 2 ^ 63"
  shows "chat_of (on_server (accept_one f ip ok) w) = chat_of w"
proof -
  let ?s = "w_server w"
  have t: "table_inv ?s" using assms(1) by (simp add: world_inv_def)
  then have "username (heap ?s (next_sid ?s)) = []" by (auto simp: table_inv_def)
  then show ?thesis
    by (auto simp: chat_of_def accept_one_inv(2) [OF t assms(2,3)] accept_one_heap fun_eq_iff)
qed

lemma chat_of_remove:
  assumes "world_inv w"
  shows "chat_of (remove_client pf env f w) = chat_of w \<or>
    chat_step c_str (chat_of w) (chat_of (remove_client pf env f w))"
proof (cases "map_of (sessions (w_server w)) f")
  case None
  then show ?thesis by (simp add: remove_client_None chat_of_def live_sids_def cong: if_cong)
next
  case (Some i)
  let ?w' = "remove_client pf env f w"
  note r = remove_client_Some [OF Some, of pf env]
  have ok: "table_ok (w_server w)" using assms by (simp add: world_inv_def table_inv_def)
  have live: "live_sids (w_server ?w') = live_sids (w_server w) - {i}" "i \<in> live_sids (w_server w)"
    using remove_live [OF ok Some] by (simp_all add: live_sids_def r)
  have c: "chat_of ?w' = (chat_of w)\<lparr>presence := (presence (chat_of w))(i := None)\<rparr>"
    by (auto simp: chat_of_def live r)
  show ?thesis
  proof (cases "username (session_of w i) = []")
    case True
    then have "chat_of ?w' = chat_of w" unfolding c by (auto simp: chat_of_def)
    then show ?thesis ..
  next
    case False
    then have "presence (chat_of w) i = Some (username (session_of w i))"
      using live(2) by (simp add: chat_of_def)
    from chat_step.sign_out [OF this] show ?thesis by (simp add: c)
  qed
qed

lemma chat_of_client_event:
  assumes "sys_inv s"
  shows "chat_of (sys_world (handle_client_event pf parse env net f s)) = chat_of (sys_world s) \<or>
    chat_step c_str (chat_of (sys_world s)) (chat_of (sys_world (handle_client_event pf parse env net f s)))"
proof (cases "map_of (sessions (w_server (sys_world s))) f")
  case None
  then show ?thesis by (simp add: handle_client_event_def Let_def)
next
  case (Some i)
  let ?w = "sys_world s"
  obtain r c where rc: "recv_msgs parse net (session_of ?w i) = (r, c)" by fastforce
  let ?w1 = "on_server (upd_session (\<lambda>_. c) i) ?w"
  have same: "server_same (w_server ?w) (w_server ?w1)" using recv_server_same [OF rc] by simp
  then have "world_inv ?w1" "chat_of ?w1 = chat_of ?w"
    using assms world_inv_same [of ?w ?w1] by (simp_all add: chat_of_same sys_inv_def)
  then show ?thesis
    using chat_of_remove [of ?w1 pf env f]
    by (auto simp: handle_client_event_def Let_def Some rc split: sum.splits option.splits prod.splits)
qed

lemma step_refines:
  assumes "sys_step pf parse s s'" "iteration_order (pf_table_order pf)" "sys_inv s"
  shows "chat_of (sys_world s') = chat_of (sys_world s) \<or>
    chat_step c_str (chat_of (sys_world s)) (chat_of (sys_world s'))"
  using assms(1)
proof cases
  case (accept f ip ok)
  then show ?thesis
    using assms(3) chat_of_accept [of "sys_world s" f ip ok] by (simp add: sys_inv_def on_server_def)
next
  case (client_event env net f)
  with assms(3) show ?thesis by (simp add: chat_of_client_event)
next
  case heartbeat_fired
  then show ?thesis by (simp add: chat_of_def heartbeat_def cong: if_cong)
next
  case (task_start k t p env)
  obtain i g msg where t: "t = (i, g, msg)" by (cases t)
  have w: "world_inv (sys_world s)" and t_inv: "task_inv (w_server (sys_world s)) (i, g, msg)"
    using assms(3) pool_step_tasks(2) [OF task_start(3)] by (auto simp: sys_inv_def t)
  have table: "table_inv (w_server (sys_world s))" using w by (simp add: world_inv_def)
  show ?thesis
    by (rule worker_task_cases [OF table t_inv, of pf env])
       (use effect_refines [OF _ assms(2) w] in \<open>auto simp: task_start t\<close>)
next
  case (task_finish k t p)
  then show ?thesis by simp
qed

end
