(* ===== verification/FineServer.thy ===== *)
theory FineServer
  imports FineHandlers ServerInvariant
begin

text \<open>
  The server with every thread at the grain of its atomic steps: the event loop thread
  (\<open>handle_client_event\<close>, \<open>remove_client\<close>, the heartbeat) and any number of workers, each of which
  runs the program of the task it took, interleaved in any way. Every execution of the coarse
  server of \<open>ServerMain\<close> is one of these. What every interleaving keeps is shown in \<open>FineSafety\<close>.
\<close>

section \<open>The event loop's programs\<close>

text \<open>
  The dispatch loop: for each message the type is read if the session is not authenticated, then
  a task with the session's generation is enqueued.
\<close>

fun dispatch_prog :: "sid \<Rightarrow> json list \<Rightarrow> (world \<times> task pool) prog" where
  "dispatch_prog i [] = Done None"
| "dispatch_prog i (msg # msgs) =
     ask (\<lambda>(w, p). is_authenticated (session_of w i)) (\<lambda>auth.
       case (if auth then Inr [] else json_value msg ''type'' []) of
         Inl e \<Rightarrow> Done (Some e)
       | Inr t \<Rightarrow> Step (\<lambda>(w, p).
           case enqueue (i, generation (session_of w i), msg) p of
             Inl e \<Rightarrow> (Done (Some e), (w, p))
           | Inr p' \<Rightarrow> (dispatch_prog i msgs, (w, p'))))"

text \<open>
  \<open>handle_client_event\<close>. The receive buffer and the failure counter of a session belong to the
  loop thread, so draining and extracting is one step.
\<close>

definition client_event_prog ::
  "platform \<Rightarrow> (string \<Rightarrow> parse_outcome) \<Rightarrow> call_env \<Rightarrow> (nat \<Rightarrow> recv_result) \<Rightarrow> fd \<Rightarrow>
     (world \<times> task pool) prog" where
  "client_event_prog pf parse env net f =
     ask (\<lambda>(w, p). map_of (sessions (w_server w)) f) (\<lambda>session.
       case session of None \<Rightarrow> Done None
       | Some i \<Rightarrow> Step (\<lambda>(w, p).
           case recv_msgs parse net (session_of w i) of
             (r, c) \<Rightarrow>
               ((case r of
                   Inl e \<Rightarrow> Done (Some e)
                 | Inr None \<Rightarrow> lift_prog (remove_client_prog pf env f)
                 | Inr (Some msgs) \<Rightarrow> dispatch_prog i msgs),
                (on_server (upd_session (\<lambda>_. c) i) w, p))))"

definition heartbeat_prog :: "platform \<Rightarrow> (world \<times> task pool) prog" where
  "heartbeat_prog pf = lift_prog
     (ask (\<lambda>w. broadcast_targets (pf_table_order pf) [] (w_server w))
       (send_each (json_object [(''type'', JString ''PING'')])))"

section \<open>All threads\<close>

record fine =
  fw :: world
  fpool :: "task pool"
  floop :: "(world \<times> task pool) prog"
  jobs :: "nat \<Rightarrow> world prog"
  heard :: "task set"

text \<open>
  \<open>heard\<close> is bookkeeping for the statements below: the tasks that were ever in the queue.
\<close>

definition loop_crashed :: "fine \<Rightarrow> bool" where
  "loop_crashed s \<longleftrightarrow> (\<exists>e. floop s = Done (Some e))"

inductive fine_step :: "platform \<Rightarrow> (string \<Rightarrow> parse_outcome) \<Rightarrow> fine \<Rightarrow> fine \<Rightarrow> bool" for pf parse where
  f_accept: "floop s = Done None \<Longrightarrow> f \<notin> fst ` set (sessions (w_server (fw s))) \<Longrightarrow> 0 \<le> f \<Longrightarrow>
    next_generation (w_server (fw s)) < 2 ^ 63 \<Longrightarrow>
    fine_step pf parse s
      (s\<lparr>fw := on_server (handle_new_connection [Accepted f ip ok, AcceptAgain]) (fw s)\<rparr>)"
| f_event: "floop s = Done None \<Longrightarrow> next_generation (w_server (fw s)) < 2 ^ 63 \<Longrightarrow>
    fine_step pf parse s (s\<lparr>floop := client_event_prog pf parse env net f\<rparr>)"
| f_ping: "floop s = Done None \<Longrightarrow> fine_step pf parse s (s\<lparr>floop := heartbeat_prog pf\<rparr>)"
| f_loop: "floop s = Step f \<Longrightarrow> f (fw s, fpool s) = (p, (w, q)) \<Longrightarrow>
    fine_step pf parse s (s\<lparr>floop := p, fw := w, fpool := q, heard := heard s \<union> set (tasks q)\<rparr>)"
| f_start: "\<not> loop_crashed s \<Longrightarrow> pool_step (fpool s) (Start k t) q \<Longrightarrow>
    fine_step pf parse s (s\<lparr>fpool := q, jobs := (jobs s)(k := task_prog pf env t)\<rparr>)"
| f_work: "\<not> loop_crashed s \<Longrightarrow> jobs s k = Step f \<Longrightarrow> f (fw s) = (p, w) \<Longrightarrow>
    fine_step pf parse s (s\<lparr>fw := w, jobs := (jobs s)(k := p)\<rparr>)"
| f_finish: "\<not> loop_crashed s \<Longrightarrow> jobs s k = Done e \<Longrightarrow> pool_step (fpool s) (Finish k t) q \<Longrightarrow>
    fine_step pf parse s (s\<lparr>fpool := q\<rparr>)"

definition fine_run :: "platform \<Rightarrow> (string \<Rightarrow> parse_outcome) \<Rightarrow> fine \<Rightarrow> fine \<Rightarrow> bool" where
  "fine_run pf parse = (fine_step pf parse)\<^sup>*\<^sup>*"

text \<open>A coarse state as a fine one: the loop and every worker are between two programs.\<close>

definition at_rest :: "system \<Rightarrow> fine" where
  "at_rest s = \<lparr>fw = sys_world s, fpool = sys_pool s, floop = Done (crashed s), jobs = (\<lambda>_. Done None),
     heard = set (tasks (sys_pool s))\<rparr>"

inductive fine_reachable :: "platform \<Rightarrow> (string \<Rightarrow> parse_outcome) \<Rightarrow> fine \<Rightarrow> bool" for pf parse where
  f_initial: "initial_system n = Inr s \<Longrightarrow> fine_reachable pf parse (at_rest s)"
| f_next: "fine_reachable pf parse s \<Longrightarrow> fine_step pf parse s s' \<Longrightarrow> fine_reachable pf parse s'"

section \<open>Run alone, the programs are the operations\<close>

lemma run_task: "snd (run (task_prog pf env t) w) = worker_task pf env t w"
  by (auto simp: task_prog_def worker_task_def split: prod.split)

lemma run_remove_client [simp]: "run (remove_client_prog pf env f) w = (None, remove_client pf env f w)"
  by (auto simp: remove_client_prog_def remove_client_def Let_def split: prod.split option.split)

lemma run_dispatch [simp]:
  "run (dispatch_prog i msgs) (w, p) =
     (case dispatch_msgs i (session_of w i) msgs p of (e, p') \<Rightarrow> (e, (w, p')))"
  by (induction msgs arbitrary: p) (auto split: sum.split)

lemma run_client_event:
  assumes "crashed s = None"
  shows "(case run (client_event_prog pf parse env net f) (sys_world s, sys_pool s) of
      (e, (w, p)) \<Rightarrow> s\<lparr>sys_world := w, sys_pool := p, crashed := e\<rparr>) = handle_client_event pf parse env net f s"
proof -
  obtain w p where s: "s = \<lparr>sys_world = w, sys_pool = p, crashed = None\<rparr>"
    using assms by (cases s) auto
  show ?thesis
  proof (cases "map_of (sessions (w_server w)) f")
    case None
    then show ?thesis by (simp add: client_event_prog_def handle_client_event_def s)
  next
    case (Some i)
    obtain r c where r: "recv_msgs parse net (session_of w i) = (r, c)" by fastforce
    show ?thesis
    proof (cases r)
      case (Inl e)
      with Some r show ?thesis by (simp add: client_event_prog_def handle_client_event_def s)
    next
      case (Inr m)
      with Some r show ?thesis
        by (cases m) (auto simp: client_event_prog_def handle_client_event_def s split: prod.split)
    qed
  qed
qed

section \<open>Coarse executions\<close>

definition rests :: "system \<Rightarrow> fine \<Rightarrow> bool" where
  "rests s F \<longleftrightarrow> fw F = sys_world s \<and> fpool F = sys_pool s \<and> floop F = Done (crashed s) \<and>
     (\<forall>k. ended (jobs F k))"

lemma fine_run_refl [simp]: "fine_run pf parse s s"
  by (simp add: fine_run_def)

lemma fine_run_step: "fine_step pf parse s s' \<Longrightarrow> fine_run pf parse s' s'' \<Longrightarrow> fine_run pf parse s s''"
  unfolding fine_run_def by (rule converse_rtranclp_into_rtranclp)

lemma fine_run_reachable: "fine_run pf parse s s' \<Longrightarrow> fine_reachable pf parse s \<Longrightarrow> fine_reachable pf parse s'"
  unfolding fine_run_def by (induction rule: rtranclp_induct) (auto intro: f_next)

lemma job_runs:
  assumes "\<not> loop_crashed F" "jobs F k = p"
  shows "fine_run pf parse F (F\<lparr>fw := snd (run p (fw F)), jobs := (jobs F)(k := Done (fst (run p (fw F))))\<rparr>)"
  using assms
proof (induction p arbitrary: F rule: prog_induct)
  case (Done e)
  then have "(jobs F)(k := Done e) = jobs F" by (simp add: fun_upd_idem)
  then show ?case by simp
next
  case (Step f)
  obtain p w where f: "f (fw F) = (p, w)" by fastforce
  let ?F = "F\<lparr>fw := w, jobs := (jobs F)(k := p)\<rparr>"
  have "fine_run pf parse ?F (F\<lparr>fw := snd (run p w), jobs := (jobs F)(k := Done (fst (run p w)))\<rparr>)"
    using Step.IH [of ?F "fw F"] Step.prems f
    by (simp add: loop_crashed_def fun_upd_def cong: if_cong)
  from fine_run_step [OF f_work [OF Step.prems f, of pf parse] this] f show ?case
    by (simp add: fun_upd_def)
qed

lemma loop_runs:
  assumes "floop F = p" "run p (fw F, fpool F) = (e, (w, q))"
  shows "\<exists>F'. fine_run pf parse F F' \<and> fw F' = w \<and> fpool F' = q \<and> floop F' = Done e \<and> jobs F' = jobs F"
  using assms
proof (induction p arbitrary: F rule: prog_induct)
  case (Done e')
  then show ?case by (intro exI [of _ F]) auto
next
  case (Step f)
  obtain p w' q' where f: "f (fw F, fpool F) = (p, (w', q'))" by (metis prod_cases3)
  let ?F = "F\<lparr>floop := p, fw := w', fpool := q', heard := heard F \<union> set (tasks q')\<rparr>"
  obtain F' where F': "fine_run pf parse ?F F'" "fw F' = w" "fpool F' = q" "floop F' = Done e"
      "jobs F' = jobs ?F"
    using Step.IH [of ?F "(fw F, fpool F)"] Step.prems(2) f by auto
  have "fine_run pf parse F F'"
    using f_loop [OF Step.prems(1) f] F'(1) by (rule fine_run_step)
  with F' show ?case by (intro exI [of _ F']) simp
qed

lemma coarse_step:
  assumes "sys_step pf parse s s'" "rests s F"
  shows "\<exists>F'. fine_run pf parse F F' \<and> rests s' F'"
  using assms(1)
proof cases
  case (accept f ip ok)
  let ?F = "F\<lparr>fw := on_server (handle_new_connection [Accepted f ip ok, AcceptAgain]) (fw F)\<rparr>"
  have "fine_step pf parse F ?F"
    using accept assms(2) by (intro f_accept) (simp_all add: rests_def)
  then have "fine_run pf parse F ?F" by (rule fine_run_step) simp
  with accept assms(2) show ?thesis by (intro exI [of _ ?F]) (simp add: rests_def)
next
  case (client_event env net f)
  let ?F = "F\<lparr>floop := client_event_prog pf parse env net f\<rparr>"
  have step: "fine_step pf parse F ?F"
    using client_event assms(2) by (intro f_event) (simp_all add: rests_def)
  obtain e w q where r: "run (client_event_prog pf parse env net f) (sys_world s, sys_pool s) = (e, (w, q))"
    by (metis prod_cases3)
  then obtain F' where F': "fine_run pf parse ?F F'" "fw F' = w" "fpool F' = q" "floop F' = Done e"
      "jobs F' = jobs F"
    using loop_runs [of ?F _ e w q pf parse, OF refl] r assms(2) by (auto simp: rests_def)
  have "s' = s\<lparr>sys_world := w, sys_pool := q, crashed := e\<rparr>"
    using run_client_event [OF client_event(2), of pf parse env net f] client_event(1) r by simp
  with F' assms(2) have "rests s' F'" by (simp add: rests_def)
  with fine_run_step [OF step F'(1)] show ?thesis by blast
next
  case heartbeat_fired
  let ?F = "F\<lparr>floop := heartbeat_prog pf\<rparr>"
  have step: "fine_step pf parse F ?F"
    using heartbeat_fired assms(2) by (intro f_ping) (simp add: rests_def)
  have r: "run (heartbeat_prog pf) (sys_world s, sys_pool s) =
      (None, (on_server (heartbeat (pf_table_order pf)) (sys_world s), sys_pool s))"
    by (simp add: heartbeat_prog_def heartbeat_def broadcast_def on_server_def)
  obtain F' where F': "fine_run pf parse ?F F'"
      "fw F' = on_server (heartbeat (pf_table_order pf)) (sys_world s)" "fpool F' = sys_pool s"
      "floop F' = Done None" "jobs F' = jobs F"
    using loop_runs [of ?F _ None _ _ pf parse, OF refl] r assms(2) by (auto simp: rests_def)
  with heartbeat_fired assms(2) have "rests s' F'" by (simp add: rests_def)
  with fine_run_step [OF step F'(1)] show ?thesis by blast
next
  case (task_start k t p env)
  let ?F = "F\<lparr>fpool := p, jobs := (jobs F)(k := task_prog pf env t)\<rparr>"
  let ?F' = "?F\<lparr>fw := snd (run (jobs ?F k) (fw ?F)), jobs := (jobs ?F)(k := Done (fst (run (jobs ?F k) (fw ?F))))\<rparr>"
  have "fine_step pf parse F ?F"
    using task_start assms(2) by (intro f_start) (simp_all add: rests_def loop_crashed_def)
  moreover have "fine_run pf parse ?F ?F'"
    using task_start assms(2) by (intro job_runs) (simp_all add: rests_def loop_crashed_def)
  ultimately have "fine_run pf parse F ?F'" by (rule fine_run_step)
  moreover have "rests s' ?F'"
    using task_start assms(2) run_task [of pf env t "sys_world s"] by (simp add: rests_def)
  ultimately show ?thesis by blast
next
  case (task_finish k t p)
  let ?F = "F\<lparr>fpool := p\<rparr>"
  obtain e where "jobs F k = Done e" using assms(2) by (auto simp: rests_def ended_def)
  then have "fine_step pf parse F ?F"
    using task_finish assms(2) by (intro f_finish) (simp_all add: rests_def loop_crashed_def)
  then have "fine_run pf parse F ?F" by (rule fine_run_step) simp
  with task_finish assms(2) show ?thesis by (intro exI [of _ ?F]) (simp add: rests_def)
qed

end
