(* ===== verification/ServerSafety.thy ===== *)
theory ServerSafety
  imports ServerInvariant
begin

text \<open>
  The guarantees of the running server, over every reachable state, and two things it does not
  guarantee: a single malformed message of a stranger ends the process, and a reservation can
  outlive every session. A small concrete run serves the witnesses.
\<close>

section \<open>A concrete run\<close>

definition demo_request :: json where
  "demo_request = request ''REGISTER'' ''amy'' ''pw''"

definition demo_parse :: "string \<Rightarrow> parse_outcome" where
  "demo_parse s = Parsed demo_request"

definition demo0 :: system where
  "demo0 = \<lparr>sys_world = initial_world,
     sys_pool = \<lparr>workers = [Waiting], tasks = [], stop_flag = False\<rparr>, crashed = None\<rparr>"

definition demo1 :: system where
  "demo1 = demo0\<lparr>sys_world := on_server
     (handle_new_connection [Accepted 7 ''10.0.0.1'' True, AcceptAgain]) (sys_world demo0)\<rparr>"

definition demo2 :: system where
  "demo2 = handle_client_event sample_platform demo_parse sample_env (serve [server_frame [120]]) 7 demo1"

definition demo3 :: system where
  "demo3 = demo2\<lparr>sys_world := worker_task sample_platform sample_env (0, 1, demo_request) (sys_world demo2),
     sys_pool := (sys_pool demo2)\<lparr>workers := [Running (0, 1, demo_request)], tasks := []\<rparr>\<rparr>"

definition demo_session :: client_session where
  "demo_session = \<lparr>cs_fd = 7, recv_buf = [], generation = 1, parse_failures = 0,
     ip_address = ''10.0.0.1'', username = [], pending_login = []\<rparr>"

lemma demo1_simps:
  "sessions (w_server (sys_world demo1)) = [(7, 0)]"
  "session_of (sys_world demo1) 0 = demo_session"
  "next_generation (w_server (sys_world demo1)) = 2"
  "w_router (sys_world demo1) = set_server new_router" "w_db (sys_world demo1) = empty_database"
  "crashed demo1 = None" "sys_pool demo1 = sys_pool demo0" "next_sid (w_server (sys_world demo1)) = 1"
  by (simp_all add: demo1_def demo0_def initial_world_def accept_one_def Let_def new_server_def
      new_session_def demo_session_def)

lemma demo_recv: "recv_msgs demo_parse (serve [server_frame [120]]) demo_session =
    (Inr (Some [demo_request]), demo_session)"
proof -
  have "splits next_frame (server_frame [120]) [[120]] []"
    using srv.splits_frames [of "[[120]]" "[]"] next_frame_Nil by (simp add: body_ok_def MAX_BODY_LEN_def)
  then show ?thesis
    using recv_msgs_serve [of "[server_frame [120]]" demo_session "[[120]]" "[]" demo_parse "[demo_request]"]
    by (simp add: demo_session_def demo_parse_def server_frame_def MAX_RECV_BUF_SIZE_def)
qed

lemma demo2_eq: "demo2 = demo1\<lparr>sys_pool := (sys_pool demo0)\<lparr>tasks := [(0, 1, demo_request)]\<rparr>\<rparr>"
proof -
  have "upd_session (\<lambda>_. demo_session) 0 (w_server (sys_world demo1)) = w_server (sys_world demo1)"
    using fun_upd_triv [of "heap (w_server (sys_world demo1))" 0] demo1_simps(2)
    by (simp add: upd_session_def)
  then show ?thesis
    by (simp add: demo2_def handle_client_event_def demo1_simps demo_recv Let_def on_server_def)
       (simp add: demo_session_def session_defs demo_request_def request_values enqueue_def demo0_def
         queue_push_def demo1_def)
qed

lemma demo_reachable:
  "reachable sample_platform demo_parse demo1" "reachable sample_platform demo_parse demo2"
  "sys_step sample_platform demo_parse demo2 demo3"
proof -
  have "initial_system 1 = Inr demo0"
    by (simp add: initial_system_def thread_pool_def demo0_def)
  then have 0: "reachable sample_platform demo_parse demo0" by (rule reachable.start)
  have "sys_step sample_platform demo_parse demo0 demo1"
    unfolding demo1_def
    by (rule sys_step.accept) (simp_all add: demo0_def initial_world_def new_server_def)
  with 0 show 1: "reachable sample_platform demo_parse demo1" by (rule reachable.step)
  have "sys_step sample_platform demo_parse demo1 demo2"
    unfolding demo2_def by (rule sys_step.client_event) (simp_all add: demo1_simps)
  with 1 show "reachable sample_platform demo_parse demo2" by (rule reachable.step)
  have "pool_step (sys_pool demo2) (Start 0 (0, 1, demo_request))
      ((sys_pool demo2)\<lparr>workers := (workers (sys_pool demo2))[0 := Running (0, 1, demo_request)], tasks := []\<rparr>)"
    by (rule pool_step.start)
       (simp_all add: demo2_eq demo0_def worker_wait_def queue_pop_def)
  moreover have "(workers (sys_pool demo2))[0 := Running (0, 1, demo_request)] = [Running (0, 1, demo_request)]"
    by (simp add: demo2_eq demo0_def)
  ultimately show "sys_step sample_platform demo_parse demo2 demo3"
    unfolding demo3_def by (intro sys_step.task_start) (simp_all add: demo2_eq demo1_simps)
qed

lemma demo_order: "iteration_order (pf_table_order sample_platform)"
  by (simp add: sample_platform_def)

lemma demo3_amy:
  "quiet (logged_in 0 ''amy'' ((sys_world demo1)\<lparr>w_db := empty_database\<lparr>users := [(''amy'', sample_hash)]\<rparr>\<rparr>))
     (sys_world demo3)"
proof -
  have c: "c_str sample_hash = sample_hash" "c_str ''amy'' = ''amy''"
    using hash_password_no_nul [OF sample_hash_password] c_str_id by (blast, simp add: c_str_def)
  have "quiet (logged_in 0 ''amy'' ((sys_world demo1)\<lparr>w_db := empty_database\<lparr>users := [(''amy'', sample_hash)]\<rparr>\<rparr>))
      (snd (route sample_platform sample_env 0 demo_request (sys_world demo1)))"
    by (rule conjunct2 [OF route_register_ok [OF _ _ _ _ _ _ _ _ _ sample_hash_password]])
       (simp_all add: demo_request_def request_values demo1_simps is_authenticated_def demo_session_def
         set_server_def new_router_def MAX_USERNAME_LEN_def MAX_PASSWORD_LEN_def sample_env_def
         register_user_def empty_database_def c)
  then show ?thesis
    by (simp add: demo3_def worker_task_def demo2_eq demo1_simps demo_session_def)
qed

lemma demo3_reachable: "reachable sample_platform demo_parse demo3"
  using demo_reachable(2,3) by (rule reachable.step)

lemma demo3_simps:
  "sessions (w_server (sys_world demo3)) = [(7, 0)]" "username (session_of (sys_world demo3) 0) = ''amy''"
  "users (w_db (sys_world demo3)) = [(''amy'', sample_hash)]" "online_users (w_router (sys_world demo3)) = [''amy'']"
  using demo3_amy quiet_username [OF demo3_amy, of 0]
  by (simp_all add: quiet_def logged_in_def demo1_simps set_username_def set_server_def new_router_def
      set_insert_def)

section \<open>Guarantees of every reachable state\<close>

text \<open>
  C2. The registry is right at all times: in every reachable state the table holds each
  descriptor and each session once, under the descriptor the session owns; no two sessions in the
  table have the same name; the online list, without repetitions, is exactly the set of the names
  of the sessions in the table; and a session that is not in the table has no name.
\<close>

theorem online_registry:
  assumes "reachable pf parse s" "iteration_order (pf_table_order pf)"
  shows "let srv = w_server (sys_world s) in
    distinct (map fst (sessions srv)) \<and> distinct (map snd (sessions srv)) \<and>
    (\<forall>(f, i) \<in> set (sessions srv). cs_fd (heap srv i) = f) \<and> unique_online srv \<and>
    distinct (online_users (w_router (sys_world s))) \<and>
    set (online_users (w_router (sys_world s))) =
      {u. u \<noteq> [] \<and> (\<exists>i \<in> live_sids srv. username (heap srv i) = u)} \<and>
    (\<forall>i. i \<notin> live_sids srv \<longrightarrow> username (heap srv i) = [])"
proof -
  have "world_inv (sys_world s)" using reachable_inv [OF assms] by (simp add: sys_inv_def)
  then show ?thesis
    by (auto simp: world_inv_def table_inv_def table_ok_def reg.names_def name_at_def Let_def)
qed

theorem online_registry_witness:
  "reachable sample_platform demo_parse demo3 \<and> online_users (w_router (sys_world demo3)) = [''amy''] \<and>
   unique_online (w_server (sys_world demo3))"
  using online_registry [OF demo3_reachable demo_order] demo3_reachable demo3_simps(4)
  by (simp add: Let_def)

text \<open>
  C14. Stale tasks are recognised: in every reachable state, a queued task whose session has left
  the table does nothing when a worker runs it, so no message received before a disconnect is
  acted on after it, even if the descriptor has a new owner. A queued task of a session in the
  table never carries a generation beyond that of its session.
\<close>

theorem stale_tasks_dropped:
  assumes "reachable pf parse s" "iteration_order (pf_table_order pf)"
    and "(i, g, msg) \<in> set (tasks (sys_pool s))"
  shows "(i \<notin> live_sids (w_server (sys_world s)) \<longrightarrow>
      worker_task pf env (i, g, msg) (sys_world s) = sys_world s) \<and>
    g \<le> generation (session_of (sys_world s) i)"
proof -
  have "task_inv (w_server (sys_world s)) (i, g, msg)"
    using reachable_inv [OF assms(1,2)] assms(3) by (auto simp: sys_inv_def)
  then show ?thesis by (auto simp: task_inv_def worker_task_def)
qed

text \<open>The demo client sends its REGISTER and resets the connection before a worker gets to it.\<close>

definition demo_gone :: system where
  "demo_gone = handle_client_event sample_platform demo_parse sample_env (\<lambda>_. RecvFailed) 7 demo2"

lemma demo_gone_reachable: "reachable sample_platform demo_parse demo_gone"
proof -
  have "sys_step sample_platform demo_parse demo2 demo_gone"
    unfolding demo_gone_def by (rule sys_step.client_event) (simp_all add: demo2_eq demo1_simps)
  with demo_reachable(2) show ?thesis by (rule reachable.step)
qed

lemma demo_gone_simps:
  "sessions (w_server (sys_world demo_gone)) = []" "tasks (sys_pool demo_gone) = [(0, 1, demo_request)]"
proof -
  have r: "recv_msgs demo_parse (\<lambda>_. RecvFailed) demo_session = (Inr None, demo_session)"
    by (simp add: recv_msgs_def recv_drain.simps demo_session_def MAX_RECV_BUF_SIZE_def)
  let ?w = "on_server (upd_session (\<lambda>_. demo_session) 0) (sys_world demo1)"
  have m: "map_of (sessions (w_server ?w)) 7 = Some 0" by (simp add: demo1_simps)
  show "sessions (w_server (sys_world demo_gone)) = []" "tasks (sys_pool demo_gone) = [(0, 1, demo_request)]"
    using remove_client_Some(8) [OF m, of sample_platform sample_env]
    by (simp_all add: demo_gone_def demo2_eq handle_client_event_def demo1_simps r Let_def alist_erase_def)
qed

theorem stale_tasks_dropped_witness:
  "tasks (sys_pool demo_gone) = [(0, 1, demo_request)] \<and>
   worker_task sample_platform sample_env (0, 1, demo_request) (sys_world demo_gone) = sys_world demo_gone"
  using stale_tasks_dropped [OF demo_gone_reachable demo_order, of 0 1 demo_request sample_env]
  by (simp add: demo_gone_simps live_sids_def)

text \<open>
  Only account holders are online and in the history: in every reachable state the database
  has one row per account and increasing message identifiers, the account of every session's name
  exists, and the sender of every stored message has an account.
\<close>

theorem only_account_holders:
  assumes "reachable pf parse s" "iteration_order (pf_table_order pf)"
  shows "database_wf (w_db (sys_world s)) \<and>
    (\<forall>i. username (session_of (sys_world s) i) \<noteq> [] \<longrightarrow>
      c_str (username (session_of (sys_world s) i)) \<in> fst ` set (users (w_db (sys_world s)))) \<and>
    (\<forall>r \<in> set (messages (w_db (sys_world s))). from_user r \<in> fst ` set (users (w_db (sys_world s))))"
  using reachable_inv [OF assms] by (simp add: sys_inv_def world_inv_def accounts_def)

theorem only_account_holders_witness:
  "username (session_of (sys_world demo3) 0) = ''amy'' \<and>
   c_str ''amy'' \<in> fst ` set (users (w_db (sys_world demo3)))"
  using only_account_holders [OF demo3_reachable demo_order, THEN conjunct2, THEN conjunct1,
      THEN spec, of 0] by (simp add: demo3_simps(2))

section \<open>Refinement\<close>

text \<open>
  C1. The server implements the chat service of \<open>ChatSpec\<close>: it starts as the empty service, and
  from every reachable state every step (accepting, reading, disconnecting, pinging, running a
  task) either leaves the service unchanged or is one step of it.
\<close>

theorem server_refines_chat:
  assumes "reachable pf parse s" "iteration_order (pf_table_order pf)" "sys_step pf parse s s'"
  shows "chat_of (sys_world s') = chat_of (sys_world s) \<or>
    chat_step c_str (chat_of (sys_world s)) (chat_of (sys_world s'))"
  by (rule step_refines [OF assms(3,2) reachable_inv [OF assms(1,2)]])

theorem server_refines_chat_witness:
  "chat_of initial_world = new_chat \<and> chat_of (sys_world demo2) = new_chat \<and>
   chat_step c_str (chat_of (sys_world demo2)) (chat_of (sys_world demo3)) \<and>
   presence (chat_of (sys_world demo3)) 0 = Some ''amy''"
proof -
  have i: "chat_of initial_world = new_chat"
    by (simp add: chat_of_def initial_world_def new_chat_def live_sids_def new_server_def
        empty_database_def)
  have n: "username (session_of (sys_world demo2) j) = []" for j
    by (simp add: demo2_eq demo1_def demo0_def initial_world_def new_server_def accept_one_def Let_def
        new_session_def)
  have d: "w_db (sys_world demo2) = empty_database" by (simp add: demo2_eq demo1_simps)
  have 2: "chat_of (sys_world demo2) = new_chat"
    by (simp add: chat_of_def n d empty_database_def new_chat_def)
  have 3: "presence (chat_of (sys_world demo3)) 0 = Some ''amy''"
    by (simp add: chat_of_def demo3_simps live_sids_def)
  have "chat_of (sys_world demo3) \<noteq> chat_of (sys_world demo2)"
    using 3 unfolding 2 by (auto simp: new_chat_def)
  with server_refines_chat [OF demo_reachable(2) demo_order demo_reachable(3)] i 2 3
  show ?thesis by blast
qed

text \<open>
  Nothing is ever taken back: along every execution from a reachable state, accounts keep
  their hashes and the message log only grows at its end.
\<close>

theorem accounts_and_log_permanent:
  assumes "reachable pf parse s" "iteration_order (pf_table_order pf)" "(sys_step pf parse)\<^sup>*\<^sup>* s s'"
  shows "(\<forall>u h. map_of (users (w_db (sys_world s))) u = Some h \<longrightarrow>
      map_of (users (w_db (sys_world s'))) u = Some h) \<and>
    prefix (log (chat_of (sys_world s))) (log (chat_of (sys_world s')))"
proof -
  from assms(3) have "sys_inv s' \<and> chat_grows (chat_of (sys_world s)) (chat_of (sys_world s'))"
  proof (induction rule: rtranclp_induct)
    case base
    show ?case using reachable_inv [OF assms(1,2)] by simp
  next
    case (step t u)
    then show ?case
      using step_refines [OF step(2) assms(2)] sys_inv_step [OF step(2) assms(2)]
      by (auto dest: chat_step_grows intro: chat_grows_trans)
  qed
  then show ?thesis by (auto simp: chat_grows_def map_le_def chat_of_def dom_def)
qed

theorem accounts_and_log_permanent_witness:
  "(sys_step sample_platform demo_parse)\<^sup>*\<^sup>* demo2 demo3 \<and>
   prefix (log (chat_of (sys_world demo2))) (log (chat_of (sys_world demo3)))"
proof -
  have run: "(sys_step sample_platform demo_parse)\<^sup>*\<^sup>* demo2 demo3"
    using demo_reachable(3) by blast
  from accounts_and_log_permanent [OF demo_reachable(2) demo_order this] run show ?thesis by blast
qed

section \<open>What ends the server\<close>

lemma step_crashed: "sys_step pf parse s s' \<Longrightarrow> crashed s = None"
  by (erule sys_stepE) auto

lemma crashed_remove: "crashed (s\<lparr>sys_world := w\<rparr>) = crashed s"
  by simp

text \<open>
  C28. One malformed message of a stranger ends the server: if the first message read in a
  wake-up from a session that is not authenticated has no string type (a JSON text that is not an
  object, or an object whose \<open>type\<close> is not a string), the exception of \<open>value\<close> leaves the
  event loop, and the server takes no further step.
\<close>

theorem stranger_ends_server:
  assumes "map_of (sessions (w_server (sys_world s))) f = Some i"
    and "\<not> is_authenticated (session_of (sys_world s) i)"
    and "recv_msgs parse net (session_of (sys_world s) i) = (Inr (Some (msg # msgs)), c)"
    and "json_value msg ''type'' [] = Inl e"
  shows "crashed (handle_client_event pf parse env net f s) = Some e \<and>
    (\<forall>s'. \<not> sys_step pf parse (handle_client_event pf parse env net f s) s')"
proof -
  have "\<not> is_authenticated c"
    using recv_msgs_frame(3) [OF assms(3)] assms(2) by (simp add: is_authenticated_def)
  then have "crashed (handle_client_event pf parse env net f s) = Some e"
    using assms(1,3,4) by (simp add: handle_client_event_def Let_def)
  then show ?thesis using step_crashed by fastforce
qed

text \<open>In the demo the stranger sends the two bytes \<open>[]\<close>.\<close>

theorem stranger_ends_server_witness:
  "crashed (handle_client_event sample_platform (\<lambda>_. Parsed (JArray [])) sample_env
     (serve [server_frame [91, 93]]) 7 demo1) = Some (TypeError 306)"
proof -
  have "splits next_frame (server_frame [91, 93]) [[91, 93]] []"
    using srv.splits_frames [of "[[91, 93]]" "[]"] next_frame_Nil
    by (simp add: body_ok_def MAX_BODY_LEN_def)
  then have "recv_msgs (\<lambda>_. Parsed (JArray [])) (serve [server_frame [91, 93]]) demo_session =
      (Inr (Some [JArray []]), demo_session)"
    using recv_msgs_serve [of "[server_frame [91, 93]]" demo_session "[[91, 93]]" "[]"
        "\<lambda>_. Parsed (JArray [])" "[JArray []]"]
    by (simp add: demo_session_def server_frame_def MAX_RECV_BUF_SIZE_def)
  from stranger_ends_server [of demo1 7 0, OF _ _ this [folded demo1_simps(2)], of "TypeError 306"
      sample_platform sample_env]
  show ?thesis by (simp add: demo1_simps is_authenticated_def demo_session_def)
qed

text \<open>A parser that only fails with parse errors, and whose values have a string type.\<close>

definition tame_parser :: "(string \<Rightarrow> parse_outcome) \<Rightarrow> bool" where
  "tame_parser parse \<longleftrightarrow> (\<forall>b e. parse b \<noteq> ParserThrows e) \<and>
     (\<forall>b m. parse b = Parsed m \<longrightarrow> (\<exists>t. json_value m ''type'' [] = Inr t))"

lemma extract_tame:
  "tame_parser parse \<Longrightarrow> \<forall>m \<in> set acc. \<exists>t. json_value m ''type'' [] = Inr t \<Longrightarrow>
   extract_frames parse buf n acc = (res, ms, rest, n') \<Longrightarrow>
   (\<forall>e. res \<noteq> Threw e) \<and> (\<forall>m \<in> set ms. \<exists>t. json_value m ''type'' [] = Inr t)"
proof (induction parse buf n acc arbitrary: res ms rest n' rule: extract_frames.induct)
  case (1 parse buf n acc)
  show ?case
  proof (cases "next_frame buf")
    case (Frame body r)
    show ?thesis
    proof (cases "parse (bytes_string body)")
      case (Parsed j)
      then obtain t where "json_value j ''type'' [] = Inr t" using 1(3) unfolding tame_parser_def by blast
      with 1(1) [OF Frame Parsed] 1(3-5) Frame Parsed show ?thesis
        by (simp add: extract_frames.simps [of parse buf])
    next
      case BadJson
      with 1(2) [OF Frame BadJson] 1(3-5) Frame show ?thesis
        by (auto simp: extract_frames.simps [of parse buf] split: if_splits)
    next
      case (ParserThrows e)
      with 1(3) show ?thesis by (simp add: tame_parser_def)
    qed
  qed (use 1(4,5) in \<open>auto simp: extract_frames.simps [of parse buf]\<close>)
qed

lemma recv_msgs_tame:
  assumes "tame_parser parse" "recv_msgs parse net c = (r, c')"
  shows "(\<forall>e. r \<noteq> Inl e) \<and> (\<forall>ms m. r = Inr (Some ms) \<longrightarrow> m \<in> set ms \<longrightarrow>
    (\<exists>t. json_value m ''type'' [] = Inr t))"
proof -
  obtain d buf k where d: "recv_drain net 0 (recv_buf c) = (d, buf, k)" by (metis prod_cases3)
  obtain res ms rest n where x: "extract_frames parse buf (parse_failures c) [] = (res, ms, rest, n)"
    by (metis prod_cases4)
  have t: "(\<forall>e. res \<noteq> Threw e) \<and> (\<forall>m \<in> set ms. \<exists>t. json_value m ''type'' [] = Inr t)"
    using extract_tame [OF assms(1) _ x] by simp
  show ?thesis
    using assms(2) t by (cases d; cases res) (auto simp: recv_msgs_def d x split: if_splits)
qed

lemma dispatch_tame:
  "\<forall>m \<in> set msgs. \<exists>t. json_value m ''type'' [] = Inr t \<Longrightarrow> \<not> stop_flag p \<Longrightarrow>
   fst (dispatch_msgs i c msgs p) = None"
proof (induction msgs arbitrary: p)
  case (Cons m msgs)
  then obtain t where "json_value m ''type'' [] = Inr t" by auto
  with Cons show ?case by (simp add: enqueue_def)
qed simp

text \<open>
  C27. Nothing else ends it: when the parser raises nothing but parse errors and every message
  it yields is an object whose type is a string or absent, no reachable state has an escaped
  exception: neither malformed frames, failing handlers, disconnects nor the queue end the loop.
\<close>

theorem tame_clients_never_crash:
  assumes "reachable pf parse s" "iteration_order (pf_table_order pf)" "tame_parser parse"
  shows "crashed s = None"
  using assms(1)
proof (induction rule: reachable.induct)
  case (start n s)
  then show ?case by (auto simp: initial_system_def split: sum.splits)
next
  case (step s s')
  have inv: "sys_inv s" by (rule reachable_inv [OF step(1) assms(2)])
  from step(2) show ?case
  proof cases
    case (client_event env net f)
    show ?thesis
    proof (cases "map_of (sessions (w_server (sys_world s))) f")
      case (Some i)
      obtain r c where rc: "recv_msgs parse net (session_of (sys_world s) i) = (r, c)" by fastforce
      note tame = recv_msgs_tame [OF assms(3) rc]
      have "fst (dispatch_msgs i c ms (sys_pool s)) = None" if "r = Inr (Some ms)" for ms
        using tame that inv by (intro dispatch_tame) (auto simp: sys_inv_def)
      with tame client_event(2) show ?thesis
        by (auto simp: client_event(1) handle_client_event_def Let_def Some rc
            split: sum.splits option.splits prod.splits)
    qed (use client_event in \<open>simp add: handle_client_event_def Let_def\<close>)
  qed (use step.IH in auto)
qed

theorem tame_clients_never_crash_witness:
  "tame_parser demo_parse \<and> crashed demo3 = None"
proof -
  have t: "tame_parser demo_parse"
    by (auto simp: tame_parser_def demo_parse_def demo_request_def request_values)
  from tame_clients_never_crash [OF demo3_reachable demo_order this] t show ?thesis by blast
qed

section \<open>A reservation that is never released\<close>

text \<open>
  A name is leaked when it is reserved but no session has it as its pending login, so that no
  handler and no disconnect will release it.
\<close>

definition leaked :: "string \<Rightarrow> world \<Rightarrow> bool" where
  "leaked u w \<longleftrightarrow> u \<noteq> [] \<and> u \<in> set (login_in_progress (w_router w)) \<and>
     (\<forall>i. pending_login (session_of w i) \<noteq> u)"

lemma pending_simps [simp]:
  "pending_login (set_pending_login v c) = v"
  "pending_login (clear_pending_login c) = []"
  "pending_login (set_username v c) = pending_login c"
  "pending_login (clear_username c) = pending_login c"
  by (simp_all add: session_defs)

lemma handle_register_leaked:
  assumes "leaked u w"
  shows "leaked u (snd (handle_register pf env i msg w))"
  using assms
  by (auto simp: leaked_def handle_register_def Let_def split: sum.splits prod.splits bool.splits)

lemma handle_login_leaked:
  assumes "leaked u w"
  shows "leaked u (snd (handle_login pf env i msg w))"
proof -
  obtain limited w0 where c: "check_rate env i w = (limited, w0)" by (cases "check_rate env i w")
  then have "w_server w0 = w_server w"
    "login_in_progress (w_router w0) = login_in_progress (w_router w)"
    using check_rate_simps [of env i w] by simp_all
  with assms show ?thesis
    by (auto simp: leaked_def handle_login_def Let_def c split: sum.splits)
qed

lemma route_leaked: "leaked u w \<Longrightarrow> leaked u (snd (route pf env i msg w))"
  using handle_register_leaked [of u w pf env i msg] handle_login_leaked [of u w pf env i msg]
  by (auto simp: route_def leaked_def handle_broadcast_def handle_private_def
      handle_history_req_def Let_def split: sum.splits option.splits)

lemma leaked_cong:
  assumes "login_in_progress (w_router w') = login_in_progress (w_router w)"
    and "\<And>i. pending_login (session_of w' i) = pending_login (session_of w i) \<or>
      pending_login (session_of w' i) = []"
    and "leaked u w"
  shows "leaked u w'"
proof -
  have "pending_login (session_of w' i) \<noteq> u" for i
    using assms(2) [of i] assms(3) by (auto simp: leaked_def)
  with assms(1,3) show ?thesis by (simp add: leaked_def)
qed

lemma remove_client_leaked:
  assumes "leaked u w"
  shows "leaked u (remove_client pf env f w)"
proof (cases "map_of (sessions (w_server w)) f")
  case None
  with assms show ?thesis by (simp add: remove_client_None leaked_def)
next
  case (Some i)
  with assms show ?thesis
    by (auto simp: leaked_def remove_client_def remove_begin_def remove_end_def Let_def
        disconnect_handler_def cleanup_login_reservation_def get_pending_login_def)
qed

lemma client_event_leaked:
  assumes "leaked u (sys_world s)"
  shows "leaked u (sys_world (handle_client_event pf parse env net f s))"
proof (cases "map_of (sessions (w_server (sys_world s))) f")
  case None
  with assms show ?thesis by (simp add: handle_client_event_def Let_def)
next
  case (Some i)
  obtain r c where rc: "recv_msgs parse net (session_of (sys_world s) i) = (r, c)" by fastforce
  have "leaked u (on_server (upd_session (\<lambda>_. c) i) (sys_world s))"
    using recv_msgs_frame(4) [OF rc] assms by (intro leaked_cong [OF _ _ assms]) auto
  then show ?thesis
    using remove_client_leaked [of u _ pf env f]
    by (auto simp: handle_client_event_def Let_def Some rc split: sum.splits option.splits prod.splits)
qed

lemma step_leaked:
  assumes "sys_step pf parse s s'" "leaked u (sys_world s)"
  shows "leaked u (sys_world s')"
  using assms(1)
proof cases
  case (accept f ip ok)
  show ?thesis
    unfolding accept(1)
    by (rule leaked_cong [OF _ _ assms(2)]) (auto simp: accept_one_def Let_def session_defs)
next
  case (client_event env net f)
  with assms(2) show ?thesis by (simp add: client_event_leaked)
next
  case heartbeat_fired
  with assms(2) show ?thesis by (simp add: leaked_def heartbeat_def)
next
  case (task_start k t p env)
  obtain i g msg where "t = (i, g, msg)" by (cases t)
  with assms(2) task_start(1) route_leaked [OF assms(2)] show ?thesis
    by (simp add: worker_task_def)
next
  case (task_finish k t p)
  with assms(2) show ?thesis by simp
qed

text \<open>
  A leaked reservation locks its name until the server is restarted: whatever happens from
  then on, every REGISTER or LOGIN of that name by an unauthenticated session that passes the
  checks before the reservation is answered with ALREADY_LOGGED_IN and has no effect.
\<close>

theorem leaked_name_locked:
  assumes "leaked u (sys_world s)" "(sys_step pf parse)\<^sup>*\<^sup>* s s'"
    and "\<not> is_authenticated (session_of (sys_world s') i)"
    and "json_value msg ''type'' [] = Inr t" "t = ''REGISTER'' \<or> t = ''LOGIN''"
    and "json_value msg ''from'' [] = Inr u" "json_value msg ''content'' [] = Inr p"
    and "p \<noteq> []" "length u \<le> MAX_USERNAME_LEN" "length p \<le> MAX_PASSWORD_LEN"
    and "\<not> fst (check_rate env i (sys_world s'))"
  shows "\<exists>w'. route pf env i msg (sys_world s') = (None, w') \<and> quiet (sys_world s') w' \<and>
    (\<exists>txt. out (w_server w') = out (w_server (sys_world s')) @
      [(cs_fd (session_of (sys_world s') i), error_msg ''ALREADY_LOGGED_IN'' txt)])"
proof -
  from assms(2) have "leaked u (sys_world s')"
    by (induction rule: rtranclp_induct) (auto intro: assms(1) step_leaked)
  then have u: "u \<noteq> []" "u \<in> set (login_in_progress (w_router (sys_world s')))"
    by (simp_all add: leaked_def)
  obtain w0 where c: "check_rate env i (sys_world s') = (False, w0)"
    using assms(11) by (cases "check_rate env i (sys_world s')") auto
  have w0: "login_in_progress (w_router w0) = login_in_progress (w_router (sys_world s'))"
    "w_server w0 = w_server (sys_world s')" "quiet (sys_world s') w0"
    using check_rate_simps [of env i "sys_world s'"] quiet_simps(8) [of _ env i "sys_world s'"] c
    by simp_all
  from assms(3-10) u w0 show ?thesis
    by (auto simp: route_def handle_register_def handle_login_def Let_def c)
qed

text \<open>
  How a name leaks: the random generator fails during a REGISTER of \<open>amy\<close>, then the same session
  registers as \<open>bob\<close>.
\<close>

definition leak_world :: world where
  "leak_world =
     (let w1 = snd (route sample_platform (sample_env\<lparr>rand := None\<rparr>) 0
                 (request ''REGISTER'' ''amy'' ''pw'') (sample_world 2))
      in snd (route sample_platform sample_env 0 (request ''REGISTER'' ''bob'' ''pw'') w1))"

lemma leak_world_leaked:
  "leaked ''amy'' leak_world \<and> username (session_of leak_world 1) = [] \<and>
   login_attempts (w_router leak_world) = []"
proof -
  let ?w1 = "on_server (upd_session (set_pending_login ''amy'') 0) (on_router (reserve ''amy'') (sample_world 2))"
  have "hash_password (pf_digest sample_platform) (rand (sample_env\<lparr>rand := None\<rparr>)) ''pw'' = Inl rand_failure"
    by (simp add: hash_password_def generate_salt_def)
  then have w1: "snd (route sample_platform (sample_env\<lparr>rand := None\<rparr>) 0
      (request ''REGISTER'' ''amy'' ''pw'') (sample_world 2)) = ?w1"
    by (simp add: route_def handle_register_def request_values is_authenticated_def sample_world_simps
        Let_def set_server_def new_router_def MAX_USERNAME_LEN_def MAX_PASSWORD_LEN_def)
  have p: "pending_login (session_of (sample_world 2) j) = []" for j
    by (simp add: sample_world_def upt_rec accept_one_def Let_def new_server_def session_defs)
  have u: "username (set_pending_login v c) = username c" for v c
    by (simp add: set_pending_login_def)
  have reg: "register_user True ''bob'' sample_hash empty_database =
      (True, empty_database\<lparr>users := [(c_str ''bob'', c_str sample_hash)]\<rparr>)"
    by (simp add: register_user_def empty_database_def)
  have env: "step_done sample_env" by (simp add: sample_env_def)
  show ?thesis
    by (simp add: leak_world_def w1 leaked_def)
       (simp add: route_def handle_register_def request_values is_authenticated_def u env
        sample_world_simps p Let_def set_server_def new_router_def MAX_USERNAME_LEN_def
        MAX_PASSWORD_LEN_def sample_hash_password reg set_insert_def set_username_def)
qed

theorem leaked_name_locked_witness:
  "\<exists>w'. route sample_platform sample_env 1 (request ''LOGIN'' ''amy'' ''pw'') leak_world = (None, w') \<and>
     quiet leak_world w'"
proof -
  let ?s = "demo1\<lparr>sys_world := leak_world\<rparr>"
  have "\<not> fst (check_rate sample_env 1 leak_world)"
    using leak_world_leaked by (simp add: check_rate_def Let_def is_rate_limited_def)
  with leaked_name_locked [of "''amy''" ?s sample_platform demo_parse ?s 1
      "request ''LOGIN'' ''amy'' ''pw''" "''LOGIN''" "''pw''" sample_env] leak_world_leaked
  show ?thesis
    by (auto simp: request_values is_authenticated_def MAX_USERNAME_LEN_def MAX_PASSWORD_LEN_def)
qed

end
