(* ===== verification/FineSafety.thy ===== *)
theory FineSafety
  imports FineServer ServerSafety
begin

text \<open>
  What every interleaving of the event loop and the workers keeps: nobody bears a name, and nothing
  is stored under a name, without a message that carried the password of its account; accounts and
  the log are never taken back. The rule of \<open>Programs\<close> is applied to every handler.
\<close>

section \<open>Vouching\<close>

text \<open>\<open>H\<close> is a set of tasks, later those that were ever queued.\<close>

definition knows :: "platform \<Rightarrow> world \<Rightarrow> string \<Rightarrow> string \<Rightarrow> bool" where
  "knows pf w u p \<longleftrightarrow> (\<exists>h. map_of (users (w_db w)) (c_str u) = Some h \<and>
     (verify_password (pf_digest pf) p h \<or> (\<exists>rb. hash_password (pf_digest pf) rb p = Inr h)))"

definition vouched :: "platform \<Rightarrow> task set \<Rightarrow> world \<Rightarrow> sid \<Rightarrow> string \<Rightarrow> bool" where
  "vouched pf H w i u \<longleftrightarrow> (\<exists>g msg t p. (i, g, msg) \<in> H \<and>
     json_value msg ''type'' [] = Inr t \<and> t \<in> {''REGISTER'', ''LOGIN''} \<and>
     json_value msg ''from'' [] = Inr u \<and> json_value msg ''content'' [] = Inr p \<and> knows pf w u p)"

definition acc_inv :: "platform \<Rightarrow> task set \<Rightarrow> world \<Rightarrow> bool" where
  "acc_inv pf H w \<longleftrightarrow> database_wf (w_db w) \<and>
     (\<forall>i. username (session_of w i) \<noteq> [] \<longrightarrow> vouched pf H w i (username (session_of w i))) \<and>
     (\<forall>r \<in> set (messages (w_db w)). from_user r = [] \<or>
        (\<exists>i u. from_user r = c_str u \<and> vouched pf H w i u))"

definition acc_grows :: "world \<Rightarrow> world \<Rightarrow> bool" where
  "acc_grows w w' \<longleftrightarrow> (\<exists>us. users (w_db w') = users (w_db w) @ us) \<and>
     (\<exists>ms. messages (w_db w') = messages (w_db w) @ ms)"

lemma acc_grows_refl [simp]: "acc_grows w w"
  by (simp add: acc_grows_def)

lemma acc_grows_trans: "acc_grows w1 w2 \<Longrightarrow> acc_grows w2 w3 \<Longrightarrow> acc_grows w1 w3"
  by (auto simp: acc_grows_def)

interpretation acc: growing "acc_inv pf H" acc_grows for pf H
  by unfold_locales (auto intro: acc_grows_trans)

lemma knows_grows: "knows pf w u p \<Longrightarrow> acc_grows w w' \<Longrightarrow> knows pf w' u p"
  by (auto simp: knows_def acc_grows_def map_add_Some_iff)

lemma vouched_grows: "vouched pf H w i u \<Longrightarrow> acc_grows w w' \<Longrightarrow> vouched pf H w' i u"
  unfolding vouched_def using knows_grows by blast

section \<open>Steps\<close>

lemma acc_same:
  assumes "w_db w' = w_db w" "\<And>j. username (session_of w' j) = username (session_of w j)"
  shows "acc_grows w w' \<and> (acc_inv pf H w \<longrightarrow> acc_inv pf H w')"
  using assms by (simp add: acc_grows_def acc_inv_def vouched_def knows_def)

lemma acc_name:
  assumes "acc_inv pf H w" "vouched pf H w i u \<or> u = []"
  shows "acc_grows w (on_server (upd_session (set_username u) i) w) \<and>
    acc_inv pf H (on_server (upd_session (set_username u) i) w)"
  using assms by (auto simp: acc_grows_def acc_inv_def vouched_def knows_def set_username_def)

lemma acc_db:
  assumes "acc_inv pf H w" "acc_grows w (w\<lparr>w_db := d\<rparr>)" "database_wf d"
    and "\<And>r. r \<in> set (messages d) \<Longrightarrow> r \<notin> set (messages (w_db w)) \<Longrightarrow>
      from_user r = [] \<or> (\<exists>i u. from_user r = c_str u \<and> vouched pf H w i u)"
  shows "acc_inv pf H (w\<lparr>w_db := d\<rparr>)"
proof -
  have v: "vouched pf H (w\<lparr>w_db := d\<rparr>) j v" if "vouched pf H w j v" for j v
    using vouched_grows [OF that assms(2)] .
  have "from_user r = [] \<or> (\<exists>i u. from_user r = c_str u \<and> vouched pf H (w\<lparr>w_db := d\<rparr>) i u)"
    if "r \<in> set (messages d)" for r
  proof (cases "r \<in> set (messages (w_db w))")
    case True
    with assms(1) v show ?thesis unfolding acc_inv_def by blast
  next
    case False
    with assms(4) [OF that] v show ?thesis by blast
  qed
  then show ?thesis using assms(1,3) v by (simp add: acc_inv_def)
qed

lemma acc_store:
  assumes "acc_inv pf H w" "u = [] \<or> vouched pf H w i u"
  shows "acc_grows w (w\<lparr>w_db := store_message b u to c ts (w_db w)\<rparr>) \<and>
    acc_inv pf H (w\<lparr>w_db := store_message b u to c ts (w_db w)\<rparr>)"
proof -
  have g: "acc_grows w (w\<lparr>w_db := store_message b u to c ts (w_db w)\<rparr>)"
    by (simp add: acc_grows_def store_message_def)
  moreover have "acc_inv pf H (w\<lparr>w_db := store_message b u to c ts (w_db w)\<rparr>)"
  proof (rule acc_db [OF assms(1) g])
    show "database_wf (store_message b u to c ts (w_db w))"
      using assms(1) database_wf_store by (simp add: acc_inv_def)
    fix r assume "r \<in> set (messages (store_message b u to c ts (w_db w)))"
      "r \<notin> set (messages (w_db w))"
    then have "from_user r = c_str u" by (auto simp: store_message_def split: if_splits)
    with assms(2) show "from_user r = [] \<or> (\<exists>i u. from_user r = c_str u \<and> vouched pf H w i u)"
      by (cases "u = []") (auto simp: c_str_def)
  qed
  ultimately show ?thesis by simp
qed

lemma acc_register:
  assumes "acc_inv pf H w" "register_user b u h (w_db w) = (r, d)"
  shows "acc_grows w (w\<lparr>w_db := d\<rparr>) \<and> acc_inv pf H (w\<lparr>w_db := d\<rparr>)"
proof -
  have m: "messages d = messages (w_db w)"
    using assms(2) by (auto simp: register_user_def split: if_splits)
  have g: "acc_grows w (w\<lparr>w_db := d\<rparr>)"
    using assms(2) by (auto simp: acc_grows_def register_user_def split: if_splits)
  have "database_wf d" using assms database_wf_register [of "w_db w" b u h] by (simp add: acc_inv_def)
  with acc_db [OF assms(1) g] m g show ?thesis by simp
qed

section \<open>Programs\<close>

lemmas keeps_rules = acc.keeps_ask acc.keeps_act acc.keeps_Done acc.keeps_andthen acc.keeps_stage

lemma keeps_quiet_act:
  assumes "\<And>w. w_db (f w) = w_db w" "\<And>w j. username (session_of (f w) j) = username (session_of w j)"
  shows "acc.keeps pf H w (act f)"
  using acc_same [of "f _"] assms by (intro acc.keeps_act) blast

lemma keeps_error: "acc.keeps pf H w (error_prog i c t)"
  unfolding error_prog_def by (rule keeps_quiet_act) simp_all

lemma keeps_send_each: "acc.keeps pf H w (send_each m is)"
  by (induction "is" arbitrary: w)
     (auto intro!: acc.keeps_Done acc.keeps_andthen keeps_quiet_act)

lemma keeps_broadcast: "acc.keeps pf H w (broadcast_prog pf' m ex)"
  unfolding broadcast_prog_def by (intro acc.keeps_ask keeps_send_each)

lemma keeps_send_to_fd: "acc.keeps pf H w (send_to_fd_prog f m)"
  unfolding send_to_fd_prog_def by (intro acc.keeps_ask keeps_send_each)

lemma keeps_user_list: "acc.keeps pf H w (user_list_prog pf' now)"
  unfolding user_list_prog_def by (intro acc.keeps_ask keeps_broadcast)

lemma keeps_push_history: "acc.keeps pf H w (push_history_prog pf' env f u)"
  unfolding push_history_prog_def by (intro acc.keeps_ask keeps_send_to_fd)

lemmas keeps_sends = keeps_error keeps_send_each keeps_broadcast keeps_send_to_fd keeps_user_list
  keeps_push_history

lemma keeps_pending:
  "acc.keeps pf H w (act (on_server (upd_session (set_pending_login u) i)))"
  "acc.keeps pf H w (act (on_server (upd_session clear_pending_login i)))"
  "acc.keeps pf H w (act (on_router g))"
  "acc.keeps pf H w (act (on_attempts a i))"
  "acc.keeps pf H w (act (send_ok i t u))"
  by (rule keeps_quiet_act; simp add: session_defs)+

lemma keeps_finish_login:
  assumes "vouched pf H w i u"
  shows "acc.keeps pf H w (finish_login_prog pf env i u)"
proof -
  have "acc.keeps pf H t (act (on_server (upd_session (set_username u) i)))" if "acc_grows w t" for t
    using acc_name vouched_grows [OF vouched_grows [OF assms that]] by (intro acc.keeps_act) blast
  then show ?thesis unfolding finish_login_prog_def
    by (intro acc.keeps_stage) (auto intro!: keeps_pending keeps_sends acc.keeps_ask)
qed

lemma keeps_logout: "acc.keeps pf H w (handle_logout_prog pf' env i)"
proof -
  have clear: "upd_session clear_username i = upd_session (set_username []) i"
    by (simp add: upd_session_def clear_username_def set_username_def fun_eq_iff)
  have "acc.keeps pf H t (act (on_server (upd_session clear_username i)))" for t
    unfolding clear using acc_name by (intro acc.keeps_act) blast
  then show ?thesis unfolding handle_logout_prog_def
    by (intro acc.keeps_ask) (auto intro!: acc.keeps_Done acc.keeps_ask acc.keeps_stage keeps_pending keeps_sends
          clear simp del: stage.simps)
qed

text \<open>What is read of a session's name is nothing or a vouched name.\<close>

lemma name_vouched:
  "acc_inv pf H w \<Longrightarrow> get_username (session_of w i) = [] \<or> vouched pf H w i (get_username (session_of w i))"
  by (auto simp: acc_inv_def get_username_def)

lemma keeps_store:
  assumes "acc_inv pf H w" "acc_grows w t"
  shows "acc.keeps pf H t (store_prog env (get_username (session_of w i)) to c)"
  unfolding store_prog_def
proof (rule acc.keeps_act)
  fix v assume v: "acc_grows t v" "acc_inv pf H v"
  have "get_username (session_of w i) = [] \<or> vouched pf H v i (get_username (session_of w i))"
    using name_vouched [OF assms(1), of i] vouched_grows [OF _ acc_grows_trans [OF assms(2) v(1)]] by blast
  from acc_store [OF v(2) this]
  show "acc_grows v (v\<lparr>w_db := store_message (step_done env) (get_username (session_of w i)) to c
      (clock env 0) (w_db v)\<rparr>) \<and>
    acc_inv pf H (v\<lparr>w_db := store_message (step_done env) (get_username (session_of w i)) to c
      (clock env 0) (w_db v)\<rparr>)" .
qed

lemma keeps_handle_broadcast: "acc.keeps pf H w (handle_broadcast_prog pf' env i msg)"
  unfolding handle_broadcast_prog_def
proof (split sum.split, intro conjI allI impI)
  fix content
  have "acc.keeps pf H t (stage [store_prog env (get_username (session_of t i)) room content,
      broadcast_prog pf' (broadcast_msg (get_username (session_of t i)) content (clock env 0)) []])"
    if "acc_inv pf H t" for t
    using keeps_store [OF that] by (intro acc.keeps_stage) (auto intro!: keeps_sends)
  then show "acc.keeps pf H w (if content = [] then error_prog i ''INVALID_MSG'' txt_empty_message
      else if length content > MAX_MESSAGE_LEN then error_prog i ''INVALID_MSG'' txt_message_too_long
      else ask (\<lambda>w. get_username (session_of w i)) (\<lambda>sender. stage
        [store_prog env sender room content,
         broadcast_prog pf' (broadcast_msg sender content (clock env 0)) []]))"
    by (auto intro!: keeps_sends acc.keeps_ask simp del: stage.simps)
qed (rule acc.keeps_Done)

lemma keeps_handle_private: "acc.keeps pf H w (handle_private_prog pf' env i msg)"
proof -
  have "acc.keeps pf H t (stage
       [store_prog env (get_username (session_of t i)) to content,
        ask (\<lambda>w. cs_fd (session_of w j)) (\<lambda>f.
          send_to_fd_prog f (private_msg (get_username (session_of t i)) to content (clock env 0))),
        ask (\<lambda>w. cs_fd (session_of w i)) (\<lambda>f.
          send_to_fd_prog f (private_msg (get_username (session_of t i)) to content (clock env 0)))])"
    if "acc_inv pf H t" for t to content j
    using keeps_store [OF that] by (intro acc.keeps_stage) (auto intro!: keeps_sends acc.keeps_ask)
  then show ?thesis unfolding handle_private_prog_def
    by (auto intro!: keeps_sends acc.keeps_Done acc.keeps_ask split: sum.split option.split simp del: stage.simps)
qed

lemma keeps_handle_history: "acc.keeps pf H w (handle_history_req_prog pf' env i msg)"
  unfolding handle_history_req_prog_def
  by (auto intro!: keeps_sends acc.keeps_Done acc.keeps_ask split: sum.split)

text \<open>REGISTER and LOGIN name their session only after the password has been checked or stored.\<close>

lemma registered_knows:
  assumes "register_user b u h (w_db w) = (True, d)" "hash_password (pf_digest pf) rb p = Inr h"
  shows "knows pf (w\<lparr>w_db := d\<rparr>) u p"
proof -
  have "c_str h = h" using hash_password_no_nul [OF assms(2)] by (rule c_str_id)
  moreover have "map_of (users d) (c_str u) = Some (c_str h)"
    using assms(1) by (auto simp: register_user_True map_of_append_fresh simp del: map_of_append)
  ultimately show ?thesis using assms(2) by (auto simp: knows_def)
qed

lemma verified_knows:
  assumes "get_stored_hash b u (w_db w) = h" "h \<noteq> []" "verify_password (pf_digest pf) p h"
  shows "knows pf w u p"
  using assms by (auto simp: knows_def get_stored_hash_def split: if_splits option.splits)

lemma vouchedI:
  "(i, g, msg) \<in> H \<Longrightarrow> json_value msg ''type'' [] = Inr t \<Longrightarrow> t \<in> {''REGISTER'', ''LOGIN''} \<Longrightarrow>
   json_value msg ''from'' [] = Inr u \<Longrightarrow> json_value msg ''content'' [] = Inr p \<Longrightarrow> knows pf w u p \<Longrightarrow>
   vouched pf H w i u"
  unfolding vouched_def by blast

lemma keeps_register_reserved:
  assumes "(i, g, msg) \<in> H" "json_value msg ''type'' [] = Inr ''REGISTER''"
    and "json_value msg ''from'' [] = Inr u" "json_value msg ''content'' [] = Inr p"
  shows "acc.keeps pf H w (register_reserved pf env i u p)"
proof -
  have "acc.keeps pf H s (Step (\<lambda>w. case register_user (step_done env) u h (w_db w) of
        (False, d) \<Rightarrow> (stage [act (on_router (release u)),
             act (on_server (upd_session clear_pending_login i)),
             error_prog i ''USER_EXISTS'' txt_user_exists], w\<lparr>w_db := d\<rparr>)
      | (True, d) \<Rightarrow> (finish_login_prog pf env i u, w\<lparr>w_db := d\<rparr>)))"
    if "hash_password (pf_digest pf) (rand env) p = Inr h" for h s
  proof (rule acc.keeps_StepI)
    fix t q t'
    assume t: "acc_inv pf H t" and step: "(case register_user (step_done env) u h (w_db t) of
        (False, d) \<Rightarrow> (stage [act (on_router (release u)),
             act (on_server (upd_session clear_pending_login i)),
             error_prog i ''USER_EXISTS'' txt_user_exists], t\<lparr>w_db := d\<rparr>)
      | (True, d) \<Rightarrow> (finish_login_prog pf env i u, t\<lparr>w_db := d\<rparr>)) = (q, t')"
    obtain r d where r: "register_user (step_done env) u h (w_db t) = (r, d)" by fastforce
    have "acc.keeps pf H t' q"
    proof (cases r)
      case True
      then have "vouched pf H t' i u"
        using vouchedI [OF assms(1,2) _ assms(3,4)] registered_knows [OF _ that] r step by auto
      then show ?thesis using step r True keeps_finish_login by auto
    next
      case False
      have "acc.keeps pf H t' (stage [act (on_router (release u)),
             act (on_server (upd_session clear_pending_login i)),
             error_prog i ''USER_EXISTS'' txt_user_exists])"
        by (intro acc.keeps_stage) (auto intro!: keeps_pending keeps_sends)
      with step r False show ?thesis by (simp del: stage.simps)
    qed
    then show "acc_grows t t' \<and> acc_inv pf H t' \<and> acc.keeps pf H t' q"
      using acc_register [OF t r] step r by (cases r) auto
  qed
  then show ?thesis unfolding register_reserved_def
    by (auto intro!: acc.keeps_andthen keeps_pending acc.keeps_Done split: sum.split simp del: stage.simps)
qed

lemma keeps_login_reserved:
  assumes "(i, g, msg) \<in> H" "json_value msg ''type'' [] = Inr ''LOGIN''"
    and "json_value msg ''from'' [] = Inr u" "json_value msg ''content'' [] = Inr p"
  shows "acc.keeps pf H w (login_reserved pf env i u p)"
proof -
  have fin: "acc.keeps pf H t' (finish_login_prog pf env i u)"
    if "get_stored_hash (prep_ok env) u (w_db t) \<noteq> []" "acc_grows t t'"
      "verify_password (pf_digest pf) p (get_stored_hash (prep_ok env) u (w_db t))" for t t'
    using vouchedI [OF assms(1,2) _ assms(3,4) verified_knows [OF refl that(1,3)]] vouched_grows that(2)
    by (intro keeps_finish_login) auto
  have "acc.keeps pf H t (stage [act (on_attempts a i), act (on_router r),
      act (on_server (upd_session clear_pending_login i)), error_prog i c x])" for t a r c x
    by (intro acc.keeps_stage) (auto intro!: keeps_pending keeps_sends)
  with fin show ?thesis unfolding login_reserved_def
    by (auto intro!: acc.keeps_andthen keeps_pending acc.keeps_ask simp del: stage.simps)
qed

lemma keeps_handle_register:
  assumes "(i, g, msg) \<in> H" "json_value msg ''type'' [] = Inr ''REGISTER''"
  shows "acc.keeps pf H w (handle_register_prog pf env i msg)"
  unfolding handle_register_prog_def
  using keeps_register_reserved [OF assms] acc_same
  by (auto intro!: acc.keeps_Done keeps_sends acc.keeps_StepI split: sum.split if_splits)

lemma keeps_handle_login:
  assumes "(i, g, msg) \<in> H" "json_value msg ''type'' [] = Inr ''LOGIN''"
  shows "acc.keeps pf H w (handle_login_prog pf env i msg)"
proof -
  have inner: "acc.keeps pf H s (Step (\<lambda>w.
           if u \<in> set (login_in_progress (w_router w))
           then (Done None, send_error i ''ALREADY_LOGGED_IN'' txt_logging_in w)
           else if server_find pf u w \<noteq> None
           then (Done None, send_error i ''ALREADY_LOGGED_IN'' txt_already_logged_in w)
           else (login_reserved pf env i u p, on_router (reserve u) w)))"
    if "json_value msg ''from'' [] = Inr u" "json_value msg ''content'' [] = Inr p" for s u p
    using keeps_login_reserved [OF assms that] acc_same
    by (auto intro!: acc.keeps_Done acc.keeps_StepI split: if_splits)
  have "acc.keeps pf H s (Step (\<lambda>w. case check_rate env i w of (limited, w0) \<Rightarrow>
      (if limited then error_prog i c x else q, w0)))" if "\<And>s. acc.keeps pf H s q" for s q c x
  proof (rule acc.keeps_StepI)
    fix t r t' assume t: "acc_inv pf H t" and step: "(case check_rate env i t of (limited, w0) \<Rightarrow>
      (if limited then error_prog i c x else q, w0)) = (r, t')"
    have "t' = snd (check_rate env i t)" "r = error_prog i c x \<or> r = q"
      using step by (auto split: prod.splits if_splits)
    then show "acc_grows t t' \<and> acc_inv pf H t' \<and> acc.keeps pf H t' r"
      using acc_same [of t' t] t that keeps_error by auto
  qed
  with inner show ?thesis unfolding handle_login_prog_def
    by (auto intro!: acc.keeps_Done keeps_sends split: sum.split)
qed

lemma keeps_route:
  assumes "(i, g, msg) \<in> H"
  shows "acc.keeps pf H w (route_prog pf env i msg)"
proof (cases "json_value msg ''type'' []")
  case (Inl e)
  then show ?thesis by (simp add: route_prog_def acc.keeps_Done)
next
  case (Inr type)
  have "acc.keeps pf H t (if type = ''REGISTER'' then handle_register_prog pf env i msg
           else if type = ''LOGIN'' then handle_login_prog pf env i msg
           else if type = ''PONG'' then Done None
           else error_prog i ''NOT_AUTHENTICATED'' txt_login_first)" for t
    using keeps_handle_register [OF assms, of pf t env] keeps_handle_login [OF assms, of pf t env] Inr
    by (simp add: acc.keeps_Done keeps_error)
  moreover have "acc.keeps pf H t (if type = ''PONG'' then Done None
        else if type = ''BROADCAST'' then handle_broadcast_prog pf env i msg
        else if type = ''PRIVATE'' then handle_private_prog pf env i msg
        else if type = ''HISTORY_REQ'' then handle_history_req_prog pf env i msg
        else if type = ''LOGOUT'' then handle_logout_prog pf env i
        else error_prog i ''INVALID_MSG'' (txt_unknown_type @ type))" for t
    by (simp add: acc.keeps_Done keeps_error keeps_handle_broadcast keeps_handle_private
        keeps_handle_history keeps_logout)
  ultimately show ?thesis
    unfolding route_prog_def Inr sum.case by (intro acc.keeps_ask) (simp only: if_splits, simp)
qed

lemma keeps_task: "t \<in> H \<Longrightarrow> acc.keeps pf H w (task_prog pf env t)"
  by (cases t) (auto simp: task_prog_def intro!: acc.keeps_ask acc.keeps_Done keeps_route)

lemma keeps_disconnect: "acc.keeps pf H w (disconnect_prog pf' env i)"
  unfolding disconnect_prog_def
  by (auto intro!: acc.keeps_ask acc.keeps_andthen acc.keeps_Done acc.keeps_stage keeps_pending keeps_logout
      simp del: stage.simps)

lemma keeps_remove_client: "acc.keeps pf H w (remove_client_prog pf' env f)"
  unfolding remove_client_prog_def
proof (rule acc.keeps_StepI)
  fix t p t' assume t: "acc_inv pf H t" and step: "(case remove_begin f (w_server t) of (removed, s) \<Rightarrow>
      (andthen (case removed of None \<Rightarrow> Done None | Some i \<Rightarrow> disconnect_prog pf' env i)
         (act (on_server (remove_end f removed))), t\<lparr>w_server := s\<rparr>)) = (p, t')"
  obtain r s where r: "remove_begin f (w_server t) = (r, s)" by fastforce
  then have "username (heap s j) = username (session_of t j)" for j
    by (auto simp: remove_begin_def Let_def split: option.splits)
  with acc_same [of t' t] t step r have "acc_grows t t' \<and> acc_inv pf H t'" by auto
  moreover have "acc.keeps pf H t' (act (on_server (remove_end f r)))" for t'
    by (rule keeps_quiet_act) (simp_all add: remove_end_def split: option.split)
  ultimately show "acc_grows t t' \<and> acc_inv pf H t' \<and> acc.keeps pf H t' p"
    using step r by (auto intro!: acc.keeps_andthen keeps_disconnect acc.keeps_Done split: option.split)
qed

section \<open>The event loop\<close>

text \<open>The same rule on the state of the loop thread, which also holds the pool.\<close>

definition loop_inv :: "platform \<Rightarrow> task set \<Rightarrow> world \<times> task pool \<Rightarrow> bool" where
  "loop_inv pf H s \<longleftrightarrow> acc_inv pf H (fst s)"

definition loop_grows :: "world \<times> task pool \<Rightarrow> world \<times> task pool \<Rightarrow> bool" where
  "loop_grows s s' \<longleftrightarrow> acc_grows (fst s) (fst s')"

lemma loop_simps [simp]:
  "loop_inv pf H (w, q) = acc_inv pf H w"
  "loop_grows (w, q) (w', q') = acc_grows w w'"
  by (simp_all add: loop_inv_def loop_grows_def)

interpretation lp: growing "loop_inv pf H" loop_grows for pf H
  by unfold_locales (auto simp: loop_grows_def intro: acc_grows_trans)

lemma lift_keeps: "acc.keeps pf H w p \<Longrightarrow> lp.keeps pf H (w, q) (lift_prog p)"
proof (induction arbitrary: q rule: acc.keeps.induct)
  case (keeps_Done s e)
  show ?case by (simp add: lp.keeps_Done)
next
  case (keeps_Step s f)
  show ?case unfolding lift_prog.simps
  proof (rule lp.keeps_StepI)
    fix t t' :: "world \<times> task pool" and p :: "(world \<times> task pool) prog"
    assume t: "loop_grows (s, q) t" "loop_inv pf H t"
      and step: "(case map_prod lift_prog id (f (fst t)) of (p, s') \<Rightarrow> (p, s', snd t)) = (p, t')"
    obtain w r where w: "t = (w, r)" by fastforce
    obtain p0 w' where f: "f w = (p0, w')" by fastforce
    from keeps_Step [of w] t f have "acc_grows w w'" "acc_inv pf H w'"
      "\<And>q. lp.keeps pf H (w', q) (lift_prog p0)"
      by (simp_all add: w)
    with step f show "loop_grows t t' \<and> loop_inv pf H t' \<and> lp.keeps pf H t' p"
      by (auto simp: w)
  qed
qed

lemma lp_later: "lp.keeps pf H (w, q) p \<Longrightarrow> acc_grows w w' \<Longrightarrow> lp.keeps pf H (w', q') p"
  by (erule lp.keeps_later) (rule iffD2 [OF loop_simps(2)])

lemma keeps_dispatch: "lp.keeps pf H s (dispatch_prog i msgs)"
proof (induction msgs arbitrary: s)
  case (Cons msg msgs)
  have "lp.keeps pf H s (Step (\<lambda>(w, p). case enqueue (i, generation (session_of w i), msg) p of
        Inl e \<Rightarrow> (Done (Some e), (w, p)) | Inr p' \<Rightarrow> (dispatch_prog i msgs, (w, p'))))" for s
  proof (rule lp.keeps_StepI)
    fix t p t' assume "loop_inv pf H t" "(case t of (w, p) \<Rightarrow>
        case enqueue (i, generation (session_of w i), msg) p of
          Inl e \<Rightarrow> (Done (Some e), (w, p)) | Inr p' \<Rightarrow> (dispatch_prog i msgs, (w, p'))) = (p, t')"
    with Cons.IH show "loop_grows t t' \<and> loop_inv pf H t' \<and> lp.keeps pf H t' p"
      by (cases t) (auto intro: lp.keeps_Done split: sum.splits)
  qed
  then show ?case by (auto intro!: lp.keeps_ask lp.keeps_Done split: sum.split)
qed (simp add: lp.keeps_Done)

lemma keeps_client_event: "lp.keeps pf H s (client_event_prog pf' parse env net f)"
proof -
  have "lp.keeps pf H s (Step (\<lambda>(w, p). case recv_msgs parse net (session_of w i) of (r, c) \<Rightarrow>
      ((case r of Inl e \<Rightarrow> Done (Some e)
        | Inr None \<Rightarrow> lift_prog (remove_client_prog pf' env f)
        | Inr (Some msgs) \<Rightarrow> dispatch_prog i msgs), (on_server (upd_session (\<lambda>_. c) i) w, p))))" for s i
  proof (rule lp.keeps_StepI)
    fix t p t' assume t: "loop_inv pf H t" and step: "(case t of (w, p) \<Rightarrow>
      case recv_msgs parse net (session_of w i) of (r, c) \<Rightarrow>
      ((case r of Inl e \<Rightarrow> Done (Some e)
        | Inr None \<Rightarrow> lift_prog (remove_client_prog pf' env f)
        | Inr (Some msgs) \<Rightarrow> dispatch_prog i msgs), (on_server (upd_session (\<lambda>_. c) i) w, p))) = (p, t')"
    obtain w q where tw: "t = (w, q)" by fastforce
    obtain r c where r: "recv_msgs parse net (session_of w i) = (r, c)" by fastforce
    have "acc_grows w (on_server (upd_session (\<lambda>_. c) i) w) \<and> acc_inv pf H (on_server (upd_session (\<lambda>_. c) i) w)"
      using acc_same [of "on_server (upd_session (\<lambda>_. c) i) w" w] recv_msgs_frame [OF r] t
      by (simp add: tw)
    with step r tw show "loop_grows t t' \<and> loop_inv pf H t' \<and> lp.keeps pf H t' p"
      by (auto intro!: lp.keeps_Done lift_keeps keeps_remove_client
          keeps_dispatch split: sum.split option.split)
  qed
  then show ?thesis unfolding client_event_prog_def
    by (auto intro!: lp.keeps_ask lp.keeps_Done split: option.split)
qed

lemma keeps_heartbeat: "lp.keeps pf H (w, q) (heartbeat_prog pf')"
  unfolding heartbeat_prog_def by (intro lift_keeps acc.keeps_ask keeps_send_each)

section \<open>All threads\<close>

definition fine_inv :: "platform \<Rightarrow> task set \<Rightarrow> fine \<Rightarrow> bool" where
  "fine_inv pf H s \<longleftrightarrow> acc_inv pf H (fw s) \<and> (\<forall>k. acc.keeps pf H (fw s) (jobs s k)) \<and>
     lp.keeps pf H (fw s, fpool s) (floop s)"

definition queued_heard :: "fine \<Rightarrow> bool" where
  "queued_heard s \<longleftrightarrow> set (tasks (fpool s)) \<subseteq> heard s"

lemma queued_heard_step: "fine_step pf parse s s' \<Longrightarrow> queued_heard s \<Longrightarrow> queued_heard s' \<and> heard s \<subseteq> heard s'"
proof (induction rule: fine_step.induct)
  case (f_start s k t q env)
  from f_start(2,3) show ?case
    by (cases rule: pool_step.cases) (auto simp: queued_heard_def worker_wait_def queue_pop_def
        split: if_splits option.splits list.splits)
next
  case (f_finish s k e t q)
  from f_finish(3,4) show ?case by (cases rule: pool_step.cases) (auto simp: queued_heard_def)
qed (auto simp: queued_heard_def)

lemma fine_inv_step:
  assumes "fine_step pf parse s s'" "fine_inv pf H s" "queued_heard s" "heard s' \<subseteq> H"
  shows "fine_inv pf H s' \<and> acc_grows (fw s) (fw s')"
  using assms(1)
proof cases
  case (f_accept f ip ok)
  let ?w = "on_server (handle_new_connection [Accepted f ip ok, AcceptAgain]) (fw s)"
  have u: "username (session_of ?w j) = (if ok \<and> j = next_sid (w_server (fw s)) then []
      else username (session_of (fw s) j))" for j
    by (simp add: accept_one_heap)
  have "acc_grows (fw s) ?w" by (simp add: acc_grows_def)
  moreover have "acc_inv pf H ?w"
    using assms(2) u vouched_grows [OF _ \<open>acc_grows (fw s) ?w\<close>]
    unfolding fine_inv_def acc_inv_def by (simp del: handle_new_connection.simps) blast
  ultimately show ?thesis
    using f_accept(1) assms(2) lp_later [of pf H "fw s" "fpool s" "floop s" ?w "fpool s"]
      acc.keeps_later [of pf H "fw s" _ ?w]
    by (simp add: fine_inv_def del: handle_new_connection.simps)
next
  case (f_loop f p w q)
  from f_loop(2) assms(2) have "lp.keeps pf H (fw s, fpool s) (Step f)" "loop_inv pf H (fw s, fpool s)"
    by (simp_all add: fine_inv_def)
  from lp.keeps_next [OF this f_loop(3)]
  have "acc_grows (fw s) w" "acc_inv pf H w" "lp.keeps pf H (w, q) p"
    by simp_all
  with f_loop(1) assms(2) show ?thesis by (auto simp: fine_inv_def intro: acc.keeps_later)
next
  case (f_start k t q env)
  from f_start(3) have "t \<in> set (tasks (fpool s))"
    by (cases rule: pool_step.cases) (auto simp: worker_wait_def queue_pop_def
        split: if_splits option.splits list.splits)
  then have "t \<in> H" using assms(3,4) f_start(1) by (auto simp: queued_heard_def)
  with f_start(1) assms(2) lp_later [of pf H "fw s" "fpool s" "floop s" "fw s" "q"] show ?thesis
    by (auto simp: fine_inv_def intro: keeps_task)
next
  case (f_work k f p w)
  from f_work(3) assms(2) have "acc.keeps pf H (fw s) (Step f)" "acc_inv pf H (fw s)"
    by (metis fine_inv_def)+
  from acc.keeps_next [OF this f_work(4)]
  have "acc_grows (fw s) w" "acc_inv pf H w" "acc.keeps pf H w p" by simp_all
  with f_work(1) assms(2) lp_later [of pf H "fw s" "fpool s" "floop s" "w" "fpool s"] show ?thesis
    by (auto simp: fine_inv_def intro: acc.keeps_later)
next
  case (f_finish k e t q)
  with assms(2) lp_later [of pf H "fw s" "fpool s" "floop s" "fw s" "q"] show ?thesis
    by (auto simp: fine_inv_def)
qed (use assms(2) in \<open>auto simp: fine_inv_def intro: keeps_client_event keeps_heartbeat\<close>)

lemma fine_inv_initial:
  assumes "initial_system n = Inr s"
  shows "fine_inv pf H (at_rest s) \<and> queued_heard (at_rest s)"
proof -
  have w: "sys_world s = initial_world" "crashed s = None"
    using assms by (auto simp: initial_system_def split: sum.splits)
  then have "acc_inv pf H (sys_world s)"
    by (simp add: acc_inv_def initial_world_def database_wf_empty new_server_def empty_database_def
        database_wf_def new_session_def)
  with w show ?thesis
    by (simp add: fine_inv_def at_rest_def queued_heard_def acc.keeps_Done lp.keeps_Done)
qed

lemma fine_reachable_heard: "fine_reachable pf parse s \<Longrightarrow> queued_heard s"
  by (induction rule: fine_reachable.induct) (auto dest: fine_inv_initial queued_heard_step)

lemma fine_reachable_inv: "fine_reachable pf parse s \<Longrightarrow> heard s \<subseteq> H \<Longrightarrow> fine_inv pf H s"
proof (induction rule: fine_reachable.induct)
  case (f_initial n s)
  then show ?case by (simp add: fine_inv_initial)
next
  case (f_next s s')
  note q = fine_reachable_heard [OF f_next.hyps(1)]
  have "heard s \<subseteq> H" using queued_heard_step [OF f_next.hyps(2) q] f_next.prems by blast
  from fine_inv_step [OF f_next.hyps(2) f_next.IH [OF this] q f_next.prems] show ?case by simp
qed

lemma coarse_reachable: "reachable pf parse s \<Longrightarrow> \<exists>F. fine_reachable pf parse F \<and> rests s F"
proof (induction rule: reachable.induct)
  case (start n s)
  then show ?case
    by (intro exI [of _ "at_rest s"]) (auto simp: rests_def at_rest_def intro: f_initial [unfolded at_rest_def])
next
  case (step s s')
  then obtain F where F: "fine_reachable pf parse F" "rests s F" by blast
  from coarse_step [OF step.hyps(2) F(2)] F(1) show ?case using fine_run_reachable by blast
qed

section \<open>Properties\<close>


text \<open>
  C15. Every execution of the server with whole tasks as steps is one of the server with atomic
  steps: what the former reaches, the latter reaches at rest, with the same world, the same pool
  and the same exception, if any.
\<close>

theorem coarse_runs_are_fine:
  assumes "reachable pf parse s"
  shows "\<exists>F. fine_reachable pf parse F \<and> fw F = sys_world s \<and> fpool F = sys_pool s \<and>
    floop F = Done (crashed s) \<and> (\<forall>k. ended (jobs F k))"
proof -
  from coarse_reachable [OF assms] show ?thesis by (auto simp: rests_def)
qed

theorem coarse_runs_are_fine_witness:
  "\<exists>F. fine_reachable sample_platform demo_parse F \<and> fw F = sys_world demo3"
  using coarse_runs_are_fine [OF demo3_reachable] by blast



text \<open>
  C20. Nothing is ever taken back, under every interleaving: along every execution accounts keep
  their hashes, no account is registered twice, and the log only grows at its end.
\<close>

theorem fine_permanent:
  assumes "fine_reachable pf parse s" "fine_run pf parse s s'"
  shows "(\<forall>u h. map_of (users (w_db (fw s))) u = Some h \<longrightarrow> map_of (users (w_db (fw s'))) u = Some h) \<and>
    distinct (map fst (users (w_db (fw s')))) \<and> prefix (messages (w_db (fw s))) (messages (w_db (fw s')))"
proof -
  have "fine_reachable pf parse s' \<and> acc_grows (fw s) (fw s')"
    using assms(2) unfolding fine_run_def
  proof (induction rule: rtranclp_induct)
    case base
    show ?case using assms(1) by simp
  next
    case (step t u)
    have t: "fine_reachable pf parse t" using step.IH by simp
    note q = fine_reachable_heard [OF t]
    have "heard t \<subseteq> heard u" using queued_heard_step [OF step.hyps(2) q] by simp
    from fine_inv_step [OF step.hyps(2) fine_reachable_inv [OF t this] q order_refl]
    have "acc_grows (fw t) (fw u)" by simp
    with step show ?case by (auto intro: f_next acc_grows_trans)
  qed
  then have "fine_inv pf (heard s') s'" "acc_grows (fw s) (fw s')" using fine_reachable_inv by blast+
  then show ?thesis
    by (auto simp: fine_inv_def acc_inv_def database_wf_def acc_grows_def prefix_def map_add_Some_iff)
qed

theorem fine_permanent_witness:
  "\<exists>s s'. fine_run sample_platform demo_parse s s' \<and> users (w_db (fw s')) = [(''amy'', sample_hash)] \<and>
     prefix (messages (w_db (fw s))) (messages (w_db (fw s')))"
proof -
  obtain F where F: "fine_reachable sample_platform demo_parse F" "rests demo2 F"
    using coarse_reachable [OF demo_reachable(2)] by blast
  from coarse_step [OF demo_reachable(3) F(2)] obtain F' where
    F': "fine_run sample_platform demo_parse F F'" "rests demo3 F'" by blast
  from fine_permanent [OF F(1) F'(1)] F' show ?thesis
    using demo3_simps(3) by (intro exI [of _ F] exI [of _ F']) (simp add: rests_def)
qed

end
