(* ===== verification/LoginRace.thy ===== *)
theory LoginRace
  imports ServerInvariant
begin

text \<open>
  Logins and disconnects at the grain of their critical sections. \<open>handle_login\<close> runs on a worker
  and \<open>remove_client\<close> on the event loop thread; between two critical sections of one, other
  threads run. Here each is a small-step program (\<open>login_step\<close>, \<open>leave_step\<close>) whose steps are
  the accesses to shared state in the order of the source; run without interruption they are the
  handlers of \<open>MessageRouter\<close> and \<open>ServerMain\<close>. Interleaved, logins
  alone keep names unique (\<open>FineRegistry\<close> has this for all messages), but a disconnect in the middle of a login breaks both
  the online list and the uniqueness of names (last two).
\<close>

section \<open>The programs\<close>

datatype login_pc =
    RateCheck | Reserve | SetPending | Verify
  | RecordFailure | ReleaseFailed | ClearFailed | ReplyFailed
  | ClearAttempts | SetName | AddOnline | SendOk | PushHistory | SendList | NotifyJoin
  | ClearPending | Release | LoginDone

fun login_step ::
  "platform \<Rightarrow> call_env \<Rightarrow> sid \<Rightarrow> string \<Rightarrow> string \<Rightarrow> login_pc \<Rightarrow> world \<Rightarrow> login_pc \<times> world" where
  "login_step pf env i u password RateCheck w =
     (case check_rate env i w of (limited, w0) \<Rightarrow>
        if limited then (LoginDone, send_error i ''RATE_LIMITED'' txt_rate_limited w0)
        else (Reserve, w0))"
| "login_step pf env i u password Reserve w =
     (if u \<in> set (login_in_progress (w_router w))
      then (LoginDone, send_error i ''ALREADY_LOGGED_IN'' txt_logging_in w)
      else if server_find pf u w \<noteq> None
      then (LoginDone, send_error i ''ALREADY_LOGGED_IN'' txt_already_logged_in w)
      else (SetPending, on_router (reserve u) w))"
| "login_step pf env i u password SetPending w =
     (Verify, on_server (upd_session (set_pending_login u) i) w)"
| "login_step pf env i u password Verify w =
     (let stored_hash = get_stored_hash (prep_ok env) u (w_db w) in
      if stored_hash = [] \<or> \<not> verify_password (pf_digest pf) password stored_hash
      then (RecordFailure, w) else (ClearAttempts, w))"
| "login_step pf env i u password RecordFailure w =
     (ReleaseFailed, on_attempts (\<lambda>ip. record_failed_login ip (steady env 1)) i w)"
| "login_step pf env i u password ReleaseFailed w = (ClearFailed, on_router (release u) w)"
| "login_step pf env i u password ClearFailed w =
     (ReplyFailed, on_server (upd_session clear_pending_login i) w)"
| "login_step pf env i u password ReplyFailed w =
     (LoginDone, send_error i ''WRONG_PASSWORD'' txt_wrong_password w)"
| "login_step pf env i u password ClearAttempts w = (SetName, on_attempts clear_login_attempts i w)"
| "login_step pf env i u password SetName w =
     (AddOnline, on_server (upd_session (set_username u) i) w)"
| "login_step pf env i u password AddOnline w =
     (SendOk, on_router (\<lambda>r. r\<lparr>online_users := set_insert u (online_users r)\<rparr>) w)"
| "login_step pf env i u password SendOk w = (PushHistory, send_ok i ''LOGIN_OK'' u w)"
| "login_step pf env i u password PushHistory w =
     (SendList, push_history pf env (cs_fd (session_of w i)) u w)"
| "login_step pf env i u password SendList w = (NotifyJoin, broadcast_user_list pf (clock env 0) w)"
| "login_step pf env i u password NotifyJoin w =
     (ClearPending, server_broadcast pf (notify_msg (u @ txt_joined) (clock env 1)) u w)"
| "login_step pf env i u password ClearPending w =
     (Release, on_server (upd_session clear_pending_login i) w)"
| "login_step pf env i u password Release w = (LoginDone, on_router (release u) w)"
| "login_step pf env i u password LoginDone w = (LoginDone, w)"

fun login_run ::
  "platform \<Rightarrow> call_env \<Rightarrow> sid \<Rightarrow> string \<Rightarrow> string \<Rightarrow> nat \<Rightarrow> login_pc \<times> world \<Rightarrow> login_pc \<times> world" where
  "login_run pf env i u password 0 s = s"
| "login_run pf env i u password (Suc n) (pc, w) =
     login_run pf env i u password n (login_step pf env i u password pc w)"

datatype leave_pc =
    Unlink | ReadPending sid | ReleasePending sid string | DropPending sid
  | ReadName sid | EraseOnline sid string | ClearName sid string | SendLeftList sid string
  | NotifyLeft sid string | Shutdown sid | LeaveDone

fun leave_step :: "platform \<Rightarrow> call_env \<Rightarrow> fd \<Rightarrow> leave_pc \<Rightarrow> world \<Rightarrow> leave_pc \<times> world" where
  "leave_step pf env f Unlink w =
     (case remove_begin f (w_server w) of
        (None, s) \<Rightarrow> (LeaveDone, w\<lparr>w_server := s\<rparr>)
      | (Some i, s) \<Rightarrow> (ReadPending i, w\<lparr>w_server := s\<rparr>))"
| "leave_step pf env f (ReadPending i) w =
     (let pending = get_pending_login (session_of w i) in
      if pending \<noteq> [] then (ReleasePending i pending, w) else (ReadName i, w))"
| "leave_step pf env f (ReleasePending i pending) w =
     (DropPending i, on_router (cleanup_login_reservation pending) w)"
| "leave_step pf env f (DropPending i) w =
     (ReadName i, on_server (upd_session clear_pending_login i) w)"
| "leave_step pf env f (ReadName i) w =
     (if \<not> is_authenticated (session_of w i) then (Shutdown i, w)
      else (EraseOnline i (get_username (session_of w i)), w))"
| "leave_step pf env f (EraseOnline i u) w =
     (ClearName i u, on_router (\<lambda>r. r\<lparr>online_users := set_erase u (online_users r)\<rparr>) w)"
| "leave_step pf env f (ClearName i u) w =
     (SendLeftList i u, on_server (upd_session clear_username i) w)"
| "leave_step pf env f (SendLeftList i u) w =
     (NotifyLeft i u, broadcast_user_list pf (clock env 0) w)"
| "leave_step pf env f (NotifyLeft i u) w =
     (Shutdown i, server_broadcast pf (notify_msg (u @ txt_left) (clock env 1)) [] w)"
| "leave_step pf env f (Shutdown i) w = (LeaveDone, on_server (remove_end f (Some i)) w)"
| "leave_step pf env f LeaveDone w = (LeaveDone, w)"

fun leave_run ::
  "platform \<Rightarrow> call_env \<Rightarrow> fd \<Rightarrow> nat \<Rightarrow> leave_pc \<times> world \<Rightarrow> leave_pc \<times> world" where
  "leave_run pf env f 0 s = s"
| "leave_run pf env f (Suc n) (pc, w) = leave_run pf env f n (leave_step pf env f pc w)"

lemma login_run_done [simp]: "login_run pf env i u p n (LoginDone, w) = (LoginDone, w)"
  by (induction n) auto

lemma leave_run_done [simp]: "leave_run pf env f n (LeaveDone, w) = (LeaveDone, w)"
  by (induction n) auto

section \<open>Without interruption\<close>

lemmas fuel = numeral_eq_Suc

text \<open>
  Uninterrupted, the small steps are the handler: for a LOGIN whose name and password pass
  the length checks, at most 15 steps end in the world \<open>handle_login\<close> returns.
\<close>

theorem login_steps_are_handle_login:
  assumes "json_value msg ''from'' [] = Inr u" "json_value msg ''content'' [] = Inr password"
    and "u \<noteq> []" "password \<noteq> []" "length u \<le> MAX_USERNAME_LEN" "length password \<le> MAX_PASSWORD_LEN"
  shows "handle_login pf env i msg w =
    (None, snd (login_run pf env i u password 15 (RateCheck, w))) \<and>
    fst (login_run pf env i u password 15 (RateCheck, w)) = LoginDone"
proof -
  obtain limited w0 where c: "check_rate env i w = (limited, w0)" by fastforce
  show ?thesis
    using assms by (simp add: handle_login_def c Let_def finish_login_def fuel)
qed

theorem login_steps_are_handle_login_witness:
  "handle_login sample_platform sample_env 1 (request ''LOGIN'' ''amy'' ''pw'') (sample_world 2) =
    (None, snd (login_run sample_platform sample_env 1 ''amy'' ''pw'' 15 (RateCheck, sample_world 2)))"
  using login_steps_are_handle_login [of "request ''LOGIN'' ''amy'' ''pw''" "''amy''" "''pw''"]
  by (simp add: request_values MAX_USERNAME_LEN_def MAX_PASSWORD_LEN_def)

text \<open>
  Uninterrupted, the steps of a disconnect are \<open>remove_client\<close> with the disconnect handler.
\<close>

theorem leave_steps_are_remove_client:
  "leave_run pf env f 10 (Unlink, w) = (LeaveDone, remove_client pf env f w)"
proof -
  obtain r s where r: "remove_begin f (w_server w) = (r, s)" by fastforce
  show ?thesis
    by (cases r) (simp_all add: remove_client_def r disconnect_handler_def handle_logout_def Let_def
        fuel on_server_def remove_end_def)
qed

section \<open>Interleavings\<close>

datatype thread = LoginThread sid string string login_pc | LeaveThread fd leave_pc

fun thread_step :: "platform \<Rightarrow> call_env \<Rightarrow> thread \<Rightarrow> world \<Rightarrow> thread \<times> world" where
  "thread_step pf env (LoginThread i u password pc) w =
     (case login_step pf env i u password pc w of (pc', w') \<Rightarrow> (LoginThread i u password pc', w'))"
| "thread_step pf env (LeaveThread f pc) w =
     (case leave_step pf env f pc w of (pc', w') \<Rightarrow> (LeaveThread f pc', w'))"

text \<open>A schedule names the thread that takes the next step; \<open>env\<close> gives each thread its own clock.\<close>

fun race :: "platform \<Rightarrow> (nat \<Rightarrow> call_env) \<Rightarrow> nat list \<Rightarrow> thread list \<times> world \<Rightarrow> thread list \<times> world" where
  "race pf env [] s = s"
| "race pf env (k # ks) (ts, w) =
     (if k < length ts
      then (case thread_step pf (env k) (ts ! k) w of (t, w') \<Rightarrow> race pf env ks (ts[k := t], w'))
      else race pf env ks (ts, w))"

section \<open>Logins alone\<close>

text \<open>
  The phases of a login: it has not reserved its name yet; it holds the reservation; it has named
  its session but is not on the online list; it is on the list; it has given the reservation back.
\<close>

datatype phase = Before | Holding | Named | Listed | After

fun phase_of :: "login_pc \<Rightarrow> phase" where
  "phase_of RateCheck = Before"
| "phase_of Reserve = Before"
| "phase_of SetPending = Holding"
| "phase_of Verify = Holding"
| "phase_of RecordFailure = Holding"
| "phase_of ReleaseFailed = Holding"
| "phase_of ClearFailed = After"
| "phase_of ReplyFailed = After"
| "phase_of ClearAttempts = Holding"
| "phase_of SetName = Holding"
| "phase_of AddOnline = Named"
| "phase_of SendOk = Listed"
| "phase_of PushHistory = Listed"
| "phase_of SendList = Listed"
| "phase_of NotifyJoin = Listed"
| "phase_of ClearPending = Listed"
| "phase_of Release = Listed"
| "phase_of LoginDone = After"

text \<open>What the argument needs of a world: reservations, names, the online list, the table.\<close>

definition reserved :: "world \<Rightarrow> string set" where
  "reserved w = set (login_in_progress (w_router w))"

definition online :: "world \<Rightarrow> string set" where
  "online w = set (online_users (w_router w))"

definition name_in :: "world \<Rightarrow> sid \<Rightarrow> string" where
  "name_in w i = username (session_of w i)"

lemmas view_defs = reserved_def online_def name_in_def

inductive login_move :: "sid \<Rightarrow> string \<Rightarrow> phase \<Rightarrow> world \<Rightarrow> phase \<Rightarrow> world \<Rightarrow> bool" for i u where
  stay: "reserved w' = reserved w \<Longrightarrow> online w' = online w \<Longrightarrow> name_in w' = name_in w \<Longrightarrow>
    login_move i u ph w ph w'"
| refused: "reserved w' = reserved w \<Longrightarrow> online w' = online w \<Longrightarrow> name_in w' = name_in w \<Longrightarrow>
    login_move i u Before w After w'"
| reserves: "u \<notin> reserved w \<Longrightarrow> \<forall>j \<in> live_sids (w_server w). name_in w j \<noteq> u \<Longrightarrow>
    reserved w' = insert u (reserved w) \<Longrightarrow> online w' = online w \<Longrightarrow> name_in w' = name_in w \<Longrightarrow>
    login_move i u Before w Holding w'"
| gives_up: "reserved w' = reserved w - {u} \<Longrightarrow> online w' = online w \<Longrightarrow> name_in w' = name_in w \<Longrightarrow>
    login_move i u Holding w After w'"
| names: "reserved w' = reserved w \<Longrightarrow> online w' = online w \<Longrightarrow> name_in w' = (name_in w)(i := u) \<Longrightarrow>
    login_move i u Holding w Named w'"
| lists: "reserved w' = reserved w \<Longrightarrow> online w' = insert u (online w) \<Longrightarrow> name_in w' = name_in w \<Longrightarrow>
    login_move i u Named w Listed w'"
| releases: "reserved w' = reserved w - {u} \<Longrightarrow> online w' = online w \<Longrightarrow> name_in w' = name_in w \<Longrightarrow>
    login_move i u Listed w After w'"

lemma login_step_sessions:
  assumes "login_step pf env i u p pc w = (pc', w')"
  shows "sessions (w_server w') = sessions (w_server w)" "server_set (w_router w') = server_set (w_router w)"
  using assms check_rate_simps [of env i w]
  by (cases pc; auto split: if_splits prod.splits simp: Let_def)+

lemma login_step_move:
  assumes "login_step pf env i u p pc w = (pc', w')" "iteration_order (pf_table_order pf)"
    and "server_set (w_router w)"
  shows "login_move i u (phase_of pc) w (phase_of pc') w'"
proof (cases pc)
  case RateCheck
  obtain b w0 where c: "check_rate env i w = (b, w0)" by fastforce
  then have "w_server w0 = w_server w" "online_users (w_router w0) = online_users (w_router w)"
    "login_in_progress (w_router w0) = login_in_progress (w_router w)"
    using check_rate_simps [of env i w] by simp_all
  with assms(1) RateCheck c show ?thesis
    by (cases b) (auto intro!: stay refused simp: view_defs)
next
  case Reserve
  show ?thesis
  proof (cases "u \<in> reserved w \<or> server_find pf u w \<noteq> None")
    case True
    with assms(1) Reserve show ?thesis
      by (auto split: if_splits intro!: refused simp: view_defs)
  next
    case False
    then have "\<forall>j \<in> live_sids (w_server w). name_in w j \<noteq> u"
      using server_find_NoneD [OF assms(2,3), of u] by (simp add: name_in_def)
    with False assms(1) Reserve show ?thesis
      by (auto split: if_splits intro!: reserves simp: view_defs)
  qed
next
  case SetName
  with assms(1) show ?thesis
    by (auto intro!: names simp: view_defs fun_eq_iff set_username_def)
qed (use assms(1) in \<open>auto intro!: stay gives_up lists releases simp: view_defs fun_eq_iff Let_def
      set_pending_login_def clear_pending_login_def split: if_splits\<close>)

text \<open>
  The invariant of interleaved logins, on the phases of the threads: \<open>ts\<close> lists session, name
  and phase of each.
\<close>

type_synonym login_view = "(sid \<times> string \<times> phase) list"

fun view_of :: "thread \<Rightarrow> sid \<times> string \<times> phase" where
  "view_of (LoginThread i u p pc) = (i, u, phase_of pc)"
| "view_of (LeaveThread f pc) = (0, [], After)"

definition holds :: "phase \<Rightarrow> bool" where
  "holds ph \<longleftrightarrow> ph = Holding \<or> ph = Named \<or> ph = Listed"

fun thread_ok :: "world \<Rightarrow> sid \<times> string \<times> phase \<Rightarrow> bool" where
  "thread_ok w (i, u, ph) \<longleftrightarrow> i \<in> live_sids (w_server w) \<and> u \<noteq> [] \<and>
     (ph = Before \<or> ph = Holding \<longrightarrow> name_in w i = []) \<and>
     (ph = Named \<or> ph = Listed \<longrightarrow> name_in w i = u) \<and>
     (holds ph \<longrightarrow> u \<in> reserved w) \<and>
     (ph = Holding \<longrightarrow> (\<forall>j \<in> live_sids (w_server w). name_in w j \<noteq> u))"

definition exclusive :: "login_view \<Rightarrow> bool" where
  "exclusive vs \<longleftrightarrow> (\<forall>k < length vs. \<forall>l < length vs. \<forall>i u ph j ph'.
     vs ! k = (i, u, ph) \<longrightarrow> vs ! l = (j, u, ph') \<longrightarrow> holds ph \<longrightarrow> holds ph' \<longrightarrow> k = l)"

definition being_named :: "login_view \<Rightarrow> string set" where
  "being_named vs = {u. \<exists>k < length vs. \<exists>i. vs ! k = (i, u, Named)}"

definition logins_inv :: "login_view \<Rightarrow> world \<Rightarrow> bool" where
  "logins_inv vs w \<longleftrightarrow> distinct (map fst vs) \<and> server_set (w_router w) \<and>
     unique_online (w_server w) \<and> (\<forall>k < length vs. thread_ok w (vs ! k)) \<and> exclusive vs \<and>
     online w = reg.names (w_server w) - being_named vs"

lemma exclusiveD:
  "exclusive vs \<Longrightarrow> k < length vs \<Longrightarrow> l < length vs \<Longrightarrow> vs ! k = (i, u, ph) \<Longrightarrow> vs ! l = (j, u, ph') \<Longrightarrow>
   holds ph \<Longrightarrow> holds ph' \<Longrightarrow> k = l"
  unfolding exclusive_def by blast

lemma exclusive_update:
  assumes "exclusive vs" "k < length vs" "vs ! k = (i, u, ph)"
    and "holds ph' \<Longrightarrow> holds ph \<or> (\<forall>l < length vs. \<forall>j ph2. vs ! l = (j, u, ph2) \<longrightarrow> \<not> holds ph2)"
  shows "exclusive (vs[k := (i, u, ph')])"
  using assms unfolding exclusive_def by (simp add: nth_list_update) blast

lemma distinct_sessions:
  assumes "distinct (map fst vs)" "k < length vs" "l < length vs" "vs ! k = (i, u, ph)" "vs ! l = (i, v, ph')"
  shows "k = l"
  using assms nth_eq_iff_index_eq [OF assms(1), of k l] by simp

lemma being_named_update:
  assumes "exclusive vs" "k < length vs" "vs ! k = (i, u, ph)" "ph = Named \<or> ph' = Named \<longrightarrow> holds ph"
  shows "being_named (vs[k := (i, u, ph')]) =
    (if ph' = Named then insert u (being_named vs) else if ph = Named then being_named vs - {u} else being_named vs)"
proof -
  define R where "R = {v. \<exists>l < length vs. l \<noteq> k \<and> (\<exists>j. vs ! l = (j, v, Named))}"
  have old: "being_named vs = R \<union> (if ph = Named then {u} else {})"
    using assms(2,3) by (auto simp: being_named_def R_def)
  have new: "being_named (vs[k := (i, u, ph')]) = R \<union> (if ph' = Named then {u} else {})"
    using assms(2) by (auto simp: being_named_def R_def nth_list_update)
  have "u \<notin> R" if "holds ph"
    using exclusiveD [OF assms(1) _ assms(2) _ assms(3)] that by (auto simp: R_def holds_def)
  with assms(4) show ?thesis
    by (auto simp: old new)
qed

text \<open>Worlds that agree on the view.\<close>

lemma view_names: "reg.names (w_server w) = {u. u \<noteq> [] \<and> (\<exists>i \<in> live_sids (w_server w). name_in w i = u)}"
  by (auto simp: reg.names_def name_at_def name_in_def)

lemma view_unique: "unique_online (w_server w) \<longleftrightarrow> (\<forall>i \<in> live_sids (w_server w). \<forall>j \<in> live_sids (w_server w).
    name_in w i \<noteq> [] \<longrightarrow> name_in w i = name_in w j \<longrightarrow> i = j)"
  by (simp add: unique_online_def name_in_def)

lemma logins_move:
  assumes "logins_inv vs w" "k < length vs" "vs ! k = (i, u, ph)" "login_move i u ph w ph' w'"
    and "sessions (w_server w') = sessions (w_server w)" "server_set (w_router w') = server_set (w_router w)"
  shows "logins_inv (vs[k := (i, u, ph')]) w'"
proof -
  have live: "live_sids (w_server w') = live_sids (w_server w)"
    using assms(5) by (simp add: live_sids_def)
  have all: "\<And>l. l < length vs \<Longrightarrow> thread_ok w (vs ! l)"
    and ex: "exclusive vs" and d: "distinct (map fst vs)" and uniq: "unique_online (w_server w)"
    and on: "online w = reg.names (w_server w) - being_named vs" and set: "server_set (w_router w)"
    using assms(1) by (simp_all add: logins_inv_def)
  have ok: "thread_ok w (i, u, ph)" using all [OF assms(2)] unfolding assms(3) .
  have d': "distinct (map fst (vs[k := (i, u, ph')]))"
    using d assms(2,3) by (metis fst_conv list_update_id map_update nth_map)
  have others: "j \<noteq> i" "holds ph \<Longrightarrow> holds ph2 \<Longrightarrow> v \<noteq> u"
    if "vs ! l = (j, v, ph2)" "l < length vs" "l \<noteq> k" for l j v ph2
    using distinct_sessions [OF d that(2) assms(2) that(1)] exclusiveD [OF ex that(2) assms(2) that(1)]
      assms(3) that(3) by blast+
  have ex': "exclusive (vs[k := (i, u, ph')])"
    using assms(4)
  proof cases
    case reserves
    have "\<not> holds ph2" if "vs ! l = (j, u, ph2)" "l < length vs" for l j ph2
      using all [OF that(2)] that(1) reserves by auto
    then show ?thesis by (intro exclusive_update [OF ex assms(2,3)]) blast
  qed (intro exclusive_update [OF ex assms(2,3)]; simp add: holds_def)+
  have uniq': "unique_online (w_server w')"
    using assms(4)
  proof cases
    case names
    with uniq ok show ?thesis by (auto simp: view_unique live)
  qed (use uniq in \<open>simp_all add: view_unique live\<close>)
  have bn: "being_named (vs[k := (i, u, ph')]) = being_named vs"
    if "ph' = ph \<or> (ph \<noteq> Named \<and> ph' \<noteq> Named)"
  proof (cases "ph' = ph")
    case True
    then show ?thesis using list_update_id [of vs k] assms(3) by simp
  next
    case False
    with that show ?thesis by (subst being_named_update [OF ex assms(2,3)]) auto
  qed
  have on': "online w' = reg.names (w_server w') - being_named (vs[k := (i, u, ph')])"
    using assms(4)
  proof cases
    case names
    with ok on show ?thesis
      by (subst being_named_update [OF ex assms(2,3)]) (auto simp: view_names live holds_def)
  next
    case lists
    with ok on show ?thesis
      by (subst being_named_update [OF ex assms(2,3)]) (auto simp: view_names live holds_def)
  qed (use on bn in \<open>simp_all add: view_names live\<close>)
  have "thread_ok w' (vs[k := (i, u, ph')] ! l)" if "l < length vs" for l
  proof (cases "l = k")
    case True
    have "thread_ok w' (i, u, ph')"
      using assms(4)
    proof cases
      case stay
      with ok show ?thesis by (simp add: live)
    next
      case reserves
      with ok show ?thesis by (simp add: live holds_def)
    next
      case names
      with ok show ?thesis by (simp add: live holds_def)
    qed (use ok in \<open>simp_all add: live holds_def\<close>)
    then show ?thesis using True assms(2) by simp
  next
    case False
    obtain j v ph2 where v: "vs ! l = (j, v, ph2)" by (cases "vs ! l")
    have t: "thread_ok w (j, v, ph2)" using all [OF that] unfolding v .
    have ne: "j \<noteq> i" "holds ph \<longrightarrow> holds ph2 \<longrightarrow> v \<noteq> u"
      using others [OF v that False] by blast+
    have "thread_ok w' (j, v, ph2)"
      using assms(4)
    proof cases
      case names
      with t ne show ?thesis by (simp add: live holds_def) blast
    qed (use t ne in \<open>auto simp: live holds_def\<close>)
    then show ?thesis using False v by simp
  qed
  with d' ex' uniq' on' set show ?thesis
    by (simp add: logins_inv_def assms(6))
qed

lemma race_logins:
  assumes "iteration_order (pf_table_order pf)"
  shows "logins_inv (map view_of ts) w \<Longrightarrow> \<forall>t \<in> set ts. \<exists>i u p pc. t = LoginThread i u p pc \<Longrightarrow>
    race pf env ks (ts, w) = (ts', w') \<Longrightarrow>
    logins_inv (map view_of ts') w' \<and> length ts' = length ts \<and>
    (\<forall>t \<in> set ts'. \<exists>i u p pc. t = LoginThread i u p pc)"
proof (induction ks arbitrary: ts w)
  case (Cons k ks)
  show ?case
  proof (cases "k < length ts")
    case True
    then obtain i u p pc where t: "ts ! k = LoginThread i u p pc"
      using Cons.prems(2) nth_mem by blast
    obtain pc1 w1 where st: "login_step pf (env k) i u p pc w = (pc1, w1)" by fastforce
    have set: "server_set (w_router w)" using Cons.prems(1) by (simp add: logins_inv_def)
    have "logins_inv ((map view_of ts)[k := (i, u, phase_of pc1)]) w1"
      using Cons.prems(1) True t login_step_move [OF st assms set] login_step_sessions [OF st]
      by (intro logins_move) auto
    then have "logins_inv (map view_of (ts[k := LoginThread i u p pc1])) w1"
      by (simp add: map_update)
    moreover have "\<forall>t \<in> set (ts[k := LoginThread i u p pc1]). \<exists>i u p pc. t = LoginThread i u p pc"
      using Cons.prems(2) set_update_subset_insert [of ts k "LoginThread i u p pc1"] by auto
    moreover have "race pf env ks (ts[k := LoginThread i u p pc1], w1) = (ts', w')"
      using Cons.prems(3) True t st by simp
    ultimately show ?thesis using Cons.IH by fastforce
  next
    case False
    with Cons show ?thesis by simp
  qed
qed simp

text \<open>
  Logins cannot race each other: start LOGINs on different sessions of the table, all
  without a name, in a world where names are unique and the online list is right, and let the
  workers interleave their steps in any way. At every moment names are unique; and when all of
  them are done, the online list is exactly the set of the names in the table.
\<close>

theorem concurrent_logins_safe:
  assumes "iteration_order (pf_table_order pf)" "server_set (w_router w)"
    and "unique_online (w_server w)" "online w = reg.names (w_server w)"
    and "\<forall>t \<in> set ts. \<exists>i u p. t = LoginThread i u p RateCheck \<and> u \<noteq> [] \<and> i \<in> live_sids (w_server w) \<and>
      username (session_of w i) = []"
    and "distinct (map (\<lambda>t. case t of LoginThread i u p pc \<Rightarrow> i | LeaveThread f pc \<Rightarrow> 0) ts)"
    and "race pf env ks (ts, w) = (ts', w')"
  shows "unique_online (w_server w') \<and>
    ((\<forall>t \<in> set ts'. \<exists>i u p. t = LoginThread i u p LoginDone) \<longrightarrow>
      set (online_users (w_router w')) =
        {u. u \<noteq> [] \<and> (\<exists>i \<in> live_sids (w_server w'). username (session_of w' i) = u)})"
proof -
  have start: "view_of (ts ! k) = (i, u, Before) \<and> i \<in> live_sids (w_server w) \<and> u \<noteq> [] \<and> name_in w i = []"
    if "k < length ts" "ts ! k = LoginThread i u p pc" for k i u p pc
    using assms(5) nth_mem [OF that(1)] that(2) by (auto simp: name_in_def)
  have login: "\<exists>i u p pc. ts ! k = LoginThread i u p pc" if "k < length ts" for k
    using assms(5) nth_mem [OF that] by blast
  have sids: "map fst (map view_of ts) = map (\<lambda>t. case t of LoginThread i u p pc \<Rightarrow> i | LeaveThread f pc \<Rightarrow> 0) ts"
    using assms(5) by (auto split: thread.split)
  have d: "distinct (map fst (map view_of ts))"
    unfolding sids by (rule assms(6))
  have "thread_ok w (map view_of ts ! k)" if "k < length (map view_of ts)" for k
    using that login [of k] start [of k] by (auto simp: holds_def)
  moreover have no: "map view_of ts ! k \<noteq> (i, u, ph)" if "k < length ts" "ph \<noteq> Before" for k i u ph
    using that login [of k] start [of k] by auto
  then have "exclusive (map view_of ts)" "being_named (map view_of ts) = {}"
    by (auto simp: exclusive_def being_named_def holds_def)
  ultimately have "logins_inv (map view_of ts) w"
    using assms(2-4) d by (simp add: logins_inv_def)
  from race_logins [OF assms(1) this _ assms(7)] assms(5)
  have inv: "logins_inv (map view_of ts') w'" by blast
  moreover have "being_named (map view_of ts') = {}"
    if "\<forall>t \<in> set ts'. \<exists>i u p. t = LoginThread i u p LoginDone"
  proof -
    have "view_of (ts' ! k) \<noteq> (i, u, Named)" if "k < length ts'" for k i u
      using \<open>\<forall>t \<in> set ts'. _ t\<close> nth_mem [OF that] by fastforce
    then show ?thesis by (auto simp: being_named_def)
  qed
  ultimately show ?thesis
    by (auto simp: logins_inv_def view_names online_def name_in_def)
qed

section \<open>Concrete schedules\<close>

definition race_world :: world where
  "race_world = (sample_world 3)\<lparr>w_db := empty_database\<lparr>users := [(''amy'', sample_hash)]\<rparr>\<rparr>"

lemma race_world_simps [simp]:
  "sessions (w_server race_world) = [(7, 0), (8, 1), (9, 2)]"
  "username (session_of race_world j) = []" "pending_login (session_of race_world j) = []"
  "cs_fd (session_of race_world 0) = 7" "cs_fd (session_of race_world (Suc 0)) = 8"
  "cs_fd (session_of race_world 2) = 9"
  "ip_address (session_of race_world 0) = ''10.0.0.1''"
  "ip_address (session_of race_world (Suc 0)) = ''10.0.0.1''"
  "ip_address (session_of race_world 2) = ''10.0.0.1''"
  "ip_address (session_of race_world (Suc (Suc 0))) = ''10.0.0.1''"
  "cs_fd (session_of race_world (Suc (Suc 0))) = 9"
  "login_in_progress (w_router race_world) = []" "login_attempts (w_router race_world) = []"
  "online_users (w_router race_world) = []" "server_set (w_router race_world)"
  "w_db race_world = empty_database\<lparr>users := [(''amy'', sample_hash)]\<rparr>"
  by (simp_all add: race_world_def sample_world_def upt_rec accept_one_def Let_def new_server_def
      session_defs set_server_def new_router_def)

lemma verify_sample [simp]:
  "get_stored_hash (prep_ok sample_env) ''amy'' (empty_database\<lparr>users := [(''amy'', sample_hash)]\<rparr>) = sample_hash"
  "sample_hash \<noteq> []" "verify_password (pf_digest sample_platform) ''pw'' sample_hash"
proof -
  show "get_stored_hash (prep_ok sample_env) ''amy'' (empty_database\<lparr>users := [(''amy'', sample_hash)]\<rparr>) = sample_hash"
    by (simp add: get_stored_hash_def sample_env_def c_str_def)
  show "sample_hash \<noteq> []" by (rule hash_password_nonempty [OF sample_hash_password])
  show "verify_password (pf_digest sample_platform) ''pw'' sample_hash"
    unfolding sample_hash_def sample_platform_def
    by (subst verify_salted [OF hex_bytes_no_colon])
       (simp_all add: sha256_hex_def hex_bytes_def hex_byte_def string_bytes_def)
qed

lemma attempts_simps [simp]:
  "login_attempts (w_router w) = [] \<Longrightarrow> ip_address (session_of w i) \<noteq> [] \<Longrightarrow>
   check_rate env i w = (False, on_router (\<lambda>r. r\<lparr>login_attempts := []\<rparr>) w)"
  "login_attempts (w_router w) = [] \<Longrightarrow>
   login_attempts (w_router (on_attempts clear_login_attempts i w)) = []"
  by (simp_all add: check_rate_def Let_def is_rate_limited_def on_attempts_def clear_login_attempts_def
      alist_erase_def)

lemma session_sel_simps [simp]:
  "username (set_pending_login u c) = username c" "username (clear_pending_login c) = username c"
  "username (set_username u c) = u" "username (clear_username c) = []"
  "ip_address (set_pending_login u c) = ip_address c" "ip_address (clear_pending_login c) = ip_address c"
  "ip_address (set_username u c) = ip_address c"
  "pending_login (set_pending_login v c) = v" "pending_login (clear_pending_login c) = []"
  "pending_login (set_username v c) = pending_login c"
  "cs_fd (set_pending_login u c) = cs_fd c" "cs_fd (clear_pending_login c) = cs_fd c"
  "cs_fd (set_username u c) = cs_fd c"
  by (simp_all add: session_defs)

lemma sample_order [simp]: "pf_table_order sample_platform = (\<lambda>xs. xs)"
  by (simp add: sample_platform_def)

lemma remove_end_simps [simp]:
  "sessions (remove_end f r s) = sessions s" "heap (remove_end f r s) = heap s"
  by (simp_all add: remove_end_def split: option.split)

lemmas run_simps = fuel server_find_def find_session_def get_username_def
  remove_begin_def alist_erase_def set_insert_def set_erase_def get_pending_login_def

definition ghost_schedule :: "nat list" where
  "ghost_schedule = replicate 5 0 @ replicate 6 1 @ replicate 8 0"

text \<open>
  A disconnect in the middle of a login leaves a ghost: when the event loop removes session 0
  after the worker verified its password and before the worker names it, everything ends with
  \<open>amy\<close> on the online list, announced to all clients, although no session in the table has that
  name; the removed session 0 carries it, and nothing but a later login and logout of \<open>amy\<close>
  would take it off the list.
\<close>

theorem ghost_user:
  "\<exists>w'. race sample_platform (\<lambda>_. sample_env) ghost_schedule
     ([LoginThread 0 ''amy'' ''pw'' RateCheck, LeaveThread 7 Unlink], race_world) =
     ([LoginThread 0 ''amy'' ''pw'' LoginDone, LeaveThread 7 LeaveDone], w') \<and>
     online_users (w_router w') = [''amy''] \<and> sessions (w_server w') = [(8, 1), (9, 2)] \<and>
     (\<forall>i. username (session_of w' i) = (if i = 0 then ''amy'' else []))"
  by (simp add: ghost_schedule_def run_simps cleanup_login_reservation_def Let_def is_authenticated_def)

text \<open>
  Three LOGINs of the same name and one disconnect: session 0 disconnects in the middle of its
  login; session 1 reserves the freed name; the end of session 0's login releases that
  reservation; session 2 logs in; then session 1 finishes.
\<close>

definition double_schedule :: "nat list" where
  "double_schedule = replicate 5 0 @ replicate 6 1 @ replicate 3 2 @ replicate 8 0 @
     replicate 13 3 @ replicate 10 2"


theorem concurrent_logins_safe_witness:
  "unique_online (w_server (snd (race sample_platform (\<lambda>_. sample_env) (concat (replicate 13 [0, 1]))
     ([LoginThread 0 ''amy'' ''pw'' RateCheck, LoginThread 1 ''amy'' ''pw'' RateCheck], race_world))))"
proof -
  let ?ts = "[LoginThread 0 ''amy'' ''pw'' RateCheck, LoginThread 1 ''amy'' ''pw'' RateCheck]"
  obtain ts' w' where r: "race sample_platform (\<lambda>_. sample_env) (concat (replicate 13 [0, 1]))
    (?ts, race_world) = (ts', w')" by fastforce
  have "unique_online (w_server race_world)" "online race_world = reg.names (w_server race_world)"
    by (simp_all add: unique_online_def view_names online_def name_in_def)
  from concurrent_logins_safe [OF _ _ this _ _ r]
  have "unique_online (w_server w')" by (simp add: live_sids_def)
  then show ?thesis unfolding r by simp
qed

end
