(* ===== verification/FineRegistry.thy ===== *)
theory FineRegistry
  imports FineHandlers LoginRace
begin

text \<open>
  The registry of names under interleaving: any number of messages of any kind, each of another
  session in the table, run as programs of atomic steps in any order. Every program is followed
  through the standings of its session with respect to one name; the invariant of all standings
  keeps names unique and accounts for every difference between the online list and the table.
  Two messages of the same session are the subject of \<open>FineRaces\<close>.
\<close>

section \<open>Standings\<close>

text \<open>
  A session has no name and nothing reserved; it has reserved its name to register it, or to log in
  with nobody of that name in the table; it may take the name; it has the name and is about to
  be listed; it is listed and still holds the reservation; it is online; it has left the list
  and keeps the name for one more step; it is done.
\<close>

datatype standing = Fresh | Trying | Claiming | Entitled | Naming | Joined | Online | Leaving | Over

fun reserving :: "standing \<Rightarrow> bool" where
  "reserving Trying = True"
| "reserving Claiming = True"
| "reserving Entitled = True"
| "reserving Naming = True"
| "reserving Joined = True"
| "reserving _ = False"

fun hiding :: "standing \<Rightarrow> bool" where
  "hiding Naming = True"
| "hiding Leaving = True"
| "hiding _ = False"

fun resting :: "standing \<Rightarrow> bool" where
  "resting Fresh = True"
| "resting Trying = True"
| "resting Online = True"
| "resting Over = True"
| "resting _ = False"

definition nobody :: "world \<Rightarrow> string \<Rightarrow> bool" where
  "nobody w u \<longleftrightarrow> (\<forall>j \<in> live_sids (w_server w). name_in w j \<noteq> u)"

definition has_account :: "world \<Rightarrow> string \<Rightarrow> bool" where
  "has_account w u \<longleftrightarrow> c_str u \<in> accounts w"

fun stands :: "world \<Rightarrow> sid \<Rightarrow> string \<Rightarrow> standing \<Rightarrow> bool" where
  "stands w i u Fresh \<longleftrightarrow> name_in w i = []"
| "stands w i u Trying \<longleftrightarrow> name_in w i = [] \<and> u \<in> reserved w \<and> u \<noteq> []"
| "stands w i u Claiming \<longleftrightarrow> name_in w i = [] \<and> u \<in> reserved w \<and> u \<noteq> [] \<and> nobody w u"
| "stands w i u Entitled \<longleftrightarrow> name_in w i = [] \<and> u \<in> reserved w \<and> u \<noteq> [] \<and> nobody w u \<and> has_account w u"
| "stands w i u Naming \<longleftrightarrow> name_in w i = u \<and> u \<in> reserved w \<and> u \<noteq> []"
| "stands w i u Joined \<longleftrightarrow> name_in w i = u \<and> u \<in> reserved w \<and> u \<noteq> []"
| "stands w i u Online \<longleftrightarrow> name_in w i = u \<and> u \<noteq> []"
| "stands w i u Leaving \<longleftrightarrow> name_in w i = u \<and> u \<noteq> []"
| "stands w i u Over \<longleftrightarrow> True"

definition same_table :: "world \<Rightarrow> world \<Rightarrow> bool" where
  "same_table w w' \<longleftrightarrow> sessions (w_server w') = sessions (w_server w) \<and>
     server_set (w_router w') = server_set (w_router w) \<and> accounts w \<subseteq> accounts w'"

definition same_view :: "world \<Rightarrow> world \<Rightarrow> bool" where
  "same_view w w' \<longleftrightarrow> same_table w w' \<and> reserved w' = reserved w \<and> online w' = online w \<and>
     name_in w' = name_in w"

text \<open>What one step of a program may change, and the standing it leads to.\<close>

inductive move :: "sid \<Rightarrow> string \<Rightarrow> standing \<Rightarrow> world \<Rightarrow> standing \<Rightarrow> world \<Rightarrow> bool" for i u where
  m_stay: "same_view w w' \<Longrightarrow> move i u st w st w'"
| m_try: "u \<notin> reserved w \<Longrightarrow> u \<noteq> [] \<Longrightarrow> same_table w w' \<Longrightarrow> reserved w' = insert u (reserved w) \<Longrightarrow>
    online w' = online w \<Longrightarrow> name_in w' = name_in w \<Longrightarrow> move i u Fresh w Trying w'"
| m_claim: "u \<notin> reserved w \<Longrightarrow> u \<noteq> [] \<Longrightarrow> nobody w u \<Longrightarrow> same_table w w' \<Longrightarrow>
    reserved w' = insert u (reserved w) \<Longrightarrow> online w' = online w \<Longrightarrow> name_in w' = name_in w \<Longrightarrow>
    move i u Fresh w Claiming w'"
| m_register: "\<not> has_account w u \<Longrightarrow> has_account w' u \<Longrightarrow> same_view w w' \<Longrightarrow> move i u Trying w Entitled w'"
| m_verify: "has_account w' u \<Longrightarrow> same_view w w' \<Longrightarrow> move i u Claiming w Entitled w'"
| m_give_up: "same_table w w' \<Longrightarrow> reserved w' = reserved w - {u} \<Longrightarrow> online w' = online w \<Longrightarrow>
    name_in w' = name_in w \<Longrightarrow> reserving st \<Longrightarrow> \<not> hiding st \<Longrightarrow> move i u st w Over w'"
| m_name: "same_table w w' \<Longrightarrow> reserved w' = reserved w \<Longrightarrow> online w' = online w \<Longrightarrow>
    name_in w' = (name_in w)(i := u) \<Longrightarrow> move i u Entitled w Naming w'"
| m_list: "same_table w w' \<Longrightarrow> reserved w' = reserved w \<Longrightarrow> online w' = insert u (online w) \<Longrightarrow>
    name_in w' = name_in w \<Longrightarrow> move i u Naming w Joined w'"
| m_delist: "same_table w w' \<Longrightarrow> reserved w' = reserved w \<Longrightarrow> online w' = online w - {u} \<Longrightarrow>
    name_in w' = name_in w \<Longrightarrow> move i u Online w Leaving w'"
| m_unname: "same_table w w' \<Longrightarrow> reserved w' = reserved w \<Longrightarrow> online w' = online w \<Longrightarrow>
    name_in w' = (name_in w)(i := []) \<Longrightarrow> move i u Leaving w Over w'"

section \<open>Programs through their standings\<close>

inductive tracks :: "platform \<Rightarrow> sid \<Rightarrow> string \<Rightarrow> standing \<Rightarrow> world prog \<Rightarrow> bool" for pf i u where
  t_Done: "resting st \<Longrightarrow> tracks pf i u st (Done e)"
| t_Step: "(\<And>w p w'. stands w i u st \<Longrightarrow> server_set (w_router w) \<Longrightarrow> f w = (p, w') \<Longrightarrow>
      \<exists>st'. move i u st w st' w' \<and> tracks pf i u st' p) \<Longrightarrow> tracks pf i u st (Step f)"

inductive_cases tracks_StepE: "tracks pf i u st (Step f)"
inductive_cases tracks_DoneE: "tracks pf i u st (Done e)"

inductive neutral :: "world prog \<Rightarrow> bool" where
  n_Done: "neutral (Done None)"
| n_Step: "(\<And>w p w'. f w = (p, w') \<Longrightarrow> same_view w w' \<and> neutral p) \<Longrightarrow> neutral (Step f)"

lemma andthen_act: "andthen (act f) q = Step (\<lambda>s. (q, f s))"
  by (simp add: act_def)

lemma tracks_ask: "(\<And>w. stands w i u st \<Longrightarrow> server_set (w_router w) \<Longrightarrow> tracks pf i u st (k (g w))) \<Longrightarrow>
    tracks pf i u st (ask g k)"
  by (auto simp: ask_def same_view_def same_table_def intro!: t_Step m_stay exI [of _ st])

lemma tracks_act:
  "(\<And>w. stands w i u st \<Longrightarrow> server_set (w_router w) \<Longrightarrow> move i u st w st' (f w)) \<Longrightarrow> tracks pf i u st' q \<Longrightarrow>
   tracks pf i u st (andthen (act f) q)"
  unfolding andthen_act by (rule t_Step) auto

lemma tracks_neutral: "neutral p \<Longrightarrow> tracks pf i u st q \<Longrightarrow> tracks pf i u st (andthen p q)"
proof (induction rule: neutral.induct)
  case (n_Step f)
  then show ?case by (auto intro!: t_Step exI [of _ st] m_stay split: prod.splits simp: map_prod_def)
qed simp

lemma neutral_ask: "(\<And>w. neutral (k (g w))) \<Longrightarrow> neutral (ask g k)"
  by (auto simp: ask_def same_view_def same_table_def intro!: n_Step)

lemma neutral_act: "(\<And>w. same_view w (f w)) \<Longrightarrow> neutral (act f)"
  by (auto simp: act_def intro!: n_Step n_Done)

lemma neutral_andthen: "neutral p \<Longrightarrow> neutral q \<Longrightarrow> neutral (andthen p q)"
  by (induction rule: neutral.induct) (auto intro!: n_Step split: prod.splits simp: map_prod_def)

lemma neutral_tracks: "neutral p \<Longrightarrow> resting st \<Longrightarrow> tracks pf i u st p"
  by (induction rule: neutral.induct) (auto intro!: t_Done t_Step exI [of _ st] m_stay)

section \<open>The handlers' programs\<close>

lemma same_viewI:
  assumes "sessions (w_server w') = sessions (w_server w)" "server_set (w_router w') = server_set (w_router w)"
    and "accounts w \<subseteq> accounts w'" "login_in_progress (w_router w') = login_in_progress (w_router w)"
    and "online_users (w_router w') = online_users (w_router w)"
    and "\<And>j. username (session_of w' j) = username (session_of w j)"
  shows "same_view w w'"
  using assms by (auto simp: same_view_def same_table_def reserved_def online_def name_in_def fun_eq_iff)

lemma neutral_quiet:
  assumes "\<And>w. w_db (f w) = w_db w" "\<And>w. sessions (w_server (f w)) = sessions (w_server w)"
    and "\<And>w. server_set (w_router (f w)) = server_set (w_router w)"
    and "\<And>w. login_in_progress (w_router (f w)) = login_in_progress (w_router w)"
    and "\<And>w. online_users (w_router (f w)) = online_users (w_router w)"
    and "\<And>w j. username (session_of (f w) j) = username (session_of w j)"
  shows "neutral (act f)"
  using assms by (intro neutral_act same_viewI) (simp_all add: accounts_def)

lemma neutral_error: "neutral (error_prog i c t)"
  unfolding error_prog_def by (rule neutral_quiet) simp_all

lemma neutral_send_each: "neutral (send_each m is)"
  by (induction "is") (auto intro!: n_Done neutral_andthen neutral_quiet)

lemma neutral_sends:
  "neutral (broadcast_prog pf m ex)" "neutral (send_to_fd_prog f m)" "neutral (user_list_prog pf now)"
  "neutral (push_history_prog pf env f u)"
  unfolding broadcast_prog_def send_to_fd_prog_def user_list_prog_def push_history_prog_def
  by (intro neutral_ask neutral_send_each)+

lemma neutral_small:
  "neutral (act (on_server (upd_session (set_pending_login v) i)))"
  "neutral (act (on_server (upd_session clear_pending_login i)))"
  "neutral (act (on_attempts a i))" "neutral (act (send_ok i t v))"
  by (rule neutral_quiet; simp add: session_defs)+

lemma neutral_store: "neutral (store_prog env from to c)"
  unfolding store_prog_def
  by (intro neutral_act same_viewI) (simp_all add: accounts_def store_message_def)

lemmas neutrals = neutral_error neutral_sends neutral_small neutral_store neutral_ask neutral_andthen
  n_Done

lemma neutral_messages:
  "json_value msg ''content'' [] = Inr c \<Longrightarrow> neutral (handle_broadcast_prog pf env i msg)"
  "json_value msg ''to'' [] = Inr t \<Longrightarrow> json_value msg ''content'' [] = Inr c \<Longrightarrow>
     neutral (handle_private_prog pf env i msg)"
  "json_value msg ''to'' room = Inr t \<Longrightarrow> neutral (handle_history_req_prog pf env i msg)"
  unfolding handle_broadcast_prog_def handle_private_prog_def handle_history_req_prog_def
  by (auto intro!: neutrals split: option.split)

text \<open>The end of a REGISTER or LOGIN that has earned its name.\<close>

lemma tracks_finish_login: "tracks pf i u Entitled (finish_login_prog pf env i u)"
proof -
  have set: "move i u Entitled w Naming (on_server (upd_session (set_username u) i) w)" for w
    by (rule m_name) (auto simp: same_table_def view_defs accounts_def fun_eq_iff set_username_def)
  have lst: "move i u Naming w Joined (on_router (\<lambda>r. r\<lparr>online_users := set_insert u (online_users r)\<rparr>) w)" for w
    by (rule m_list) (auto simp: same_table_def view_defs accounts_def fun_eq_iff)
  have rel: "move i u Joined w Over (on_router (release u) w)" for w
    by (rule m_give_up) (auto simp: same_table_def view_defs accounts_def fun_eq_iff)
  show ?thesis
    unfolding finish_login_prog_def stage.simps
    by (intro tracks_act [OF set] tracks_act [OF lst] tracks_neutral neutrals tracks_act [OF rel] t_Done) simp_all
qed

lemma tracks_give_up:
  assumes "reserving st" "\<not> hiding st" "neutral p"
  shows "tracks pf i u st (andthen (act (on_router (release u))) p)"
proof (rule tracks_act)
  show "move i u st w Over (on_router (release u) w)" for w
    by (rule m_give_up) (auto simp: assms same_table_def view_defs accounts_def fun_eq_iff)
  show "tracks pf i u Over p" using assms(3) by (rule neutral_tracks) simp
qed

lemma tracks_register_reserved:
  assumes "u \<noteq> []"
  shows "tracks pf i u Trying (register_reserved pf env i u p)"
proof -
  have "tracks pf i u Trying (Step (\<lambda>w. case register_user (step_done env) u h (w_db w) of
        (False, d) \<Rightarrow> (stage [act (on_router (release u)),
             act (on_server (upd_session clear_pending_login i)),
             error_prog i ''USER_EXISTS'' txt_user_exists], w\<lparr>w_db := d\<rparr>)
      | (True, d) \<Rightarrow> (finish_login_prog pf env i u, w\<lparr>w_db := d\<rparr>)))" for h
  proof (rule t_Step)
    fix w w' :: world and q assume step: "(case register_user (step_done env) u h (w_db w) of
        (False, d) \<Rightarrow> (stage [act (on_router (release u)),
             act (on_server (upd_session clear_pending_login i)),
             error_prog i ''USER_EXISTS'' txt_user_exists], w\<lparr>w_db := d\<rparr>)
      | (True, d) \<Rightarrow> (finish_login_prog pf env i u, w\<lparr>w_db := d\<rparr>)) = (q, w')"
    obtain r d where r: "register_user (step_done env) u h (w_db w) = (r, d)" by fastforce
    have v: "same_view w (w\<lparr>w_db := d\<rparr>)"
      using r by (intro same_viewI) (auto simp: accounts_def register_user_def split: if_splits)
    show "\<exists>st'. move i u Trying w st' w' \<and> tracks pf i u st' q"
    proof (cases r)
      case True
      with r have "\<not> has_account w u" "has_account (w\<lparr>w_db := d\<rparr>) u"
        by (auto simp: has_account_def accounts_def register_user_True)
      from m_register [OF this v] step r True tracks_finish_login show ?thesis
        by (intro exI [of _ Entitled]) auto
    next
      case False
      have "tracks pf i u Trying (stage [act (on_router (release u)),
             act (on_server (upd_session clear_pending_login i)),
             error_prog i ''USER_EXISTS'' txt_user_exists])"
        unfolding stage.simps by (rule tracks_give_up) (auto intro!: neutrals)
      with m_stay [OF v] step r False show ?thesis
        by (intro exI [of _ Trying]) (auto simp del: stage.simps)
    qed
  qed
  then show ?thesis unfolding register_reserved_def
    by (auto intro!: tracks_neutral neutral_small t_Done split: sum.split simp del: stage.simps)
qed

lemma tracks_login_reserved:
  assumes "u \<noteq> []"
  shows "tracks pf i u Claiming (login_reserved pf env i u p)"
proof -
  have fail: "tracks pf i u Claiming (stage [act (on_attempts a i), act (on_router (release u)),
      act (on_server (upd_session clear_pending_login i)), error_prog i c t])" for a c t
    unfolding stage.simps by (intro tracks_neutral neutral_small tracks_give_up) (auto intro!: neutrals)
  have fin: "tracks pf i u Entitled (andthen (act (on_attempts a i)) (finish_login_prog pf env i u))" for a
    by (intro tracks_neutral neutral_small tracks_finish_login)
  have "tracks pf i u Claiming (ask (\<lambda>w. get_stored_hash (prep_ok env) u (w_db w)) (\<lambda>stored_hash.
          if stored_hash = [] \<or> \<not> verify_password (pf_digest pf) p stored_hash
          then stage [act (on_attempts (\<lambda>ip. record_failed_login ip (steady env 1)) i),
                      act (on_router (release u)),
                      act (on_server (upd_session clear_pending_login i)),
                      error_prog i ''WRONG_PASSWORD'' txt_wrong_password]
          else andthen (act (on_attempts clear_login_attempts i))
                 (finish_login_prog pf env i u)))"
    unfolding ask_def
  proof (rule t_Step)
    fix w w' :: world and q assume step: "(if get_stored_hash (prep_ok env) u (w_db w) = [] \<or>
             \<not> verify_password (pf_digest pf) p (get_stored_hash (prep_ok env) u (w_db w))
          then stage [act (on_attempts (\<lambda>ip. record_failed_login ip (steady env 1)) i),
                      act (on_router (release u)),
                      act (on_server (upd_session clear_pending_login i)),
                      error_prog i ''WRONG_PASSWORD'' txt_wrong_password]
          else andthen (act (on_attempts clear_login_attempts i))
                 (finish_login_prog pf env i u), w) = (q, w')"
    have v: "same_view w w" by (simp add: same_view_def same_table_def)
    show "\<exists>st'. move i u Claiming w st' w' \<and> tracks pf i u st' q"
    proof (cases "get_stored_hash (prep_ok env) u (w_db w) = [] \<or>
             \<not> verify_password (pf_digest pf) p (get_stored_hash (prep_ok env) u (w_db w))")
      case True
      with step fail m_stay [OF v] show ?thesis
        by (intro exI [of _ Claiming]) (auto simp del: stage.simps split: if_splits)
    next
      case False
      then have "has_account w u" using get_stored_hash_known by (auto simp: has_account_def accounts_def)
      from m_verify [OF this v] step False fin show ?thesis
        by (intro exI [of _ Entitled]) (auto simp del: stage.simps)
    qed
  qed
  then show ?thesis unfolding login_reserved_def
    by (intro tracks_neutral neutral_small) assumption
qed

lemma same_view_refl [simp]: "same_view w w"
  by (simp add: same_view_def same_table_def)

lemma same_view_send_error: "same_view w (send_error i c t w)"
  by (rule same_viewI) (simp_all add: accounts_def)

lemma move_reserve:
  assumes "u \<notin> set (login_in_progress (w_router w))" "u \<noteq> []"
  shows "move i u Fresh w Trying (on_router (reserve u) w)"
    and "nobody w u \<Longrightarrow> move i u Fresh w Claiming (on_router (reserve u) w)"
  using assms by (auto intro!: m_try m_claim simp: same_table_def view_defs accounts_def fun_eq_iff)

lemma tracks_register:
  assumes "json_value msg ''from'' [] = Inr u"
  shows "tracks pf i u Fresh (handle_register_prog pf env i msg)"
proof -
  have "tracks pf i u Fresh (Step (\<lambda>w.
        if u \<in> set (login_in_progress (w_router w))
        then (Done None, send_error i c t w)
        else (register_reserved pf env i u p, on_router (reserve u) w)))" if "u \<noteq> []" for p c t
  proof (rule t_Step)
    fix w w' :: world and q assume step: "(if u \<in> set (login_in_progress (w_router w))
        then (Done None, send_error i c t w)
        else (register_reserved pf env i u p, on_router (reserve u) w)) = (q, w')"
    show "\<exists>st'. move i u Fresh w st' w' \<and> tracks pf i u st' q"
    proof (cases "u \<in> set (login_in_progress (w_router w))")
      case True
      with step m_stay [OF same_view_send_error] show ?thesis by (auto intro!: exI [of _ Fresh] t_Done)
    next
      case False
      with step move_reserve(1) [OF False that] tracks_register_reserved [OF that] show ?thesis
        by (auto intro!: exI [of _ Trying])
    qed
  qed
  then show ?thesis unfolding handle_register_prog_def assms
    by (auto intro!: t_Done neutral_tracks neutral_error split: sum.split)
qed

lemma tracks_login:
  assumes "json_value msg ''from'' [] = Inr u" "iteration_order (pf_table_order pf)"
  shows "tracks pf i u Fresh (handle_login_prog pf env i msg)"
proof -
  have inner: "tracks pf i u Fresh (Step (\<lambda>w.
           if u \<in> set (login_in_progress (w_router w))
           then (Done None, send_error i c t w)
           else if server_find pf u w \<noteq> None then (Done None, send_error i c t' w)
           else (login_reserved pf env i u p, on_router (reserve u) w)))" if "u \<noteq> []" for p c t t'
  proof (rule t_Step)
    fix w w' :: world and q assume set: "server_set (w_router w)"
      and step: "(if u \<in> set (login_in_progress (w_router w))
           then (Done None, send_error i c t w)
           else if server_find pf u w \<noteq> None then (Done None, send_error i c t' w)
           else (login_reserved pf env i u p, on_router (reserve u) w)) = (q, w')"
    show "\<exists>st'. move i u Fresh w st' w' \<and> tracks pf i u st' q"
    proof (cases "u \<in> set (login_in_progress (w_router w)) \<or> server_find pf u w \<noteq> None")
      case True
      then have "q = Done None" "same_view w w'"
        using step same_view_send_error by (auto split: if_splits)
      then show ?thesis by (intro exI [of _ Fresh]) (simp add: m_stay t_Done)
    next
      case False
      then have "nobody w u"
        using server_find_NoneD [OF assms(2) set, of u] by (simp add: nobody_def name_in_def)
      then show ?thesis
        using step False move_reserve(2) [OF _ that] tracks_login_reserved [OF that]
        by (intro exI [of _ Claiming]) auto
    qed
  qed
  have "tracks pf i u Fresh (Step (\<lambda>w. case check_rate env i w of (limited, w0) \<Rightarrow>
      (if limited then error_prog i c t else q, w0)))" if "tracks pf i u Fresh q" for q c t
  proof (rule t_Step)
    fix w w' :: world and r assume step: "(case check_rate env i w of (limited, w0) \<Rightarrow>
      (if limited then error_prog i c t else q, w0)) = (r, w')"
    have w': "w' = snd (check_rate env i w)" and r: "r = error_prog i c t \<or> r = q"
      using step by (auto split: prod.splits if_splits)
    have "same_view w w'" unfolding w' by (rule same_viewI) (simp_all add: accounts_def)
    moreover have "tracks pf i u Fresh r"
      using r that neutral_tracks [OF neutral_error, of Fresh] by auto
    ultimately show "\<exists>st'. move i u Fresh w st' w' \<and> tracks pf i u st' r"
      by (intro exI [of _ Fresh]) (simp add: m_stay)
  qed
  with inner show ?thesis unfolding handle_login_prog_def assms
    by (auto intro!: t_Done neutral_tracks neutral_error split: sum.split)
qed

lemma tracks_logout: "tracks pf i u Online (handle_logout_prog pf env i)"
proof -
  have del: "move i u Online w Leaving (on_router (\<lambda>r. r\<lparr>online_users := set_erase u (online_users r)\<rparr>) w)" for w
    by (rule m_delist) (auto simp: same_table_def view_defs accounts_def fun_eq_iff)
  have clr: "move i u Leaving w Over (on_server (upd_session clear_username i) w)" for w
    by (rule m_unname) (auto simp: same_table_def view_defs accounts_def fun_eq_iff clear_username_def)
  have "tracks pf i u Online (stage
         [act (on_router (\<lambda>r. r\<lparr>online_users := set_erase u (online_users r)\<rparr>)),
          act (on_server (upd_session clear_username i)),
          user_list_prog pf (clock env 0),
          broadcast_prog pf (notify_msg (u @ txt_left) (clock env 1)) []])"
    unfolding stage.simps
    by (intro tracks_act [OF del] tracks_act [OF clr] tracks_neutral neutral_sends t_Done) simp
  then show ?thesis unfolding handle_logout_prog_def
    by (auto intro!: tracks_ask t_Done simp: get_username_def name_in_def simp del: stage.simps)
qed

text \<open>The standing in which a message of session \<open>i\<close> starts, and the name it is about.\<close>

definition subject :: "world \<Rightarrow> sid \<Rightarrow> json \<Rightarrow> string" where
  "subject w i msg = (if name_in w i \<noteq> [] then name_in w i
     else case json_value msg ''from'' [] of Inl e \<Rightarrow> [] | Inr u \<Rightarrow> u)"

definition starting :: "world \<Rightarrow> sid \<Rightarrow> standing" where
  "starting w i = (if name_in w i \<noteq> [] then Online else Fresh)"

lemma tracks_json_error:
  "json_value msg ''from'' [] = Inl e \<Longrightarrow> resting st \<Longrightarrow> tracks pf i u st (handle_register_prog pf env i msg)"
  "json_value msg ''from'' [] = Inl e \<Longrightarrow> resting st \<Longrightarrow> tracks pf i u st (handle_login_prog pf env i msg)"
  by (simp_all add: handle_register_prog_def handle_login_prog_def t_Done)

lemma tracks_messages:
  assumes "resting st"
  shows "tracks pf i u st (handle_broadcast_prog pf env i msg)"
    "tracks pf i u st (handle_private_prog pf env i msg)"
    "tracks pf i u st (handle_history_req_prog pf env i msg)"
proof -
  show "tracks pf i u st (handle_broadcast_prog pf env i msg)"
    using neutral_tracks [OF neutral_messages(1) assms] t_Done [OF assms]
    by (cases "json_value msg ''content'' []") (auto simp: handle_broadcast_prog_def)
  show "tracks pf i u st (handle_private_prog pf env i msg)"
    using neutral_tracks [OF neutral_messages(2) assms] t_Done [OF assms]
    by (cases "json_value msg ''to'' []"; cases "json_value msg ''content'' []")
       (auto simp: handle_private_prog_def)
  show "tracks pf i u st (handle_history_req_prog pf env i msg)"
    using neutral_tracks [OF neutral_messages(3) assms] t_Done [OF assms]
    by (cases "json_value msg ''to'' room") (auto simp: handle_history_req_prog_def)
qed

lemma tracks_route:
  assumes "iteration_order (pf_table_order pf)"
  shows "tracks pf i (subject w i msg) (starting w i) (route_prog pf env i msg)"
proof (cases "json_value msg ''type'' []")
  case (Inl e)
  then show ?thesis by (simp add: route_prog_def t_Done starting_def)
next
  case (Inr type)
  show ?thesis
  proof (cases "name_in w i = []")
    case True
    let ?u = "subject w i msg"
    have reg: "tracks pf i ?u Fresh (handle_register_prog pf env i msg)"
      using True tracks_register tracks_json_error(1) [of msg _ Fresh]
      by (cases "json_value msg ''from'' []") (simp_all add: subject_def)
    have log: "tracks pf i ?u Fresh (handle_login_prog pf env i msg)"
      using True tracks_login [OF _ assms] tracks_json_error(2) [of msg _ Fresh]
      by (cases "json_value msg ''from'' []") (simp_all add: subject_def)
    have "tracks pf i ?u Fresh (if type = ''REGISTER'' then handle_register_prog pf env i msg
           else if type = ''LOGIN'' then handle_login_prog pf env i msg
           else if type = ''PONG'' then Done None
           else error_prog i ''NOT_AUTHENTICATED'' txt_login_first)"
      using reg log by (simp add: t_Done neutral_tracks neutral_error)
    moreover have "\<not> is_authenticated (session_of v i)" if "stands v i ?u Fresh" for v
      using that by (simp add: is_authenticated_def name_in_def)
    ultimately show ?thesis using True unfolding route_prog_def Inr sum.case starting_def
      by (simp only: if_True if_False not_False_eq_True simp_thms) (rule tracks_ask, simp only: if_True if_False not_False_eq_True simp_thms)
  next
    case False
    let ?u = "subject w i msg"
    have "tracks pf i ?u Online (if type = ''PONG'' then Done None
        else if type = ''BROADCAST'' then handle_broadcast_prog pf env i msg
        else if type = ''PRIVATE'' then handle_private_prog pf env i msg
        else if type = ''HISTORY_REQ'' then handle_history_req_prog pf env i msg
        else if type = ''LOGOUT'' then handle_logout_prog pf env i
        else error_prog i ''INVALID_MSG'' (txt_unknown_type @ type))"
      by (simp add: t_Done neutral_tracks neutral_error tracks_messages tracks_logout)
    moreover have "is_authenticated (session_of v i)" if "stands v i ?u Online" for v
      using that by (simp add: is_authenticated_def name_in_def)
    ultimately show ?thesis using False unfolding route_prog_def Inr sum.case starting_def
      by (simp only: if_True if_False not_False_eq_True simp_thms) (rule tracks_ask, simp only: if_True if_False not_False_eq_True simp_thms)
  qed
qed

section \<open>All standings together\<close>

type_synonym roll = "(sid \<times> string \<times> standing) list"

definition sole :: "roll \<Rightarrow> bool" where
  "sole vs \<longleftrightarrow> (\<forall>k < length vs. \<forall>l < length vs. \<forall>i u st j st'.
     vs ! k = (i, u, st) \<longrightarrow> vs ! l = (j, u, st') \<longrightarrow> reserving st \<longrightarrow> reserving st' \<longrightarrow> k = l)"

definition hidden :: "roll \<Rightarrow> string set" where
  "hidden vs = {u. \<exists>k < length vs. \<exists>i st. vs ! k = (i, u, st) \<and> hiding st}"

definition registry_inv :: "roll \<Rightarrow> world \<Rightarrow> bool" where
  "registry_inv vs w \<longleftrightarrow> distinct (map fst vs) \<and> server_set (w_router w) \<and>
     unique_online (w_server w) \<and> (\<forall>j \<in> live_sids (w_server w). name_in w j \<noteq> [] \<longrightarrow> has_account w (name_in w j)) \<and>
     (\<forall>k < length vs. \<forall>i u st. vs ! k = (i, u, st) \<longrightarrow> i \<in> live_sids (w_server w) \<and> stands w i u st) \<and>
     sole vs \<and> online w = reg.names (w_server w) - hidden vs"

lemma soleD:
  "sole vs \<Longrightarrow> k < length vs \<Longrightarrow> l < length vs \<Longrightarrow> vs ! k = (i, u, st) \<Longrightarrow> vs ! l = (j, u, st') \<Longrightarrow>
   reserving st \<Longrightarrow> reserving st' \<Longrightarrow> k = l"
  unfolding sole_def by blast

lemma distinct_roll:
  "distinct (map fst vs) \<Longrightarrow> k < length vs \<Longrightarrow> l < length vs \<Longrightarrow> vs ! k = (i, u, st) \<Longrightarrow>
   vs ! l = (i, v, st') \<Longrightarrow> k = l"
  using nth_eq_iff_index_eq [of "map fst vs" k l] by simp

lemma names_given:
  assumes "live_sids (w_server w') = live_sids (w_server w)" "i \<in> live_sids (w_server w)"
    and "name_in w i = []" "u \<noteq> []" "name_in w' = (name_in w)(i := u)"
  shows "reg.names (w_server w') = insert u (reg.names (w_server w))"
proof (intro set_eqI iffI)
  fix v
  assume "v \<in> reg.names (w_server w')"
  then obtain j where "v \<noteq> []" "j \<in> live_sids (w_server w)" "name_in w' j = v"
    unfolding view_names assms(1) by blast
  then show "v \<in> insert u (reg.names (w_server w))"
    by (cases "j = i") (auto simp: view_names assms(5))
next
  fix v
  assume "v \<in> insert u (reg.names (w_server w))"
  then consider "v = u" | j where "v \<noteq> []" "j \<in> live_sids (w_server w)" "name_in w j = v"
    unfolding view_names by blast
  then show "v \<in> reg.names (w_server w')"
  proof cases
    case 1
    have "name_in w' i = u" by (simp add: assms(5))
    with 1 assms(1,2,4) show ?thesis unfolding view_names by blast
  next
    case 2
    then have "name_in w' j = v" using assms(3) by (cases "j = i") (simp_all add: assms(5))
    with 2 assms(1) show ?thesis unfolding view_names by blast
  qed
qed

lemma names_taken:
  assumes "live_sids (w_server w') = live_sids (w_server w)" "i \<in> live_sids (w_server w)"
    and "unique_online (w_server w)" "name_in w i \<noteq> []" "name_in w' = (name_in w)(i := [])"
  shows "reg.names (w_server w') = reg.names (w_server w) - {name_in w i}"
proof -
  have "j = i" if "j \<in> live_sids (w_server w)" "name_in w j = name_in w i" for j
    using assms(3) [unfolded view_unique] assms(2,4) that(1) that(2) [symmetric] by blast
  note one = this
  show ?thesis
  proof (intro set_eqI iffI)
    fix u
    assume "u \<in> reg.names (w_server w')"
    then obtain j where j: "u \<noteq> []" "j \<in> live_sids (w_server w)" "name_in w' j = u"
      unfolding view_names assms(1) by blast
    then have "j \<noteq> i" "name_in w j = u" by (auto simp: assms(5) split: if_splits)
    with j one [of j] show "u \<in> reg.names (w_server w) - {name_in w i}" unfolding view_names by blast
  next
    fix u
    assume "u \<in> reg.names (w_server w) - {name_in w i}"
    then obtain j where "u \<noteq> []" "u \<noteq> name_in w i" "j \<in> live_sids (w_server w)" "name_in w j = u"
      unfolding view_names by blast
    then have "u \<noteq> []" "j \<in> live_sids (w_server w')" "name_in w' j = u"
      by (auto simp: assms(1,5))
    then show "u \<in> reg.names (w_server w')" unfolding view_names by blast
  qed
qed

lemma names_kept:
  "live_sids (w_server w') = live_sids (w_server w) \<Longrightarrow> name_in w' = name_in w \<Longrightarrow>
   reg.names (w_server w') = reg.names (w_server w)"
  by (simp add: view_names)

lemma registry_move:
  assumes inv: "registry_inv vs w" and k: "k < length vs" "vs ! k = (i, u, st)"
    and mv: "move i u st w st' w'"
  shows "registry_inv (vs[k := (i, u, st')]) w'"
proof -
  let ?vs = "vs[k := (i, u, st')]"
  have d: "distinct (map fst vs)" and set: "server_set (w_router w)" and uniq: "unique_online (w_server w)"
    and acc: "\<And>j. j \<in> live_sids (w_server w) \<Longrightarrow> name_in w j \<noteq> [] \<Longrightarrow> has_account w (name_in w j)"
    and all: "\<And>l j v s. l < length vs \<Longrightarrow> vs ! l = (j, v, s) \<Longrightarrow> j \<in> live_sids (w_server w) \<and> stands w j v s"
    and sl: "sole vs" and on: "online w = reg.names (w_server w) - hidden vs"
    using inv by (auto simp: registry_inv_def)
  have tab: "same_table w w'" using mv by cases (simp_all add: same_view_def)
  then have live: "live_sids (w_server w') = live_sids (w_server w)"
    and set': "server_set (w_router w')" and more: "\<And>v. has_account w v \<Longrightarrow> has_account w' v"
    using set by (auto simp: same_table_def live_sids_def has_account_def)
  have me: "i \<in> live_sids (w_server w)" "stands w i u st" using all [OF k] by auto
  have d': "distinct (map fst ?vs)"
    using d k by (metis fst_conv list_update_id map_update nth_map)
  have ne: "j \<noteq> i" "reserving st \<Longrightarrow> reserving s \<Longrightarrow> v \<noteq> u"
    if "vs ! l = (j, v, s)" "l < length vs" "l \<noteq> k" for l j v s
    using distinct_roll [OF d that(2) k(1) that(1)] soleD [OF sl that(2) k(1) that(1)] k(2) that(3)
    by blast+
  \<comment> \<open>names\<close>
  have name': "name_in w' = name_in w \<or> (st = Entitled \<and> name_in w' = (name_in w)(i := u)) \<or>
      (st = Leaving \<and> name_in w' = (name_in w)(i := []))"
    using mv by cases (simp_all add: same_view_def)
  have uniq': "unique_online (w_server w')"
    unfolding view_unique live
  proof (intro ballI impI)
    fix a b
    assume ab: "a \<in> live_sids (w_server w)" "b \<in> live_sids (w_server w)"
      and n: "name_in w' a \<noteq> []" "name_in w' a = name_in w' b"
    have u: "a \<in> live_sids (w_server w) \<Longrightarrow> b \<in> live_sids (w_server w) \<Longrightarrow> name_in w a \<noteq> [] \<Longrightarrow>
        name_in w a = name_in w b \<Longrightarrow> a = b" for a b
      using uniq by (auto simp: view_unique)
    have no: "st = Entitled \<Longrightarrow> name_in w a \<noteq> u \<and> name_in w b \<noteq> u"
      using me(2) ab by (auto simp: nobody_def)
    from name' show "a = b"
    proof (elim disjE conjE)
      assume "name_in w' = name_in w"
      with n u [OF ab] show ?thesis by simp
    next
      assume "st = Entitled" "name_in w' = (name_in w)(i := u)"
      with n u [OF ab] no show ?thesis by (cases "a = i"; cases "b = i") simp_all
    next
      assume "name_in w' = (name_in w)(i := [])"
      with n u [OF ab] show ?thesis by (cases "a = i"; cases "b = i") simp_all
    qed
  qed
  have acc': "name_in w' j \<noteq> [] \<longrightarrow> has_account w' (name_in w' j)" if "j \<in> live_sids (w_server w')" for j
    using name' acc [of j] that me more by (auto simp: live)
  \<comment> \<open>reservations\<close>
  have sl': "sole ?vs"
  proof (cases "reserving st' \<longrightarrow> reserving st")
    case True
    then show ?thesis using sl k unfolding sole_def by (simp add: nth_list_update) blast
  next
    case False
    from mv False have "u \<notin> reserved w" by cases auto
    then have "\<not> reserving s" if "vs ! l = (j, u, s)" "l < length vs" for l j s
      using all [OF that(2,1)] by (cases s) auto
    then show ?thesis using sl k unfolding sole_def by (simp add: nth_list_update)
  qed
  \<comment> \<open>the online list\<close>
  define R where "R = {v. \<exists>l < length vs. l \<noteq> k \<and> (\<exists>j s. vs ! l = (j, v, s) \<and> hiding s)}"
  have old: "hidden vs = R \<union> (if hiding st then {u} else {})"
    using k by (auto simp: hidden_def R_def)
  have new: "hidden ?vs = R \<union> (if hiding st' then {u} else {})"
    using k(1) by (auto simp: hidden_def R_def nth_list_update)
  have R: "u \<notin> R" if "name_in w i = u \<or> nobody w u" "u \<noteq> []"
  proof
    assume "u \<in> R"
    then obtain l j s where l: "l < length vs" "l \<noteq> k" "vs ! l = (j, u, s)" "hiding s"
      by (auto simp: R_def)
    then have "j \<in> live_sids (w_server w)" "name_in w j = u" using all [OF l(1,3)] by (cases s; auto)+
    with that me(1) uniq ne(1) [OF l(3,1,2)] show False by (auto simp: view_unique nobody_def)
  qed
  have same: "hidden ?vs = hidden vs" if "hiding st' = hiding st"
    using that unfolding new old by simp
  have here: "u \<in> reg.names (w_server w)" if "name_in w i = u" "u \<noteq> []"
    using me(1) that by (auto simp: view_names)
  have on': "online w' = reg.names (w_server w') - hidden ?vs"
    using mv
  proof cases
    case m_name
    then have "u \<notin> R" using R me(2) by simp
    moreover have "u \<notin> reg.names (w_server w)" using m_name me by (auto simp: view_names nobody_def)
    ultimately show ?thesis
      using m_name on names_given [OF live me(1), of u] me(2) unfolding new old by auto
  next
    case m_list
    then have "u \<notin> R" using R me(2) by simp
    with m_list on here me(2) show ?thesis unfolding new old names_kept [OF live m_list(6)] by auto
  next
    case m_delist
    with on show ?thesis unfolding new old names_kept [OF live m_delist(6)] by auto
  next
    case m_unname
    then have "u \<notin> R" using R me(2) by simp
    with m_unname on me(2) names_taken [OF live me(1) uniq] show ?thesis unfolding new old by auto
  qed (use on same in \<open>simp_all add: names_kept [OF live] same_view_def\<close>)
  \<comment> \<open>the standings\<close>
  have mine: "stands w' i u st'"
    using mv
  proof cases
    case m_stay
    with me(2) more show ?thesis by (cases st) (auto simp: same_view_def nobody_def live)
  next
    case m_register
    then have "nobody w u" using acc me(2) by (auto simp: nobody_def)
    with m_register me(2) show ?thesis by (simp add: same_view_def nobody_def live)
  qed (use me(2) in \<open>auto simp: same_view_def nobody_def live\<close>)
  have other: "stands w' j v s" if l: "vs ! l = (j, v, s)" "l < length vs" "l \<noteq> k" for l j v s
  proof -
    have t: "stands w j v s" using all [OF l(2,1)] by simp
    have nm: "name_in w' j = name_in w j" using name' ne(1) [OF l] by auto
    have rv: "v \<in> reserved w'" if "v \<in> reserved w" "reserving s"
      using mv that ne(2) [OF l] by cases (auto simp: same_view_def)
    have nb: "nobody w' v" if "nobody w v" "reserving s" "v \<noteq> []"
      unfolding nobody_def live
    proof
      fix j
      assume j: "j \<in> live_sids (w_server w)"
      from name' show "name_in w' j \<noteq> v"
        using that(1) [unfolded nobody_def, rule_format, OF j] ne(2) [OF l _ that(2)] that(3)
        by (elim disjE conjE) auto
    qed
    show ?thesis using t nm rv nb more by (cases s) auto
  qed
  have "i' \<in> live_sids (w_server w') \<and> stands w' i' u' s'"
    if "l < length ?vs" "?vs ! l = (i', u', s')" for l i' u' s'
    using that mine other [of l] all [of l] me(1) k(1) by (cases "l = k") (auto simp: live)
  with d' set' uniq' acc' sl' on' show ?thesis by (simp add: registry_inv_def)
qed

definition followed :: "platform \<Rightarrow> roll \<Rightarrow> world prog list \<Rightarrow> bool" where
  "followed pf vs ps \<longleftrightarrow> length vs = length ps \<and>
     (\<forall>k < length ps. \<forall>i u st. vs ! k = (i, u, st) \<longrightarrow> tracks pf i u st (ps ! k))"

lemma followed_update:
  "followed pf vs ps \<Longrightarrow> tracks pf i u st p \<Longrightarrow> followed pf (vs[k := (i, u, st)]) (ps[k := p])"
  unfolding followed_def
proof (intro conjI allI impI)
  fix l i' u' st'
  assume "length vs = length ps \<and> (\<forall>k < length ps. \<forall>i u st. vs ! k = (i, u, st) \<longrightarrow> tracks pf i u st (ps ! k))"
    "tracks pf i u st p" "l < length (ps[k := p])" "vs[k := (i, u, st)] ! l = (i', u', st')"
  then show "tracks pf i' u' st' (ps[k := p] ! l)" by (cases "l = k") simp_all
qed simp

lemma registry_sched:
  "registry_inv vs w \<Longrightarrow> followed pf vs ps \<Longrightarrow> sched ks (ps, w) = (ps', w') \<Longrightarrow>
   \<exists>vs'. registry_inv vs' w' \<and> followed pf vs' ps'"
proof (induction ks arbitrary: vs ps w)
  case (Cons k ks)
  show ?case
  proof (cases "k < length ps \<and> \<not> ended (ps ! k)")
    case False
    with Cons show ?thesis by (cases "ps ! k") (auto split: if_splits)
  next
    case True
    then obtain f where f: "ps ! k = Step f" by (cases "ps ! k") auto
    obtain i u st where v: "vs ! k = (i, u, st)" by (cases "vs ! k")
    obtain p w1 where p: "f w = (p, w1)" by fastforce
    have k: "k < length vs" and tr: "tracks pf i u st (Step f)"
      using Cons.prems(2) True v f by (auto simp: followed_def)
    have "stands w i u st" "server_set (w_router w)"
      using Cons.prems(1) k v by (auto simp: registry_inv_def)
    with tr p obtain st' where st': "move i u st w st' w1" "tracks pf i u st' p"
      by (elim tracks_StepE) blast
    have "sched ks (ps[k := p], w1) = (ps', w')" using Cons.prems(3) True f p by simp
    with Cons.IH [OF registry_move [OF Cons.prems(1) k v st'(1)] followed_update [OF Cons.prems(2) st'(2)]]
    show ?thesis by blast
  qed
qed auto

lemma ended_rests: "tracks pf i u st p \<Longrightarrow> ended p \<Longrightarrow> \<not> hiding st"
  by (auto simp: ended_def elim!: tracks_DoneE) (cases st; simp)

lemma registry_start:
  assumes "server_set (w_router w)" "unique_online (w_server w)" "online w = reg.names (w_server w)"
    and "\<forall>j \<in> live_sids (w_server w). name_in w j \<noteq> [] \<longrightarrow> has_account w (name_in w j)"
    and "distinct (map fst rs)" "fst ` set rs \<subseteq> live_sids (w_server w)"
  shows "registry_inv (map (\<lambda>(i, msg). (i, subject w i msg, starting w i)) rs) w"
proof -
  let ?vs = "map (\<lambda>(i, msg). (i, subject w i msg, starting w i)) rs"
  have at: "i \<in> live_sids (w_server w) \<and> stands w i u st \<and> \<not> reserving st \<and> \<not> hiding st"
    if "k < length ?vs" "?vs ! k = (i, u, st)" for k i u st
  proof -
    obtain j msg where r: "rs ! k = (j, msg)" by (cases "rs ! k")
    then have "i = j" "u = subject w j msg" "st = starting w j"
      using that by auto
    then show ?thesis
      using r that(1) assms(6) nth_mem [of k rs] by (force simp: subject_def starting_def)
  qed
  have "map fst ?vs = map fst rs" by (induction rs) auto
  with assms(5) have d: "distinct (map fst ?vs)" by (simp only:)
  have sl: "sole ?vs" using at unfolding sole_def by blast
  have hid: "hidden ?vs = {}" using at unfolding hidden_def by blast
  show ?thesis using assms(1-4) d at sl unfolding registry_inv_def hid Diff_empty by blast
qed

text \<open>
  C3. The registry of names under interleaving: in a world where names are unique, belong to
  accounts, and the online list is right, let workers handle any messages, each of another session
  in the table, and interleave all their atomic steps in any way. At every moment names are
  unique and belong to accounts; and when all handlers have ended, the online list is exactly
  the set of the names in the table.
\<close>

theorem registry_under_interleaving:
  assumes "iteration_order (pf_table_order pf)" "server_set (w_router w)"
    and "unique_online (w_server w)" "online w = reg.names (w_server w)"
    and "\<forall>j \<in> live_sids (w_server w). name_in w j \<noteq> [] \<longrightarrow> has_account w (name_in w j)"
    and "distinct (map fst rs)" "fst ` set rs \<subseteq> live_sids (w_server w)"
    and "sched ks (map (\<lambda>(i, msg). route_prog pf (env i) i msg) rs, w) = (ps', w')"
  shows "unique_online (w_server w') \<and>
    (\<forall>j \<in> live_sids (w_server w'). name_in w' j \<noteq> [] \<longrightarrow> has_account w' (name_in w' j)) \<and>
    ((\<forall>p \<in> set ps'. ended p) \<longrightarrow> set (online_users (w_router w')) =
       {u. u \<noteq> [] \<and> (\<exists>i \<in> live_sids (w_server w'). username (session_of w' i) = u)})"
proof -
  let ?vs = "map (\<lambda>(i, msg). (i, subject w i msg, starting w i)) rs"
  have "followed pf ?vs (map (\<lambda>(i, msg). route_prog pf (env i) i msg) rs)"
    using tracks_route [OF assms(1)] by (auto simp: followed_def split: prod.splits)
  from registry_sched [OF registry_start [OF assms(2-7)] this assms(8)]
  obtain vs' where inv: "registry_inv vs' w'" and fl: "followed pf vs' ps'" by blast
  have "hidden vs' = {}" if "\<forall>p \<in> set ps'. ended p"
    using that fl ended_rests nth_mem unfolding hidden_def followed_def by fastforce
  with inv show ?thesis
    by (auto simp: registry_inv_def view_names online_def name_in_def)
qed

text \<open>Two logins of one account and a registration, their steps one after the other in turn.\<close>

theorem registry_under_interleaving_witness:
  "unique_online (w_server (snd (sched (concat (replicate 40 [0, 1, 2]))
     (map (\<lambda>(i, msg). route_prog sample_platform sample_env i msg)
        [(0, request ''LOGIN'' ''amy'' ''pw''), (1, request ''LOGIN'' ''amy'' ''pw''),
         (2, request ''REGISTER'' ''bob'' ''pw'')], race_world))))"
proof -
  let ?rs = "[(0 :: sid, request ''LOGIN'' ''amy'' ''pw''), (1, request ''LOGIN'' ''amy'' ''pw''),
    (2, request ''REGISTER'' ''bob'' ''pw'')]"
  obtain ps' w' where r: "sched (concat (replicate 40 [0, 1, 2]))
    (map (\<lambda>(i, msg). route_prog sample_platform sample_env i msg) ?rs, race_world) = (ps', w')" by fastforce
  have start: "iteration_order (pf_table_order sample_platform)" "server_set (w_router race_world)"
    "unique_online (w_server race_world)" "online race_world = reg.names (w_server race_world)"
    "\<forall>j \<in> live_sids (w_server race_world). name_in race_world j \<noteq> [] \<longrightarrow>
      has_account race_world (name_in race_world j)"
    by (simp_all add: unique_online_def view_names online_def name_in_def)
  have "distinct (map fst ?rs)" "fst ` set ?rs \<subseteq> live_sids (w_server race_world)"
    by (simp_all add: live_sids_def)
  from registry_under_interleaving [OF start this r] show ?thesis unfolding r by simp
qed

end
