(* ===== verification/FineRaces.thy ===== *)
theory FineRaces
  imports FineRegistry
begin

text \<open>
  What the workers can do to two messages of one client: the event loop enqueues every message
  of a frame buffer as a task of its own, so that two workers may handle two messages of the same
  session at the same time and in either order.
\<close>

section \<open>Overtaking\<close>

lemma sched_append: "sched (ks @ ls) c = sched ls (sched ks c)"
proof (induction ks arbitrary: c)
  case (Cons k ks)
  obtain ps s where c: "c = (ps, s)" by (cases c)
  show ?case by (cases "ps ! k") (simp_all add: c Cons.IH split: prod.split)
qed simp

text \<open>
  Of two programs the second does \<open>n\<close> steps, the first then runs to its end, and the second
  after it.
\<close>

lemma overtaken:
  assumes "sched (replicate n 1) ([p, q], s) = ([p, q'], s1)"
    and "run p s1 = (e1, s2)" "run q' s2 = (e2, s3)"
  shows "\<exists>ks. sched ks ([p, q], s) = ([Done e1, Done e2], s3)"
proof -
  obtain k where k: "sched (replicate k 0) ([p, q'], s1) = ([Done e1, q'], s2)"
    using alone_ends [of 0 "[p, q']" p s1] assms(2) by auto
  obtain l where l: "sched (replicate l 1) ([Done e1, q'], s2) = ([Done e1, Done e2], s3)"
    using alone_ends [of 1 "[Done e1, q']" q' s2] assms(3) by auto
  show ?thesis
    by (rule exI [of _ "replicate n 1 @ replicate k 0 @ replicate l 1"])
       (simp only: sched_append assms(1) k l)
qed

text \<open>The first step of a BROADCAST finds out that the client is logged in, the second who it is.\<close>

definition room_row :: "string \<Rightarrow> string \<Rightarrow> int \<Rightarrow> database \<Rightarrow> message_row" where
  "room_row from content ts d = \<lparr>row_id = next_id d, from_user = c_str from, to_user = room,
     row_content = c_str content, row_timestamp = ts\<rparr>"

definition acceptable_broadcast :: "json \<Rightarrow> string \<Rightarrow> bool" where
  "acceptable_broadcast msg content \<longleftrightarrow> json_value msg ''type'' [] = Inr ''BROADCAST'' \<and>
     json_value msg ''content'' [] = Inr content \<and> content \<noteq> [] \<and> length content \<le> MAX_MESSAGE_LEN"

lemma messages_store [simp]:
  "messages (store_message True u room c t d) = messages d @ [room_row u c t d]"
  by (simp add: store_message_def room_row_def)

lemma sample_simps [simp]: "clock sample_env 0 = 1000" "messages empty_database = []"
  by (simp_all add: sample_env_def empty_database_def)

definition to_room :: "platform \<Rightarrow> json \<Rightarrow> world \<Rightarrow> (fd \<times> json) list" where
  "to_room pf m w = map (\<lambda>j. (cs_fd (session_of w j), m)) (broadcast_targets (pf_table_order pf) [] (w_server w))"

lemma route_acceptable:
  assumes "acceptable_broadcast msg content"
  shows "route_prog pf env i msg = ask (\<lambda>w. is_authenticated (session_of w i)) (\<lambda>auth.
    if \<not> auth then error_prog i ''NOT_AUTHENTICATED'' txt_login_first
    else ask (\<lambda>w. get_username (session_of w i)) (\<lambda>sender.
      Step (\<lambda>w. (andthen (broadcast_prog pf (broadcast_msg sender content (clock env 0)) []) (Done None),
        w\<lparr>w_db := store_message (step_done env) sender room content (clock env 0) (w_db w)\<rparr>))))"
  using assms
  by (simp add: acceptable_broadcast_def route_prog_def handle_broadcast_prog_def store_prog_def act_def
      if_distrib cong: if_cong)

text \<open>
  The live order and the logged order disagree: a client that is logged in sends two
  broadcasts, and two workers handle them. It is possible that the first is stored before the
  second, and everybody is sent the second before the first.
\<close>

theorem broadcasts_overtake:
  assumes "is_authenticated (session_of w i)" "server_set (w_router w)"
    and "acceptable_broadcast msg1 c1" "acceptable_broadcast msg2 c2"
    and "step_done env" "step_done env'"
  shows "\<exists>ks w'. sched ks ([route_prog pf env' i msg2, route_prog pf env i msg1], w) = ([Done None, Done None], w') \<and>
    (let u = username (session_of w i); d = w_db w;
         d' = store_message True u room c1 (clock env 0) d in
      messages (w_db w') = messages d @ [room_row u c1 (clock env 0) d, room_row u c2 (clock env' 0) d'] \<and>
      out (w_server w') = out (w_server w) @
        to_room pf (broadcast_msg u c2 (clock env' 0)) w @ to_room pf (broadcast_msg u c1 (clock env 0)) w)"
proof -
  let ?u = "get_username (session_of w i)"
  let ?w1 = "w\<lparr>w_db := store_message True ?u room c1 (clock env 0) (w_db w)\<rparr>"
  let ?q = "andthen (broadcast_prog pf (broadcast_msg ?u c1 (clock env 0)) []) (Done None)"
  let ?p = "route_prog pf env' i msg2"
  let ?w2 = "server_broadcast pf (broadcast_msg ?u c2 (clock env' 0)) []
    (?w1\<lparr>w_db := store_message True ?u room c2 (clock env' 0) (w_db ?w1)\<rparr>)"
  let ?w3 = "server_broadcast pf (broadcast_msg ?u c1 (clock env 0)) [] ?w2"
  have a: "sched (replicate 3 1) ([?p, route_prog pf env i msg1], w) = ([?p, ?q], ?w1)"
    using assms(1,5) by (simp add: numeral_3_eq_3 ask_def route_acceptable [OF assms(3)])
  have b: "run ?p ?w1 = (None, ?w2)"
    using assms(1,6) by (simp only: route_acceptable [OF assms(4)]) simp
  have c: "run ?q ?w2 = (None, ?w3)" by simp
  obtain ks where
    "sched ks ([?p, route_prog pf env i msg1], w) = ([Done None, Done None], ?w3)"
    using overtaken [OF a b c] by blast
  moreover have "broadcast_targets (pf_table_order pf) [] (w_server ?w2) =
      broadcast_targets (pf_table_order pf) [] (w_server w)"
    by (simp add: broadcast_targets_def)
  ultimately show ?thesis
    using assms(2) by (intro exI [of _ ks] exI [of _ ?w3]) (simp add: Let_def server_broadcast_def to_room_def get_username_def)
qed

theorem broadcasts_overtake_witness:
  "\<exists>ks w'. sched ks ([route_prog sample_platform sample_env 0 (request ''BROADCAST'' [] ''two''),
       route_prog sample_platform sample_env 0 (request ''BROADCAST'' [] ''one'')], two_users) =
     ([Done None, Done None], w') \<and>
   map row_content (messages (w_db w')) = [''one'', ''two''] \<and>
   out (w_server w') = out (w_server two_users) @
     [(7, broadcast_msg ''amy'' ''two'' 1000), (8, broadcast_msg ''amy'' ''two'' 1000),
      (7, broadcast_msg ''amy'' ''one'' 1000), (8, broadcast_msg ''amy'' ''one'' 1000)]"
proof -
  have m: "acceptable_broadcast (request ''BROADCAST'' [] c) c" if "c = ''one'' \<or> c = ''two''" for c
    using that by (auto simp: acceptable_broadcast_def request_values MAX_MESSAGE_LEN_def)
  have "is_authenticated (session_of two_users 0)" "server_set (w_router two_users)" "step_done sample_env"
    by (simp_all add: is_authenticated_def two_users_simps sample_env_def)
  from broadcasts_overtake [OF this(1,2) m m this(3,3), of "''one''" "''two''" sample_platform]
  obtain ks w' where "sched ks ([route_prog sample_platform sample_env 0 (request ''BROADCAST'' [] ''two''),
       route_prog sample_platform sample_env 0 (request ''BROADCAST'' [] ''one'')], two_users) =
     ([Done None, Done None], w')"
    and w': "messages (w_db w') = [room_row ''amy'' ''one'' 1000 empty_database, room_row ''amy'' ''two'' 1000
        (store_message True ''amy'' room ''one'' 1000 empty_database)]"
      "out (w_server w') = out (w_server two_users) @
        to_room sample_platform (broadcast_msg ''amy'' ''two'' 1000) two_users @
        to_room sample_platform (broadcast_msg ''amy'' ''one'' 1000) two_users"
    by (auto simp: Let_def two_users_simps)
  moreover have "to_room sample_platform m two_users = [(7, m), (8, m)]" for m
    by (simp add: to_room_def broadcast_targets_def is_authenticated_def two_users_simps)
  ultimately show ?thesis
    by (intro exI [of _ ks] exI [of _ w']) (simp add: room_row_def c_str_def)
qed

section \<open>A broadcast after a logout\<close>

text \<open>
  A broadcast can be nameless: a client that is logged in sends BROADCAST and LOGOUT, and
  two workers handle them. It is possible that the logout happens between the dispatcher's check
  and the handler's reading of the name; then the message is stored with an empty sender and sent
  with an empty sender to everybody who is still logged in.
\<close>

theorem nameless_broadcast:
  assumes "is_authenticated (session_of w i)" "server_set (w_router w)"
    and "acceptable_broadcast msg content" "step_done env"
    and "json_value bye ''type'' [] = Inr ''LOGOUT''"
  shows "\<exists>ks w' sent. sched ks ([route_prog pf env' i bye, route_prog pf env i msg], w) = ([Done None, Done None], w') \<and>
    messages (w_db w') = messages (w_db w) @ [room_row [] content (clock env 0) (w_db w)] \<and>
    out (w_server w') = sent @ to_room pf (broadcast_msg [] content (clock env 0)) (logged_out i w)"
proof -
  let ?p = "route_prog pf env' i bye"
  let ?w1 = "handle_logout pf env' i w"
  let ?q = "ask (\<lambda>w. get_username (session_of w i)) (\<lambda>sender.
      Step (\<lambda>w. (andthen (broadcast_prog pf (broadcast_msg sender content (clock env 0)) []) (Done None),
        w\<lparr>w_db := store_message (step_done env) sender room content (clock env 0) (w_db w)\<rparr>)))"
  let ?w2 = "server_broadcast pf (broadcast_msg [] content (clock env 0)) []
    (?w1\<lparr>w_db := store_message True [] room content (clock env 0) (w_db w)\<rparr>)"
  have quiet: "quiet (logged_out i w) ?w1" by (rule handle_logout_quiet [OF assms(1)])
  then have w1: "w_db ?w1 = w_db w" "server_set (w_router ?w1)" "get_username (session_of ?w1 i) = []"
    using assms(2) by (simp_all add: quiet_def logged_out_def same_client_def get_username_def clear_username_def)
  have a: "sched (replicate 1 1) ([?p, route_prog pf env i msg], w) = ([?p, ?q], w)"
    using assms(1) by (simp add: ask_def route_acceptable [OF assms(3)])
  have b: "run ?p w = (None, ?w1)"
    using assms(1,5) by (simp add: route_def)
  have c: "run ?q ?w1 = (None, ?w2)" using w1 assms(4) by simp
  obtain ks where ks: "sched ks ([?p, route_prog pf env i msg], w) = ([Done None, Done None], ?w2)"
    using overtaken [OF a b c] by blast
  have "to_room pf m ?w1 = to_room pf m (logged_out i w)" for m
    using quiet by (simp add: to_room_def broadcast_targets_def quiet_def same_client_def is_authenticated_def get_username_def)
  moreover have "out (w_server ?w2) = out (w_server ?w1) @
      to_room pf (broadcast_msg [] content (clock env 0)) ?w1"
    using w1(2) by (simp add: server_broadcast_def to_room_def)
  moreover have "messages (w_db ?w2) = messages (w_db w) @ [room_row [] content (clock env 0) (w_db w)]"
    by simp
  ultimately show ?thesis using ks by metis
qed

theorem nameless_broadcast_witness:
  "\<exists>ks w' sent. sched ks ([route_prog sample_platform sample_env 0 (request ''LOGOUT'' [] []),
       route_prog sample_platform sample_env 0 (request ''BROADCAST'' [] ''hi'')], two_users) =
     ([Done None, Done None], w') \<and>
   map from_user (messages (w_db w')) = [[]] \<and>
   out (w_server w') = sent @ [(8, broadcast_msg [] ''hi'' 1000)]"
proof -
  have m: "acceptable_broadcast (request ''BROADCAST'' [] ''hi'') ''hi''"
    by (simp add: acceptable_broadcast_def request_values MAX_MESSAGE_LEN_def)
  have "is_authenticated (session_of two_users 0)" "server_set (w_router two_users)" "step_done sample_env"
    by (simp_all add: is_authenticated_def two_users_simps sample_env_def)
  from nameless_broadcast [where pf = sample_platform and env' = sample_env, OF this(1,2) m this(3) request_values(1) [of _ "[]" "[]"]]
  obtain ks w' sent where "sched ks ([route_prog sample_platform sample_env 0 (request ''LOGOUT'' [] []),
       route_prog sample_platform sample_env 0 (request ''BROADCAST'' [] ''hi'')], two_users) =
     ([Done None, Done None], w')"
    and "messages (w_db w') = [room_row [] ''hi'' 1000 empty_database]"
      "out (w_server w') = sent @ to_room sample_platform (broadcast_msg [] ''hi'' 1000) (logged_out 0 two_users)"
    by (auto simp: two_users_simps)
  moreover have "to_room sample_platform m (logged_out 0 two_users) = [(8, m)]" for m
    by (simp add: to_room_def broadcast_targets_def is_authenticated_def two_users_simps logged_out_def
        clear_username_def)
  ultimately show ?thesis
    by (intro exI [of _ ks] exI [of _ w'] exI [of _ sent]) (simp add: room_row_def c_str_def)
qed

section \<open>Two logins on one connection\<close>

definition acceptable_login :: "platform \<Rightarrow> call_env \<Rightarrow> world \<Rightarrow> json \<Rightarrow> string \<Rightarrow> bool" where
  "acceptable_login pf env w msg u \<longleftrightarrow> json_value msg ''type'' [] = Inr ''LOGIN'' \<and>
     json_value msg ''from'' [] = Inr u \<and> u \<noteq> [] \<and> length u \<le> MAX_USERNAME_LEN \<and>
     (\<exists>p. json_value msg ''content'' [] = Inr p \<and> p \<noteq> [] \<and> length p \<le> MAX_PASSWORD_LEN \<and>
       get_stored_hash (prep_ok env) u (w_db w) \<noteq> [] \<and>
       verify_password (pf_digest pf) p (get_stored_hash (prep_ok env) u (w_db w)))"

lemma login_alone:
  assumes "acceptable_login pf env w msg u"
    and "map_of (login_attempts (w_router w)) (ip_address (session_of w i)) = None"
    and "u \<notin> reserved w" "server_find pf u w = None"
  shows "\<exists>w'. handle_login pf env i msg w = (None, w') \<and> quiet (logged_in i u w) w' \<and>
    reserved w' = reserved w \<and>
    map_of (login_attempts (w_router w')) (ip_address (session_of w' i)) = None"
proof -
  have c: "check_rate env i w = (False, w)"
    using assms(2) by (simp add: check_rate_def Let_def is_rate_limited_def on_router_def)
  let ?w1 = "on_server (upd_session (set_pending_login u) i) (on_router (reserve u) w)"
  let ?w' = "on_router (release u) (on_server (upd_session clear_pending_login i)
    (finish_login pf env i u (on_attempts clear_login_attempts i ?w1)))"
  have "handle_login pf env i msg w = (None, ?w')"
    using assms(1,3,4) unfolding acceptable_login_def
    by (auto simp: handle_login_def Let_def c reserved_def)
  moreover have "quiet (logged_in i u w) ?w'" by (simp add: quiet_logged_in)
  moreover have "reserved ?w' = reserved w" using assms(3) by (simp add: reserved_def)
  moreover have "map_of (filter (\<lambda>p. fst p \<noteq> k) xs) k = None" for k and xs :: "(string \<times> login_attempt) list"
    by (auto simp: map_of_eq_None_iff)
  then have "map_of (login_attempts (w_router ?w')) (ip_address (session_of ?w' i)) = None"
    using assms(2) by (auto simp: Let_def on_attempts_def clear_login_attempts_def alist_erase_def)
  ultimately show ?thesis by blast
qed

text \<open>
  C29. Two logins on one connection leave a ghost: a client that is not logged in sends LOGIN for
  two accounts of which it knows the passwords, and two workers handle them. It is possible that
  both succeed; the session then has the second name, and the first is on the online list
  although no session has it.
\<close>

theorem pipelined_logins_leave_ghost:
  assumes "iteration_order (pf_table_order pf)" "server_set (w_router w)"
    and "\<not> is_authenticated (session_of w i)" "u \<noteq> v"
    and "acceptable_login pf env w msg1 u" "acceptable_login pf env' w msg2 v"
    and "map_of (login_attempts (w_router w)) (ip_address (session_of w i)) = None"
    and "u \<notin> reserved w" "v \<notin> reserved w"
    and "\<forall>j. username (session_of w j) \<noteq> u \<and> username (session_of w j) \<noteq> v"
  shows "\<exists>ks w'. sched ks ([route_prog pf env i msg1, route_prog pf env' i msg2], w) = ([Done None, Done None], w') \<and>
    {u, v} \<subseteq> set (online_users (w_router w')) \<and> username (session_of w' i) = v \<and>
    (\<forall>j. username (session_of w' j) \<noteq> u)"
proof -
  let ?p = "route_prog pf env i msg1" and ?q = "handle_login_prog pf env' i msg2"
  have absent: "server_find pf x s = None" if "\<forall>j. username (session_of s j) \<noteq> x" for x s
    using that server_find_SomeD [OF assms(1), of x s] by (cases "server_find pf x s") auto
  obtain w1 where w1: "handle_login pf env i msg1 w = (None, w1)" "quiet (logged_in i u w) w1"
    "reserved w1 = reserved w" "map_of (login_attempts (w_router w1)) (ip_address (session_of w1 i)) = None"
    using login_alone [OF assms(5,7,8) absent] assms(10) by blast
  have names: "username (session_of w1 j) = (if j = i then u else username (session_of w j))" for j
    using quiet_username [OF w1(2), of j] by (simp add: logged_in_def set_username_def)
  have "w_db w1 = w_db w" using w1(2) by (simp add: quiet_def logged_in_def)
  with assms(6) have "acceptable_login pf env' w1 msg2 v" by (simp add: acceptable_login_def)
  moreover have "server_find pf v w1 = None" using assms(4,10) by (intro absent) (simp add: names)
  ultimately obtain w2 where w2: "handle_login pf env' i msg2 w1 = (None, w2)" "quiet (logged_in i v w1) w2"
    using login_alone [of pf env' w1 msg2 v i] w1(3,4) assms(9) by auto
  have a: "sched (replicate 1 1) ([?p, route_prog pf env' i msg2], w) = ([?p, ?q], w)"
    using assms(3,6) by (simp add: ask_def route_prog_def acceptable_login_def)
  have b: "run ?p w = (None, w1)"
    using assms(3,5) w1(1) by (simp add: route_def acceptable_login_def)
  have c: "run ?q w1 = (None, w2)" using w2(1) by simp
  have "username (session_of w2 j) = (if j = i then v else username (session_of w j))" for j
    using quiet_username [OF w2(2), of j] names by (simp add: logged_in_def set_username_def)
  moreover have "{u, v} \<subseteq> set (online_users (w_router w2))"
    using w1(2) w2(2) by (auto simp: quiet_def logged_in_def set_insert_def)
  moreover obtain ks where "sched ks ([?p, route_prog pf env' i msg2], w) = ([Done None, Done None], w2)"
    using overtaken [OF a b c] by blast
  ultimately show ?thesis
    using assms(4,10) by (intro exI [of _ ks] exI [of _ w2]) simp
qed

definition two_accounts :: world where
  "two_accounts = race_world\<lparr>w_db := empty_database\<lparr>users := [(''amy'', sample_hash), (''bob'', sample_hash)]\<rparr>\<rparr>"

theorem pipelined_logins_leave_ghost_witness:
  "\<exists>ks w'. sched ks ([route_prog sample_platform sample_env 0 (request ''LOGIN'' ''amy'' ''pw''),
       route_prog sample_platform sample_env 0 (request ''LOGIN'' ''bob'' ''pw'')], two_accounts) =
     ([Done None, Done None], w') \<and>
   ''amy'' \<in> set (online_users (w_router w')) \<and> (\<forall>j. username (session_of w' j) \<noteq> ''amy'')"
proof -
  have "acceptable_login sample_platform sample_env two_accounts (request ''LOGIN'' u ''pw'') u"
    if "u = ''amy'' \<or> u = ''bob''" for u
    using that verify_sample(2,3)
    by (auto simp: acceptable_login_def request_values two_accounts_def get_stored_hash_def sample_env_def
        c_str_def MAX_USERNAME_LEN_def MAX_PASSWORD_LEN_def)
  then have login: "acceptable_login sample_platform sample_env two_accounts (request ''LOGIN'' ''amy'' ''pw'') ''amy''"
    "acceptable_login sample_platform sample_env two_accounts (request ''LOGIN'' ''bob'' ''pw'') ''bob''"
    by simp_all
  have start: "iteration_order (pf_table_order sample_platform)" "server_set (w_router two_accounts)"
    "\<not> is_authenticated (session_of two_accounts 0)"
    "map_of (login_attempts (w_router two_accounts)) (ip_address (session_of two_accounts 0)) = None"
    "''amy'' \<notin> reserved two_accounts" "''bob'' \<notin> reserved two_accounts"
    "\<forall>j. username (session_of two_accounts j) \<noteq> ''amy'' \<and> username (session_of two_accounts j) \<noteq> ''bob''"
    by (simp_all add: two_accounts_def is_authenticated_def reserved_def)
  show ?thesis
    using pipelined_logins_leave_ghost [OF start(1-3) _ login start(4-7)] by (simp, blast)
qed

section \<open>A reconnect during a disconnect\<close>

lemma unlinked:
  assumes "map_of (sessions s) f = Some i"
  shows "\<exists>s1. remove_begin f s = (Some i, s1) \<and> sessions s1 = alist_erase f (sessions s) \<and>
    (\<forall>j. username (heap s1 j) = username (heap s j) \<and> pending_login (heap s1 j) = pending_login (heap s j) \<and>
      ip_address (heap s1 j) = ip_address (heap s j))"
  using assms by (simp add: remove_begin_def Let_def)

lemma quiet_logged_out: "quiet w w' \<Longrightarrow> quiet (logged_out i w) (logged_out i w')"
  by (auto simp: quiet_def logged_out_def same_client_def get_username_def clear_username_def)

lemma quiet_disconnect:
  assumes "is_authenticated (session_of w i)"
  shows "quiet (logged_out i w) (disconnect_handler pf env i w)"
proof -
  let ?w1 = "if get_pending_login (session_of w i) \<noteq> []
    then on_server (upd_session clear_pending_login i)
      (on_router (cleanup_login_reservation (get_pending_login (session_of w i))) w) else w"
  have q: "quiet w ?w1" by (auto simp: cleanup_login_reservation_def quiet_def)
  then have "is_authenticated (session_of ?w1 i)" using assms by (simp add: quiet_def same_client_def is_authenticated_def)
  moreover have "quiet (logged_out i w) (logged_out i ?w1)"
    using q by (rule quiet_logged_out)
  ultimately show ?thesis
    using handle_logout_quiet [of ?w1 i pf env] by (auto simp: disconnect_handler_def Let_def intro: quiet_trans)
qed

text \<open>
  A user who reconnects while his old connection is being removed is missing from the online list:
  when the event loop has taken the old session out of the table, the LOGIN on the new connection
  succeeds; then the disconnect handler of the old session takes the name off the list. In
  the end the new session has the name, and the name is not on the list.
\<close>

theorem reconnect_vanishes:
  assumes "iteration_order (pf_table_order pf)" "server_set (w_router w)" "table_ok (w_server w)"
    and "unique_online (w_server w)" "map_of (sessions (w_server w)) f = Some i" "username (session_of w i) = u"
    and "j \<in> live_sids (w_server w)" "j \<noteq> i"
    and "\<not> is_authenticated (session_of w j)" "acceptable_login pf env w msg u"
    and "map_of (login_attempts (w_router w)) (ip_address (session_of w j)) = None" "u \<notin> reserved w"
  shows "\<exists>ks w'. sched ks ([route_prog pf env j msg, remove_client_prog pf env' f], w) =
      ([Done None, Done None], w') \<and>
    j \<in> live_sids (w_server w') \<and> username (session_of w' j) = u \<and> u \<notin> set (online_users (w_router w'))"
proof -
  let ?p = "route_prog pf env j msg"
  obtain s1 where s1: "remove_begin f (w_server w) = (Some i, s1)" "sessions s1 = alist_erase f (sessions (w_server w))"
    "\<And>k. username (heap s1 k) = username (session_of w k)"
    "\<And>k. pending_login (heap s1 k) = pending_login (session_of w k)"
    "\<And>k. ip_address (heap s1 k) = ip_address (session_of w k)"
    using unlinked [OF assms(5)] by blast
  let ?w1 = "w\<lparr>w_server := s1\<rparr>"
  let ?q = "andthen (disconnect_prog pf env' i) (act (on_server (remove_end f (Some i))))"
  have u: "u \<noteq> []" using assms(10) by (simp add: acceptable_login_def)
  have live: "live_sids s1 = live_sids (w_server w) - {i}"
    using remove_live(1) [OF assms(3,5)] by (simp add: live_sids_def s1(2))
  then have "username (session_of w k) \<noteq> u" if "k \<in> live_sids s1" for k
    using assms(4) [unfolded unique_online_def, rule_format, of i k] assms(6) u that remove_live(2) [OF assms(3,5)] by (auto simp: live)
  then have "server_find pf u ?w1 = None"
    using server_find_SomeD [OF assms(1), of u ?w1] s1(3) by (cases "server_find pf u ?w1") auto
  moreover have "acceptable_login pf env ?w1 msg u" using assms(10) by (simp add: acceptable_login_def)
  ultimately obtain w2 where w2: "handle_login pf env j msg ?w1 = (None, w2)" "quiet (logged_in j u ?w1) w2"
    using login_alone [of pf env ?w1 msg u j] assms(11,12) by (auto simp: reserved_def s1(5))
  have i2: "username (session_of w2 i) = u"
    using quiet_username [OF w2(2), of i] assms(6,8) by (simp add: logged_in_def s1(3))
  obtain w3 where w3: "disconnect_handler pf env' i w2 = w3" by simp
  let ?w4 = "on_server (remove_end f (Some i)) w3"
  have a: "sched (replicate 1 1) ([?p, remove_client_prog pf env' f], w) = ([?p, ?q], ?w1)"
    by (simp add: remove_client_prog_def s1(1))
  have b: "run ?p ?w1 = (None, w2)"
    using assms(9,10) w2(1) by (simp add: route_def acceptable_login_def is_authenticated_def s1(3))
  have c: "run ?q w2 = (None, ?w4)" by (simp add: w3)
  have "live_sids (w_server ?w4) = live_sids s1" "username (session_of ?w4 j) = username (session_of w2 j)"
    "u \<notin> set (online_users (w_router ?w4))"
    using quiet_disconnect [of w2 i pf env'] i2 u w2(2) assms(8)
    by (auto simp: w3 [symmetric] live_sids_def quiet_def logged_in_def logged_out_def same_client_def get_username_def
        is_authenticated_def clear_username_def remove_end_def)
  moreover have "username (session_of w2 j) = u"
    using quiet_username [OF w2(2), of j] by (simp add: logged_in_def set_username_def)
  moreover obtain ks where "sched ks ([?p, remove_client_prog pf env' f], w) = ([Done None, Done None], ?w4)"
    using overtaken [OF a b c] by blast
  ultimately show ?thesis
    using assms(7,8) live by (intro exI [of _ ks] exI [of _ ?w4]) simp
qed

definition amy_online :: world where
  "amy_online = logged_in 0 ''amy'' race_world"

theorem reconnect_vanishes_witness:
  "\<exists>ks w'. sched ks ([route_prog sample_platform sample_env 1 (request ''LOGIN'' ''amy'' ''pw''),
       remove_client_prog sample_platform sample_env 7], amy_online) = ([Done None, Done None], w') \<and>
   username (session_of w' 1) = ''amy'' \<and> ''amy'' \<notin> set (online_users (w_router w'))"
proof -
  have table: "sessions (w_server amy_online) = [(7, 0), (8, 1), (9, 2)]"
    "\<And>k. username (session_of amy_online k) = (if k = 0 then ''amy'' else [])"
    "\<And>k. cs_fd (session_of amy_online k) = cs_fd (session_of race_world k)"
    by (simp_all add: amy_online_def logged_in_def set_username_def)
  have login: "acceptable_login sample_platform sample_env amy_online (request ''LOGIN'' ''amy'' ''pw'') ''amy''"
    using verify_sample
    by (auto simp: acceptable_login_def request_values amy_online_def logged_in_def MAX_USERNAME_LEN_def
        MAX_PASSWORD_LEN_def)
  have start: "iteration_order (pf_table_order sample_platform)" "server_set (w_router amy_online)"
    "table_ok (w_server amy_online)" "unique_online (w_server amy_online)"
    "map_of (sessions (w_server amy_online)) 7 = Some 0" "username (session_of amy_online 0) = ''amy''"
    "1 \<in> live_sids (w_server amy_online)" "(1 :: sid) \<noteq> 0" "\<not> is_authenticated (session_of amy_online 1)"
    using table by (simp_all add: amy_online_def logged_in_def table_ok_def unique_online_def live_sids_def
        is_authenticated_def)
  have free: "map_of (login_attempts (w_router amy_online)) (ip_address (session_of amy_online 1)) = None"
    "''amy'' \<notin> reserved amy_online"
    by (simp_all add: amy_online_def logged_in_def reserved_def)
  show ?thesis
    using reconnect_vanishes [OF start login free, of sample_env] by blast
qed

end
