(* ===== verification/QtBase.thy ===== *)
theory QtBase
  imports Prelude
begin

text \<open>
  The parts of Qt the client's sources are written with. A \<open>QString\<close> is a sequence of UTF-16
  code units, a \<open>QByteArray\<close> a list of bytes. A \<open>QJsonValue\<close> is a datatype; \<open>QJsonObject\<close> is
  the list of its members. What Qt computes and the client only relies on (the JSON codec, the
  conversion of numbers, time formats, trimming, what a socket emits) are the fields of \<open>qt\<close>.
\<close>

type_synonym qstring = "16 word list"

text \<open>\<open>QStringLiteral\<close> of an ASCII text, and of a text given by its UTF-16 code units.\<close>

definition qs :: "string \<Rightarrow> qstring" where
  "qs s = map (\<lambda>c. of_nat (of_char c)) s"

datatype qjson =
    QNull
  | QBool bool
  | QInteger int
  | QDouble "64 word"
  | QString qstring
  | QArray "qjson list"
  | QObject "(qstring \<times> qjson) list"

text \<open>The conversions with defaults, and \<open>operator[]\<close> with an absent member (undefined).\<close>

fun to_qstring :: "qjson option \<Rightarrow> qstring" where
  "to_qstring (Some (QString s)) = s"
| "to_qstring _ = []"

fun to_array :: "qjson option \<Rightarrow> qjson list" where
  "to_array (Some (QArray vs)) = vs"
| "to_array _ = []"

fun to_object :: "qjson \<Rightarrow> (qstring \<times> qjson) list" where
  "to_object (QObject ms) = ms"
| "to_object _ = []"

definition member :: "(qstring \<times> qjson) list \<Rightarrow> string \<Rightarrow> qjson option" where
  "member obj k = map_of obj (qs k)"

text \<open>A \<open>QJsonObject\<close> filled by assignments \<open>msg[key] = value\<close>.\<close>

definition qobject :: "(string \<times> qjson) list \<Rightarrow> qjson" where
  "qobject ms = QObject (fold (\<lambda>(k, v). alist_put (qs k) v) ms [])"

text \<open>
  The states of a \<open>QTcpSocket\<close> the client tells apart, and what a socket can report.
\<close>

datatype socket_state = Unconnected | SocketConnecting | SocketConnected

datatype socket_event = EvConnected | EvDisconnected | EvError socket_state | EvReadyRead bytes

text \<open>
  Qt as the client sees it. \<open>qt_abort\<close> lists the signals \<open>abort()\<close> emits from a state: Qt
  documents \<open>disconnected()\<close> for a socket that has been connected (\<open>abort_documented\<close>).
\<close>

record qt =
  qt_parse :: "bytes \<Rightarrow> qjson option"
  qt_print :: "qjson \<Rightarrow> bytes"
  qt_to_qint64 :: "qjson option \<Rightarrow> int"
  qt_to_integer :: "qjson option \<Rightarrow> int"
  qt_format_time :: "int \<Rightarrow> qstring"
  qt_now :: qstring
  qt_trim :: "qstring \<Rightarrow> qstring"
  qt_error_string :: qstring
  qt_abort :: "socket_state \<Rightarrow> socket_event list"

definition abort_documented :: "qt \<Rightarrow> bool" where
  "abort_documented Q \<longleftrightarrow> qt_abort Q SocketConnected = [EvDisconnected] \<and>
     qt_abort Q SocketConnecting = [] \<and> qt_abort Q Unconnected = []"

lemma inj_qs_char: "(of_nat (of_char c) :: 16 word) = of_nat (of_char d) \<Longrightarrow> c = d"
proof -
  have "unat (of_nat (of_char c) :: 16 word) = of_char c" for c :: char
  proof -
    have "(of_char c :: nat) < 65536" using of_char_lt_256 [of c] by linarith
    then show ?thesis by (simp add: unat_of_nat)
  qed
  then show "(of_nat (of_char c) :: 16 word) = of_nat (of_char d) \<Longrightarrow> c = d"
    by (metis of_char_eq_iff)
qed

lemma qs_inject [simp]: "qs a = qs b \<longleftrightarrow> a = b"
proof
  assume "qs a = qs b"
  then show "a = b"
    unfolding qs_def by (induction a arbitrary: b) (auto simp: Cons_eq_map_conv dest: inj_qs_char)
qed simp

lemma qs_Nil [simp]: "qs s = [] \<longleftrightarrow> s = []" "qs [] = []"
  by (simp_all add: qs_def)

lemma map_of_fold_put:
  "distinct (map fst ms) \<Longrightarrow> map_of (fold (\<lambda>(k, v). alist_put (qs k) v) ms acc) (qs k) =
     (case map_of ms k of Some v \<Rightarrow> Some v | None \<Rightarrow> map_of acc (qs k))"
proof (induction ms arbitrary: acc)
  case (Cons m ms)
  obtain a v where m: "m = (a, v)" by (cases m)
  with Cons.prems have "map_of ms a = None" by (simp add: map_of_eq_None_iff)
  with Cons m show ?case by (auto split: option.split)
qed simp

text \<open>Reading back a member of an object the client built.\<close>

lemma member_qobject:
  assumes "distinct (map fst ms)"
  shows "member (to_object (qobject ms)) k = map_of ms k"
  using map_of_fold_put [OF assms, of "[]" k] by (simp add: member_def qobject_def split: option.split)

end
