(* ===== verification/ChatClient.thy ===== *)
theory ChatClient
  imports QtBase Protocol
begin

text \<open>
  \<open>client/src/chat_client.cpp\<close>: the client's end of the connection. An operation yields the new
  state and the signals it emits, in order; the slots connected to them (\<open>LoginController\<close>,
  \<open>ChatBackend\<close>) do not call back into the client, so delivering them afterwards
  (\<open>ClientApp\<close>) is the same as Qt's direct calls. \<open>peer\<close> is the address the current socket was
  told to connect to; \<open>wire_out\<close> collects what has been written to the current socket, a
  \<open>QTcpSocket\<close> buffers whatever \<open>write\<close> is given.
\<close>

section \<open>State\<close>

record chat_client =
  socket :: "socket_state option"
  recv_buffer :: bytes
  is_connecting :: bool
  peer :: "(qstring \<times> 16 word) option"
  wire_out :: bytes

definition new_chat_client :: chat_client where
  "new_chat_client = \<lparr>socket = None, recv_buffer = [], is_connecting = False,
     peer = None, wire_out = []\<rparr>"

datatype client_signal =
    SigConnected
  | SigDisconnected
  | SigConnectionError qstring
  | SigLoginOk qstring
  | SigErrorReceived qstring qstring
  | SigBroadcastReceived qstring qstring int
  | SigPrivateReceived qstring qstring qstring int
  | SigUserListUpdated "qstring list"
  | SigHistoryReceived qstring "qjson list"
  | SigNotifyReceived qstring

definition is_connected :: "chat_client \<Rightarrow> bool" where
  "is_connected c \<longleftrightarrow> socket c = Some SocketConnected"

definition socketState :: "chat_client \<Rightarrow> socket_state" where
  "socketState c = (case socket c of None \<Rightarrow> Unconnected | Some st \<Rightarrow> st)"

section \<open>Sending\<close>

text \<open>The prefix is built by shifting and masking the 32-bit length.\<close>

definition client_header :: "32 word \<Rightarrow> bytes" where
  "client_header body_len =
     [ucast (Bit_Operations.and (drop_bit 24 body_len) 0xFF),
      ucast (Bit_Operations.and (drop_bit 16 body_len) 0xFF),
      ucast (Bit_Operations.and (drop_bit 8 body_len) 0xFF),
      ucast (Bit_Operations.and body_len 0xFF)]"

definition client_frame :: "bytes \<Rightarrow> bytes" where
  "client_frame body = client_header (of_nat (length body)) @ body"

definition send_json :: "qt \<Rightarrow> qjson \<Rightarrow> chat_client \<Rightarrow> chat_client" where
  "send_json Q msg c =
     (if \<not> is_connected c then c
      else c\<lparr>wire_out := wire_out c @ client_frame (qt_print Q msg)\<rparr>)"

definition send_register :: "qt \<Rightarrow> qstring \<Rightarrow> qstring \<Rightarrow> chat_client \<Rightarrow> chat_client" where
  "send_register Q user password =
     send_json Q (qobject [(''type'', QString (qs ''REGISTER'')), (''from'', QString user),
       (''content'', QString password)])"

definition send_login :: "qt \<Rightarrow> qstring \<Rightarrow> qstring \<Rightarrow> chat_client \<Rightarrow> chat_client" where
  "send_login Q user password =
     send_json Q (qobject [(''type'', QString (qs ''LOGIN'')), (''from'', QString user),
       (''content'', QString password)])"

definition send_logout :: "qt \<Rightarrow> chat_client \<Rightarrow> chat_client" where
  "send_logout Q = send_json Q (qobject [(''type'', QString (qs ''LOGOUT''))])"

definition send_broadcast :: "qt \<Rightarrow> qstring \<Rightarrow> chat_client \<Rightarrow> chat_client" where
  "send_broadcast Q content =
     send_json Q (qobject [(''type'', QString (qs ''BROADCAST'')), (''content'', QString content)])"

definition send_private :: "qt \<Rightarrow> qstring \<Rightarrow> qstring \<Rightarrow> chat_client \<Rightarrow> chat_client" where
  "send_private Q to content =
     send_json Q (qobject [(''type'', QString (qs ''PRIVATE'')), (''to'', QString to),
       (''content'', QString content)])"

definition send_history_req :: "qt \<Rightarrow> qstring \<Rightarrow> chat_client \<Rightarrow> chat_client" where
  "send_history_req Q target =
     send_json Q (qobject [(''type'', QString (qs ''HISTORY_REQ'')), (''to'', QString target)])"

section \<open>Dispatching\<close>

definition dispatch_message ::
  "qt \<Rightarrow> (qstring \<times> qjson) list \<Rightarrow> chat_client \<Rightarrow> chat_client \<times> client_signal list" where
  "dispatch_message Q msg c =
     (let type = to_qstring (member msg ''type'') in
      if type = qs ''PING'' then
        (send_json Q (qobject [(''type'', QString (qs ''PONG''))]) c, [])
      else if type = qs ''LOGIN_OK'' then (c, [SigLoginOk (to_qstring (member msg ''from''))])
      else if type = qs ''ERROR'' then
        (c, [SigErrorReceived (to_qstring (member msg ''code'')) (to_qstring (member msg ''content''))])
      else if type = qs ''BROADCAST'' then
        (c, [SigBroadcastReceived (to_qstring (member msg ''from'')) (to_qstring (member msg ''content''))
               (qt_to_qint64 Q (member msg ''timestamp''))])
      else if type = qs ''PRIVATE'' then
        (c, [SigPrivateReceived (to_qstring (member msg ''from'')) (to_qstring (member msg ''to''))
               (to_qstring (member msg ''content'')) (qt_to_qint64 Q (member msg ''timestamp''))])
      else if type = qs ''USER_LIST'' then
        (c, [SigUserListUpdated (map (\<lambda>v. to_qstring (Some v)) (to_array (member msg ''data'')))])
      else if type = qs ''HISTORY_RESP'' then
        (c, [SigHistoryReceived (to_qstring (member msg ''to'')) (to_array (member msg ''data''))])
      else if type = qs ''NOTIFY'' then (c, [SigNotifyReceived (to_qstring (member msg ''content''))])
      else (c, []))"

lemma send_json_simps [simp]:
  "recv_buffer (send_json Q m c) = recv_buffer c"
  "socket (send_json Q m c) = socket c"
  "is_connecting (send_json Q m c) = is_connecting c"
  by (simp_all add: send_json_def)

lemma dispatch_message_simps [simp]:
  "recv_buffer (fst (dispatch_message Q m c)) = recv_buffer c"
  "socket (fst (dispatch_message Q m c)) = socket c"
  "is_connecting (fst (dispatch_message Q m c)) = is_connecting c"
  by (simp_all add: dispatch_message_def Let_def)

section \<open>Socket events\<close>

definition on_socket_connected :: "chat_client \<Rightarrow> chat_client \<times> client_signal list" where
  "on_socket_connected c = (c\<lparr>is_connecting := False\<rparr>, [SigConnected])"

definition on_socket_disconnected :: "qt \<Rightarrow> chat_client \<Rightarrow> chat_client \<times> client_signal list" where
  "on_socket_disconnected Q c =
     (let c1 = c\<lparr>recv_buffer := []\<rparr> in
      if is_connecting c1
      then (c1\<lparr>is_connecting := False\<rparr>, [SigConnectionError (qt_error_string Q)])
      else (c1, [SigDisconnected]))"

definition on_socket_error :: "qt \<Rightarrow> chat_client \<Rightarrow> chat_client \<times> client_signal list" where
  "on_socket_error Q c =
     (if is_connecting c
      then (c\<lparr>is_connecting := False\<rparr>, [SigConnectionError (qt_error_string Q)]) else (c, []))"

text \<open>
  \<open>abort()\<close> and \<open>connectToHost()\<close> emit signals of the socket before they return; the client
  reacts to each of them at once. Neither of them emits \<open>readyRead\<close>.
\<close>

fun emitted :: "qt \<Rightarrow> socket_event list \<Rightarrow> chat_client \<Rightarrow> chat_client \<times> client_signal list" where
  "emitted Q [] c = (c, [])"
| "emitted Q (EvConnected # es) c =
     (case on_socket_connected c of (c1, sigs) \<Rightarrow>
       (case emitted Q es c1 of (c2, sigs') \<Rightarrow> (c2, sigs @ sigs')))"
| "emitted Q (EvDisconnected # es) c =
     (case on_socket_disconnected Q c of (c1, sigs) \<Rightarrow>
       (case emitted Q es c1 of (c2, sigs') \<Rightarrow> (c2, sigs @ sigs')))"
| "emitted Q (EvError st # es) c =
     (case on_socket_error Q c of (c1, sigs) \<Rightarrow>
       (case emitted Q es c1 of (c2, sigs') \<Rightarrow> (c2, sigs @ sigs')))"
| "emitted Q (EvReadyRead bs # es) c = emitted Q es c"

definition disconnect_from_server :: "qt \<Rightarrow> chat_client \<Rightarrow> chat_client \<times> client_signal list" where
  "disconnect_from_server Q c =
     (case socket c of
        None \<Rightarrow> (c, [])
      | Some st \<Rightarrow> emitted Q (qt_abort Q st) (c\<lparr>socket := Some Unconnected\<rparr>))"

text \<open>The front of the client's buffer; \<open>qFromBigEndian\<close> reads the first four bytes.\<close>

definition qFromBigEndian :: "bytes \<Rightarrow> 32 word" where
  "qFromBigEndian bs = foldl (\<lambda>w b. Bit_Operations.or (push_bit 8 w) (ucast b)) 0 (take 4 bs)"

definition client_next_frame :: "bytes \<Rightarrow> frame_step" where
  "client_next_frame buf =
     (if length buf < 4 then NeedMore
      else let body_len = qFromBigEndian buf in
        if body_len = 0 then ZeroLength
        else if body_len > 16 * 1024 * 1024 then Oversized
        else if length buf < unat (4 + body_len) then NeedMore
        else Frame (take (unat body_len) (drop 4 buf)) (drop (4 + unat body_len) buf))"

lemma client_next_frame_shrinks: "client_next_frame buf = Frame b r \<Longrightarrow> length r < length buf"
  by (auto simp: client_next_frame_def Let_def split: if_splits)

function process_frames :: "qt \<Rightarrow> chat_client \<Rightarrow> chat_client \<times> client_signal list" where
  "process_frames Q c =
     (case client_next_frame (recv_buffer c) of
        NeedMore \<Rightarrow> (c, [])
      | ZeroLength \<Rightarrow> disconnect_from_server Q (c\<lparr>recv_buffer := []\<rparr>)
      | Oversized \<Rightarrow> disconnect_from_server Q (c\<lparr>recv_buffer := []\<rparr>)
      | Frame json_data rest \<Rightarrow>
          (let c1 = c\<lparr>recv_buffer := rest\<rparr> in
           case qt_parse Q json_data of
             Some (QObject msg) \<Rightarrow>
               (let r = dispatch_message Q msg c1;
                    r' = process_frames Q (fst r)
                in (fst r', snd r @ snd r'))
           | _ \<Rightarrow> process_frames Q c1))"
  by pat_completeness auto
termination
  by (relation "measure (\<lambda>(Q, c). length (recv_buffer c))") (auto dest: client_next_frame_shrinks)

declare process_frames.simps [simp del]

definition on_ready_read :: "qt \<Rightarrow> bytes \<Rightarrow> chat_client \<Rightarrow> chat_client \<times> client_signal list" where
  "on_ready_read Q bs c = process_frames Q (c\<lparr>recv_buffer := recv_buffer c @ bs\<rparr>)"

text \<open>An event of the current socket; with an error comes the state it leaves the socket in.\<close>

fun socket_event :: "qt \<Rightarrow> socket_event \<Rightarrow> chat_client \<Rightarrow> chat_client \<times> client_signal list" where
  "socket_event Q EvConnected c = on_socket_connected (c\<lparr>socket := Some SocketConnected\<rparr>)"
| "socket_event Q EvDisconnected c = on_socket_disconnected Q (c\<lparr>socket := Some Unconnected\<rparr>)"
| "socket_event Q (EvError st) c = on_socket_error Q (c\<lparr>socket := Some st\<rparr>)"
| "socket_event Q (EvReadyRead bs) c = on_ready_read Q bs c"

section \<open>Connecting\<close>

text \<open>
  \<open>setup_socket\<close> silences, aborts and deletes the old socket and makes a new one, whose events
  are those of the new connection.
\<close>

definition setup_socket :: "chat_client \<Rightarrow> chat_client" where
  "setup_socket c = c\<lparr>socket := Some Unconnected, peer := None, wire_out := []\<rparr>"

text \<open>
  \<open>connect_to_server\<close>: \<open>evs\<close> are the signals \<open>connectToHost\<close> emits before it returns, \<open>st\<close> is the
  state it leaves the socket in. A failure that is both signalled and visible in the state is
  reported twice.
\<close>

definition connect_to_server ::
  "qt \<Rightarrow> socket_event list \<Rightarrow> socket_state \<Rightarrow> qstring \<Rightarrow> 16 word \<Rightarrow> chat_client \<Rightarrow>
     chat_client \<times> client_signal list" where
  "connect_to_server Q evs st host port c =
     (if is_connecting c then (c, [])
      else
        (let c1 = c\<lparr>is_connecting := True, recv_buffer := []\<rparr>;
             c2 = (setup_socket c1)\<lparr>peer := Some (host, port), socket := Some st\<rparr>
         in case emitted Q evs c2 of (c3, sigs) \<Rightarrow>
              if st = Unconnected
              then (c3\<lparr>is_connecting := False\<rparr>, sigs @ [SigConnectionError (qt_error_string Q)])
              else (c3, sigs)))"

section \<open>The client's public operations\<close>

datatype client_call =
    CallConnect qstring "16 word"
  | CallDisconnect
  | CallRegister qstring qstring
  | CallLogin qstring qstring
  | CallLogout
  | CallBroadcast qstring
  | CallPrivate qstring qstring
  | CallHistoryReq qstring

text \<open>\<open>outcome\<close> is what \<open>connectToHost\<close> does if the call comes to it.\<close>

fun client_run ::
  "qt \<Rightarrow> socket_event list \<times> socket_state \<Rightarrow> client_call \<Rightarrow> chat_client \<Rightarrow>
     chat_client \<times> client_signal list" where
  "client_run Q outcome (CallConnect host port) c =
     connect_to_server Q (fst outcome) (snd outcome) host port c"
| "client_run Q outcome CallDisconnect c = disconnect_from_server Q c"
| "client_run Q outcome (CallRegister u p) c = (send_register Q u p c, [])"
| "client_run Q outcome (CallLogin u p) c = (send_login Q u p c, [])"
| "client_run Q outcome CallLogout c = (send_logout Q c, [])"
| "client_run Q outcome (CallBroadcast text') c = (send_broadcast Q text' c, [])"
| "client_run Q outcome (CallPrivate to text') c = (send_private Q to text' c, [])"
| "client_run Q outcome (CallHistoryReq target) c = (send_history_req Q target c, [])"

section \<open>Both ends frame alike\<close>

lemma client_header_htonl: "client_header w = htonl_bytes w"
proof -
  have "(ucast (Bit_Operations.and x 0xFF) :: byte) = ucast x" for x :: "32 word"
  proof (rule bit_word_eqI)
    fix n assume "n < LENGTH(8)"
    then have "bit (0xFF :: 32 word) n"
      using bit_mask_iff [of 8 n, where 'a = "32 word"] by (simp add: mask_eq_exp_minus_1)
    then show "bit (ucast (Bit_Operations.and x 0xFF) :: byte) n = bit (ucast x :: byte) n"
      using \<open>n < LENGTH(8)\<close> by (simp add: bit_simps)
  qed
  then show ?thesis by (simp add: client_header_def htonl_bytes_def)
qed

lemma qFromBigEndian_ntohl: "4 \<le> length bs \<Longrightarrow> qFromBigEndian bs = ntohl_bytes bs"
proof -
  assume "4 \<le> length bs"
  then obtain a b c d rest where bs: "bs = a # b # c # d # rest"
    by (auto simp: numeral_eq_Suc Suc_le_length_iff)
  show ?thesis
  proof (rule bit_word_eqI)
    fix n assume "n < LENGTH(32)"
    then show "bit (qFromBigEndian bs) n = bit (ntohl_bytes bs) n"
      by (auto simp: bs qFromBigEndian_def ntohl_bytes_def bit_simps)
  qed
qed

lemma client_next_frame_eq: "client_next_frame buf = next_frame buf"
proof (cases "length buf < 4")
  case False
  then have "qFromBigEndian buf = ntohl_bytes buf" by (intro qFromBigEndian_ntohl) simp
  then show ?thesis
    by (simp add: client_next_frame_def next_frame_def MAX_BODY_LEN_def Let_def)
qed (simp add: client_next_frame_def next_frame_def)

lemma client_frame_eq: "client_frame b = server_frame b"
  by (simp add: client_frame_def server_frame_def client_header_htonl)

interpretation cli: framing client_frame client_next_frame body_ok
proof -
  have "client_frame = server_frame" "client_next_frame = next_frame"
    by (simp_all add: fun_eq_iff client_frame_eq client_next_frame_eq)
  then show "framing client_frame client_next_frame body_ok"
    by (simp add: srv.framing_axioms)
qed

section \<open>Reading a stream\<close>

fun read_all :: "qt \<Rightarrow> bytes list \<Rightarrow> chat_client \<Rightarrow> chat_client \<times> client_signal list" where
  "read_all Q [] c = (c, [])"
| "read_all Q (bs # bss) c =
     (case on_ready_read Q bs c of (c1, sigs) \<Rightarrow>
       (case read_all Q bss c1 of (c2, sigs') \<Rightarrow> (c2, sigs @ sigs')))"

text \<open>What a body makes the client emit; it does not depend on the client's state.\<close>

definition body_signals :: "qt \<Rightarrow> bytes \<Rightarrow> client_signal list" where
  "body_signals Q b =
     (case qt_parse Q b of
        Some (QObject m) \<Rightarrow> snd (dispatch_message Q m new_chat_client)
      | _ \<Rightarrow> [])"

lemma dispatch_signals: "snd (dispatch_message Q m c) = snd (dispatch_message Q m c')"
  by (simp add: dispatch_message_def Let_def)

lemma process_frames_splits:
  "splits client_next_frame buf bodies rest \<Longrightarrow> recv_buffer c = buf \<Longrightarrow>
   recv_buffer (fst (process_frames Q c)) = rest \<and> socket (fst (process_frames Q c)) = socket c \<and>
   snd (process_frames Q c) = concat (map (body_signals Q) bodies)"
proof (induction arbitrary: c rule: splits.induct)
  case (stop buf)
  then show ?case by (simp add: process_frames.simps [of Q c])
next
  case (take buf b r bs rest)
  show ?case
  proof (cases "\<exists>m. qt_parse Q b = Some (QObject m)")
    case True
    then obtain m where m: "qt_parse Q b = Some (QObject m)" by blast
    let ?c = "fst (dispatch_message Q m (c\<lparr>recv_buffer := r\<rparr>))"
    have "snd (dispatch_message Q m (c\<lparr>recv_buffer := r\<rparr>)) = body_signals Q b"
      unfolding body_signals_def using m dispatch_signals by simp
    with take.IH [of ?c] take.hyps(1) take.prems m show ?thesis
      by (simp add: process_frames.simps [of Q c] Let_def)
  next
    case False
    then have "body_signals Q b = []"
      by (auto simp: body_signals_def split: option.split qjson.split)
    with take.IH [of "c\<lparr>recv_buffer := r\<rparr>"] take.hyps(1) take.prems False show ?thesis
      by (auto simp: process_frames.simps [of Q c] Let_def split: option.split qjson.split)
  qed
qed

lemma read_all_fed:
  "fed client_next_frame buf chunks bss rest \<Longrightarrow> recv_buffer c = buf \<Longrightarrow>
   recv_buffer (fst (read_all Q chunks c)) = rest \<and> socket (fst (read_all Q chunks c)) = socket c \<and>
   snd (read_all Q chunks c) = concat (map (body_signals Q) (concat bss))"
proof (induction arbitrary: c rule: fed.induct)
  case (fed_Cons buf ch bs r cs bss rest)
  have "recv_buffer (fst (on_ready_read Q ch c)) = r" "socket (fst (on_ready_read Q ch c)) = socket c"
    "snd (on_ready_read Q ch c) = concat (map (body_signals Q) bs)"
    using process_frames_splits [OF fed_Cons.hyps(1), of "c\<lparr>recv_buffer := recv_buffer c @ ch\<rparr>" Q]
      fed_Cons.prems by (simp_all add: on_ready_read_def)
  with fed_Cons.IH [of "fst (on_ready_read Q ch c)"] show ?case
    by (simp add: case_prod_unfold)
qed simp

section \<open>Properties\<close>

text \<open>
  C24. The two ends of the connection agree on the wire format, although each implements it in its
  own way: the client writes the frames the server writes, and looks at a receive buffer as the
  server does, for every length and every content of the buffer.
\<close>

theorem framing_agrees:
  "client_frame body = htonl_bytes (of_nat (length body)) @ body \<and>
   client_next_frame buf = next_frame buf"
  by (simp add: client_frame_eq server_frame_def client_next_frame_eq)

text \<open>
  The client understands the server's stream however TCP cuts it: if what arrives in any
  sequence of reads is the concatenation of the frames of some bodies, the client emits exactly
  the signals of the bodies, in order, skipping those that are not JSON objects, stays connected
  and has an empty buffer at the end.
\<close>

theorem client_any_fragmentation:
  assumes "list_all body_ok bodies" "concat chunks = concat (map server_frame bodies)"
    and "recv_buffer c = []"
  shows "recv_buffer (fst (read_all Q chunks c)) = [] \<and> socket (fst (read_all Q chunks c)) = socket c \<and>
    snd (read_all Q chunks c) = concat (map (body_signals Q) bodies)"
proof -
  have empty: "client_next_frame [] = NeedMore" by (simp add: client_next_frame_eq)
  have "concat (map client_frame bodies) = [] @ concat chunks"
    using assms(2) by (simp add: client_frame_eq [abs_def])
  from cli.fed_any_chunking [OF assms(1) empty this [symmetric] empty] obtain bss where
    "fed client_next_frame [] chunks bss []" "concat bss = bodies" by blast
  with read_all_fed [OF this(1) assms(3), of Q] show ?thesis by simp
qed

text \<open>A codec for the witnesses: the one-byte body \<open>P\<close> is a PING, everything else does not parse.\<close>

definition sample_qt :: qt where
  "sample_qt = \<lparr>qt_parse = (\<lambda>b. if b = [80] then Some (qobject [(''type'', QString (qs ''PING''))])
       else if b = [79] then Some (qobject [(''type'', QString (qs ''LOGIN_OK'')), (''from'', QString (qs ''amy''))])
       else None),
     qt_print = (\<lambda>v. [112]), qt_to_qint64 = (\<lambda>v. 0), qt_to_integer = (\<lambda>v. 0),
     qt_format_time = (\<lambda>t. []), qt_now = [], qt_trim = (\<lambda>s. s), qt_error_string = qs ''refused'',
     qt_abort = (\<lambda>st. if st = SocketConnected then [EvDisconnected] else [])\<rparr>"

theorem client_any_fragmentation_witness:
  "snd (read_all sample_qt [[0, 0], [0, 1, 79, 0, 0, 0, 1], [80]]
     (new_chat_client\<lparr>socket := Some SocketConnected\<rparr>)) = [SigLoginOk (qs ''amy'')]"
proof -
  have ms: "\<exists>m. qobject [(''type'', QString (qs ''LOGIN_OK'')), (''from'', QString (qs ''amy''))] = QObject m \<and>
      member m ''type'' = Some (QString (qs ''LOGIN_OK'')) \<and> member m ''from'' = Some (QString (qs ''amy''))"
    using member_qobject [of "[(''type'', QString (qs ''LOGIN_OK'')), (''from'', QString (qs ''amy''))]"]
    by (auto simp: qobject_def)
  have mp: "\<exists>m. qobject [(''type'', QString (qs ''PING''))] = QObject m \<and>
      member m ''type'' = Some (QString (qs ''PING''))"
    using member_qobject [of "[(''type'', QString (qs ''PING''))]"] by (auto simp: qobject_def)
  have "body_signals sample_qt [79] = [SigLoginOk (qs ''amy'')]" "body_signals sample_qt [80] = []"
    using ms mp by (auto simp: body_signals_def sample_qt_def dispatch_message_def Let_def)
  then show ?thesis
    using client_any_fragmentation [of "[[79], [80]]" "[[0, 0], [0, 1, 79, 0, 0, 0, 1], [80]]"
        "new_chat_client\<lparr>socket := Some SocketConnected\<rparr>" sample_qt]
    by (simp add: body_ok_def MAX_BODY_LEN_def server_frame_def htonl_bytes_def new_chat_client_def)
qed

end
