(* ===== verification/SendRace.thy ===== *)
theory SendRace
  imports ChatClient
begin

text \<open>
  Concurrent senders on one connection, at the grain of single \<open>send\<close> calls. A message is written
  by several calls of the kernel (\<open>write_all\<close> of the length prefix, then \<open>write_all\<close> of the
  body, \<open>server/src/protocol.cpp\<close>), and any thread may run between two of them. \<open>broadcast\<close> and
  \<open>send_to_fd\<close> hold the session's \<open>send_mutex_\<close> around \<open>send_msg\<close>
  (\<open>server/src/epoll_server.cpp\<close>); \<open>send_error\<close> and \<open>send_ok\<close>, which the handlers use for
  their replies, do not. Run alone a sender is \<open>send_msg\<close>; among senders that hold the mutex the
  connection carries whole frames; one sender without it is enough to break the stream.
\<close>

section \<open>The senders\<close>

datatype send_site = ByBroadcast | BySendToFd | BySendError | BySendOk

fun takes_send_mutex :: "send_site \<Rightarrow> bool" where
  "takes_send_mutex ByBroadcast = True"
| "takes_send_mutex BySendToFd = True"
| "takes_send_mutex BySendError = False"
| "takes_send_mutex BySendOk = False"

text \<open>One call of \<open>send_msg\<close>: who calls it, and the printed message.\<close>

record send_call =
  site :: send_site
  body :: bytes

text \<open>
  Where a call is: not started, in the first or second \<open>write_all\<close> with the bytes still to
  write, about to return, or returned.
\<close>

datatype send_pc = SendStart | Header bytes | Body bytes | Returning bool | Returned bool

text \<open>
  The shared state of one connection: the calls' positions, the holder of \<open>send_mutex_\<close>, whether
  the socket still accepts data (not shut down for writing, not broken), and the bytes accepted.
\<close>

record stream =
  pcs :: "nat \<Rightarrow> send_pc"
  mutex :: "nat option"
  writable :: bool
  stream_bytes :: bytes

definition new_stream :: stream where
  "new_stream = \<lparr>pcs = \<lambda>_. SendStart, mutex = None, writable = True, stream_bytes = []\<rparr>"

definition goto :: "nat \<Rightarrow> send_pc \<Rightarrow> stream \<Rightarrow> stream" where
  "goto t pc s = s\<lparr>pcs := (pcs s)(t := pc)\<rparr>"

definition accept_bytes :: "bytes \<Rightarrow> stream \<Rightarrow> stream" where
  "accept_bytes bs s = s\<lparr>stream_bytes := stream_bytes s @ bs\<rparr>"

text \<open>The bytes the current \<open>write_all\<close> has yet to write, and the position after \<open>n\<close> of them.\<close>

fun pending :: "send_pc \<Rightarrow> bytes" where
  "pending (Header p) = p"
| "pending (Body p) = p"
| "pending _ = []"

fun advance :: "nat \<Rightarrow> send_pc \<Rightarrow> send_pc" where
  "advance n (Header p) = Header (drop n p)"
| "advance n (Body p) = Body (drop n p)"
| "advance n pc = pc"

definition body_header :: "bytes \<Rightarrow> bytes" where
  "body_header b = htonl_bytes (of_nat (length b))"

text \<open>
  One step of one thread, or of the network. A timed-out \<open>write_all\<close> shuts the socket down. A
  \<open>send\<close> fails when the socket no longer accepts data; \<open>transient\<close> says whether it may also fail
  (or accept nothing) on a socket that stays usable, after which \<open>write_all\<close> returns without a
  shutdown. \<open>cut\<close> is a reset by the peer or the shutdown of \<open>remove_client\<close>.
\<close>

inductive send_step :: "bool \<Rightarrow> (nat \<Rightarrow> send_call) \<Rightarrow> stream \<Rightarrow> stream \<Rightarrow> bool"
  for transient :: bool and calls :: "nat \<Rightarrow> send_call" where
  enter_locked:
    "pcs s t = SendStart \<Longrightarrow> takes_send_mutex (site (calls t)) \<Longrightarrow> mutex s = None \<Longrightarrow>
     send_step transient calls s (goto t (Header (body_header (body (calls t)))) (s\<lparr>mutex := Some t\<rparr>))"
| enter_free:
    "pcs s t = SendStart \<Longrightarrow> \<not> takes_send_mutex (site (calls t)) \<Longrightarrow>
     send_step transient calls s (goto t (Header (body_header (body (calls t)))) s)"
| accepted:
    "pending (pcs s t) \<noteq> [] \<Longrightarrow> writable s \<Longrightarrow> 0 < n \<Longrightarrow>
     send_step transient calls s
       (goto t (advance n (pcs s t)) (accept_bytes (take n (pending (pcs s t))) s))"
| timed_out:
    "pending (pcs s t) \<noteq> [] \<Longrightarrow>
     send_step transient calls s (goto t (Returning False) (s\<lparr>writable := False\<rparr>))"
| send_fails:
    "pending (pcs s t) \<noteq> [] \<Longrightarrow> \<not> writable s \<or> transient \<Longrightarrow>
     send_step transient calls s (goto t (Returning False) s)"
| header_done:
    "pcs s t = Header [] \<Longrightarrow> send_step transient calls s (goto t (Body (body (calls t))) s)"
| body_done:
    "pcs s t = Body [] \<Longrightarrow> send_step transient calls s (goto t (Returning True) s)"
| returns:
    "pcs s t = Returning b \<Longrightarrow>
     send_step transient calls s (goto t (Returned b)
       (if takes_send_mutex (site (calls t)) then s\<lparr>mutex := None\<rparr> else s))"
| cut:
    "send_step transient calls s (s\<lparr>writable := False\<rparr>)"

definition send_reach :: "bool \<Rightarrow> (nat \<Rightarrow> send_call) \<Rightarrow> stream \<Rightarrow> stream \<Rightarrow> bool" where
  "send_reach transient calls = (send_step transient calls)\<^sup>*\<^sup>*"

lemma pcs_goto [simp]: "pcs (goto t pc s) u = (if u = t then pc else pcs s u)"
  by (simp add: goto_def)

lemma goto_fields [simp]:
  "mutex (goto t pc s) = mutex s" "writable (goto t pc s) = writable s"
  "stream_bytes (goto t pc s) = stream_bytes s"
  "pcs (accept_bytes bs s) = pcs s" "mutex (accept_bytes bs s) = mutex s"
  "writable (accept_bytes bs s) = writable s"
  "stream_bytes (accept_bytes bs s) = stream_bytes s @ bs"
  by (simp_all add: goto_def accept_bytes_def)

lemma send_reach_refl [simp]: "send_reach tr calls s s"
  by (simp add: send_reach_def)

lemma send_reach_step: "send_step tr calls s s' \<Longrightarrow> send_reach tr calls s' s'' \<Longrightarrow> send_reach tr calls s s''"
  unfolding send_reach_def by (rule converse_rtranclp_into_rtranclp)

lemma send_reach_trans [trans]: "send_reach tr calls s s' \<Longrightarrow> send_reach tr calls s' s'' \<Longrightarrow> send_reach tr calls s s''"
  unfolding send_reach_def by (rule rtranclp_trans)

section \<open>Senders that hold the mutex\<close>

text \<open>What a call still has to write of its frame.\<close>

fun unsent :: "bytes \<Rightarrow> send_pc \<Rightarrow> bytes" where
  "unsent b (Header p) = p @ b"
| "unsent b (Body p) = p"
| "unsent b _ = []"

fun writing :: "send_pc \<Rightarrow> bool" where
  "writing (Header p) = True"
| "writing (Body p) = True"
| "writing _ = False"

fun sent_all :: "send_pc \<Rightarrow> bool" where
  "sent_all (Returning b) = b"
| "sent_all (Returned b) = b"
| "sent_all _ = False"

fun inside :: "send_pc \<Rightarrow> bool" where
  "inside SendStart = False"
| "inside (Returned b) = False"
| "inside _ = True"

text \<open>
  The tail of the stream behind the whole frames: what the current holder has written, nothing, or
  a frame cut off for good, behind which nobody can write any more.
\<close>

definition tail_ok :: "(nat \<Rightarrow> send_call) \<Rightarrow> stream \<Rightarrow> bytes \<Rightarrow> bool" where
  "tail_ok calls s q \<longleftrightarrow>
     (\<exists>t. mutex s = Some t \<and> writing (pcs s t) \<and>
        server_frame (body (calls t)) = q @ unsent (body (calls t)) (pcs s t)) \<or>
     ((\<forall>t. mutex s = Some t \<longrightarrow> \<not> writing (pcs s t)) \<and> q = []) \<or>
     (\<not> writable s \<and> (\<exists>u r. r \<noteq> [] \<and> server_frame (body (calls u)) = q @ r) \<and>
        (\<forall>t. mutex s = Some t \<longrightarrow>
           pcs s t = Header (body_header (body (calls t))) \<or> pcs s t = Returning False))"

definition stream_inv :: "(nat \<Rightarrow> send_call) \<Rightarrow> nat list \<Rightarrow> bytes \<Rightarrow> stream \<Rightarrow> bool" where
  "stream_inv calls sent q s \<longleftrightarrow>
     distinct sent \<and> set sent = {t. sent_all (pcs s t)} \<and>
     (\<forall>t. inside (pcs s t) \<longleftrightarrow> mutex s = Some t) \<and>
     stream_bytes s = concat (map (\<lambda>t. server_frame (body (calls t))) sent) @ q \<and>
     tail_ok calls s q"

lemma body_header_frame: "server_frame b = body_header b @ b"
  by (simp add: server_frame_def body_header_def)

lemma body_header_nonempty [simp]: "body_header b \<noteq> []"
  by (simp add: body_header_def htonl_bytes_def)

lemma stream_inv_new: "stream_inv calls [] [] new_stream"
  by (simp add: stream_inv_def new_stream_def tail_ok_def)

lemma writing_pending: "pending pc \<noteq> [] \<Longrightarrow> writing pc \<and> inside pc \<and> \<not> sent_all pc"
  by (cases pc) auto

lemma advance_simps:
  "writing pc \<Longrightarrow> writing (advance n pc)" "inside (advance n pc) = inside pc"
  "sent_all (advance n pc) = sent_all pc"
  "writing pc \<Longrightarrow> unsent b pc = take n (pending pc) @ unsent b (advance n pc)"
  by (cases pc; simp add: append_assoc [symmetric] del: append_assoc)+

lemma unsent_pending: "pending pc \<noteq> [] \<Longrightarrow> unsent b pc \<noteq> []"
  by (cases pc) auto

text \<open>Under the mutex a thread that can still write is the holder, and its tail is its own.\<close>

lemma tail_of_writer:
  assumes "stream_inv calls sent q s" "writing (pcs s t)"
  obtains "mutex s = Some t" and
    "server_frame (body (calls t)) = q @ unsent (body (calls t)) (pcs s t)"
  | "mutex s = Some t" "\<not> writable s" "pcs s t = Header (body_header (body (calls t)))"
    "\<exists>u r. r \<noteq> [] \<and> server_frame (body (calls u)) = q @ r"
proof -
  have "inside (pcs s t)" using assms(2) by (cases "pcs s t") auto
  with assms(1) have m: "mutex s = Some t" by (simp add: stream_inv_def)
  from assms m that show thesis by (auto simp: stream_inv_def tail_ok_def)
qed

lemma set_sent_goto:
  "set sent = {t. sent_all (pcs s t)} \<Longrightarrow> sent_all pc = sent_all (pcs s t) \<Longrightarrow>
   pcs s' = (pcs s)(t := pc) \<Longrightarrow> set sent = {t. sent_all (pcs s' t)}"
  by auto

lemma stream_inv_step:
  assumes step: "send_step False calls s s'" and inv: "stream_inv calls sent q s"
    and locked: "\<And>t. takes_send_mutex (site (calls t))"
  shows "\<exists>sent' q'. stream_inv calls sent' q' s'"
  using step
proof cases
  case (enter_locked t)
  have "stream_inv calls sent q s'"
    using inv enter_locked unfolding stream_inv_def tail_ok_def
    by (auto simp: body_header_frame split: if_splits)
  then show ?thesis by blast
next
  case (enter_free t)
  with locked show ?thesis by blast
next
  case (accepted t n)
  from accepted(2) have w: "writing (pcs s t)" "\<not> sent_all (pcs s t)" "inside (pcs s t)"
    by (simp_all add: writing_pending)
  from tail_of_writer [OF inv w(1)] accepted(3)
  have t: "mutex s = Some t" "server_frame (body (calls t)) = q @ unsent (body (calls t)) (pcs s t)"
    by blast+
  have "stream_inv calls sent (q @ take n (pending (pcs s t))) s'"
    using inv t w advance_simps(4) [OF w(1), of "body (calls t)" n] accepted(1)
    unfolding stream_inv_def tail_ok_def
    by (auto simp: advance_simps(1-3) split: if_splits)
  then show ?thesis by blast
next
  case (timed_out t)
  then have w: "writing (pcs s t)" "\<not> sent_all (pcs s t)" "inside (pcs s t)"
    by (simp_all add: writing_pending)
  have cut: "mutex s = Some t" "\<exists>u r. r \<noteq> [] \<and> server_frame (body (calls u)) = q @ r"
    using tail_of_writer [OF inv w(1)] unsent_pending [OF timed_out(2)] by (metis)+
  have "stream_inv calls sent q s'"
    using inv w cut timed_out(1) unfolding stream_inv_def tail_ok_def
    by (auto split: if_splits)
  then show ?thesis by blast
next
  case (send_fails t)
  then have w: "writing (pcs s t)" "\<not> sent_all (pcs s t)" "inside (pcs s t)"
    by (simp_all add: writing_pending)
  have cut: "mutex s = Some t" "\<exists>u r. r \<noteq> [] \<and> server_frame (body (calls u)) = q @ r"
    using tail_of_writer [OF inv w(1)] unsent_pending [OF send_fails(2)] by (metis)+
  have "stream_inv calls sent q s'"
    using inv w cut send_fails unfolding stream_inv_def tail_ok_def
    by (auto split: if_splits)
  then show ?thesis by blast
next
  case (header_done t)
  then have w: "writing (pcs s t)" by simp
  from tail_of_writer [OF inv w] header_done
  have t: "mutex s = Some t" "server_frame (body (calls t)) = q @ unsent (body (calls t)) (pcs s t)"
    by (metis body_header_nonempty send_pc.inject(1))+
  have "stream_inv calls sent q s'"
    using inv t header_done unfolding stream_inv_def tail_ok_def
    by (auto split: if_splits)
  then show ?thesis by blast
next
  case (body_done t)
  then have w: "writing (pcs s t)" by simp
  from tail_of_writer [OF inv w] body_done
  have t: "mutex s = Some t" "server_frame (body (calls t)) = q"
    by (metis append_Nil2 send_pc.distinct(9) unsent.simps(2))+
  have "stream_inv calls (sent @ [t]) [] s'"
    using inv t body_done unfolding stream_inv_def tail_ok_def
    by (auto split: if_splits)
  then show ?thesis by blast
next
  case (returns t b)
  have m: "mutex s = Some t" using inv returns(2) unfolding stream_inv_def by (metis inside.simps(5))
  have "stream_inv calls sent q s'"
    using inv m returns locked unfolding stream_inv_def tail_ok_def
    by (auto split: if_splits)
  then show ?thesis by blast
next
  case cut
  then have "stream_inv calls sent q s'"
    using inv unfolding stream_inv_def tail_ok_def by auto
  then show ?thesis by blast
qed

lemma stream_inv_reach:
  assumes "send_reach False calls new_stream s" "\<And>t. takes_send_mutex (site (calls t))"
  shows "\<exists>sent q. stream_inv calls sent q s"
  using assms(1) unfolding send_reach_def
proof induction
  case base
  show ?case using stream_inv_new by blast
next
  case (step s s')
  then show ?case using stream_inv_step assms(2) by blast
qed

section \<open>One sender alone\<close>

lemma goto_same: "pcs s t = pc \<Longrightarrow> goto t pc s = s"
  by (auto simp: goto_def)

definition after_write :: "nat \<Rightarrow> send_pc \<Rightarrow> write_outcome \<Rightarrow> bytes \<Rightarrow> stream \<Rightarrow> stream" where
  "after_write t ok r w s =
     goto t (if r = WriteOk then ok else Returning False)
       (s\<lparr>writable := (r \<noteq> WriteTimeout), stream_bytes := stream_bytes s @ w\<rparr>)"

lemma after_write_accepted:
  "after_write t ok r w' (goto t pc (accept_bytes w s)) = after_write t ok r (w @ w') s"
  by (simp add: after_write_def goto_def accept_bytes_def)

lemma after_write_nothing: "pcs s t = ok \<Longrightarrow> writable s \<Longrightarrow> after_write t ok WriteOk [] s = s"
  by (simp add: after_write_def goto_def fun_upd_idem)

lemma timed_out_step:
  "pending (pcs s t) \<noteq> [] \<Longrightarrow> send_reach tr calls s (after_write t ok WriteTimeout [] s)"
  using send_step.timed_out [of s t tr calls]
  by (auto simp: after_write_def intro: send_reach_step)

lemma failed_step:
  "pending (pcs s t) \<noteq> [] \<Longrightarrow> writable s \<Longrightarrow> send_reach True calls s (after_write t ok WriteError [] s)"
  using send_step.send_fails [of s t True calls]
  by (cases s) (auto simp: after_write_def intro: send_reach_step)

lemma take_then_drop:
  assumes "i + n \<le> m"
  shows "take n (drop i d) @ drop (i + n) (take m d) = drop i (take m d)"
proof -
  have "take n (drop i d) = take n (drop i (take m d))"
    using assms by (simp add: drop_take)
  moreover have "drop (i + n) (take m d) = drop n (drop i (take m d))"
    by (simp add: add.commute)
  ultimately show ?thesis by (simp only: append_take_drop_id)
qed

lemma write_loop_steps:
  assumes part: "\<And>p. pending (part p) = p" "\<And>n p. advance n (part p) = part (drop n p)"
    and ret: "write_loop net clk deadline data sent k c = Some r"
  shows "sent \<le> fst (snd r) \<and> (\<forall>s. pcs s t = part (drop sent data) \<longrightarrow> writable s \<longrightarrow>
    send_reach True calls s (after_write t (part []) (fst r) (drop sent (take (fst (snd r)) data)) s))"
proof (rule write_loop.raw_induct
    [where P = "\<lambda>net clk deadline data sent k c r.
       sent \<le> fst (snd r) \<and> (\<forall>s. pcs s t = part (drop sent data) \<longrightarrow> writable s \<longrightarrow>
    send_reach True calls s (after_write t (part []) (fst r) (drop sent (take (fst (snd r)) data)) s))",
     OF _ ret], intro conjI allI impI)
  fix wl :: "(nat \<Rightarrow> send_result) \<Rightarrow> (nat \<Rightarrow> int) \<Rightarrow> int \<Rightarrow> bytes \<Rightarrow> nat \<Rightarrow> nat \<Rightarrow> nat \<Rightarrow>
     (write_outcome \<times> nat \<times> nat \<times> nat) option"
  fix net clk deadline data sent k c r
  assume IH: "\<And>net clk deadline data sent k c r. wl net clk deadline data sent k c = Some r \<Longrightarrow>
      sent \<le> fst (snd r) \<and> (\<forall>s. pcs s t = part (drop sent data) \<longrightarrow> writable s \<longrightarrow>
    send_reach True calls s (after_write t (part []) (fst r) (drop sent (take (fst (snd r)) data)) s))"
    and eq: "(if sent < length data then
        (case net k of
           Sent n \<Rightarrow>
             if n = 0 then Some (WriteError, sent, Suc k, c)
             else wl net clk deadline data (sent + n) (Suc k) c
         | SendWouldBlock \<Rightarrow>
             if clk c \<ge> deadline then Some (WriteTimeout, sent, Suc k, Suc c)
             else wl net clk deadline data sent (Suc k) (Suc c)
         | SendFailed \<Rightarrow> Some (WriteError, sent, Suc k, c))
      else Some (WriteOk, sent, k, c)) = Some r"
  from eq show "sent \<le> fst (snd r)"
    by (auto split: if_splits send_result.splits dest!: IH [THEN conjunct1])
  fix s :: stream assume pc: "pcs s t = part (drop sent data)" and wr: "writable s"
  let ?goal = "send_reach True calls s (after_write t (part []) (fst r) (drop sent (take (fst (snd r)) data)) s)"
  show ?goal
  proof (cases "sent < length data")
    case False
    with eq pc wr show ?thesis by (auto simp: after_write_nothing)
  next
    case True
    then have p: "pending (pcs s t) \<noteq> []" by (simp add: pc part)
    consider n where "net k = Sent n" "0 < n" | "net k = Sent 0 \<or> net k = SendFailed"
      | "net k = SendWouldBlock" "clk c \<ge> deadline" | "net k = SendWouldBlock" "clk c < deadline"
      by (metis gr0I not_le send_result.exhaust)
    then show ?thesis
    proof cases
      case 1
      let ?s = "goto t (advance n (pcs s t)) (accept_bytes (take n (pending (pcs s t))) s)"
      from True 1 eq have rec: "wl net clk deadline data (sent + n) (Suc k) c = Some r" by simp
      with IH [OF rec, THEN conjunct2, rule_format, of ?s]
      have "send_reach True calls ?s
          (after_write t (part []) (fst r) (drop sent (take (fst (snd r)) data)) s)"
        by (simp add: pc part wr after_write_accepted add.commute [of n sent]
            take_then_drop [OF IH [OF rec, THEN conjunct1]])
      with send_step.accepted [OF p wr 1(2), of True calls] show ?thesis
        by (rule send_reach_step)
    next
      case 2
      with True eq failed_step [OF p wr, of calls "part []"] show ?thesis by auto
    next
      case 3
      with True eq timed_out_step [OF p, of True calls "part []"] show ?thesis by auto
    next
      case 4
      with True eq have "wl net clk deadline data sent (Suc k) (Suc c) = Some r" by simp
      from IH [OF this] pc wr show ?thesis by blast
    qed
  qed
qed

lemma write_all_steps:
  assumes "\<And>p. pending (part p) = p" "\<And>n p. advance n (part p) = part (drop n p)"
    and "write_all net clk data k c = Some (r, w, k', c')" "pcs s t = part data" "writable s"
  shows "send_reach True calls s (after_write t (part []) r w s)"
proof -
  from assms(3) obtain sent where w: "w = take sent data" and
    l: "write_loop net clk (clk c + 5000) data 0 k (Suc c) = Some (r, sent, k', c')"
    by (auto simp: write_all_def)
  from write_loop_steps [of part, OF assms(1,2) l, of t calls] assms(4,5) w show ?thesis by simp
qed

lemma after_write_fields [simp]:
  "pcs (after_write t ok r w s) u = (if u = t then (if r = WriteOk then ok else Returning False) else pcs s u)"
  "mutex (after_write t ok r w s) = mutex s"
  "writable (after_write t ok r w s) = (r \<noteq> WriteTimeout)"
  "stream_bytes (after_write t ok r w s) = stream_bytes s @ w"
  by (simp_all add: after_write_def)

definition own_lock :: "(nat \<Rightarrow> send_call) \<Rightarrow> nat \<Rightarrow> nat option" where
  "own_lock calls t = (if takes_send_mutex (site (calls t)) then Some t else None)"

lemma enter_step:
  assumes "pcs s t = SendStart" "mutex s = None"
  shows "send_step tr calls s
    (goto t (Header (body_header (body (calls t)))) (s\<lparr>mutex := own_lock calls t\<rparr>))"
  using assms send_step.enter_locked [of s t calls tr] send_step.enter_free [of s t calls tr]
  by (cases s) (auto simp: own_lock_def)

lemma return_step:
  assumes "pcs s t = Returning b" "mutex s = own_lock calls t"
  shows "send_step tr calls s (goto t (Returned b) (s\<lparr>mutex := None\<rparr>))"
  using assms send_step.returns [of s t b tr calls]
  by (cases s) (auto simp: own_lock_def split: if_splits)

text \<open>
  A frame written in one go by a sender that finds the mutex free and the socket usable: the
  position after each of the two \<open>write_all\<close>s and the return.
\<close>

lemma header_written:
  assumes "pcs s t = SendStart" "mutex s = None" "writable s"
    and "write_all net clk (body_header (body (calls t))) k c = Some (r, w, k', c')"
  shows "\<exists>s'. send_reach True calls s s' \<and> stream_bytes s' = stream_bytes s @ w \<and>
    pcs s' = (pcs s)(t := if r = WriteOk then Body (body (calls t)) else Returning False) \<and>
    mutex s' = own_lock calls t \<and> writable s' = (r \<noteq> WriteTimeout)"
proof -
  let ?s1 = "goto t (Header (body_header (body (calls t)))) (s\<lparr>mutex := own_lock calls t\<rparr>)"
  let ?s2 = "after_write t (Header []) r w ?s1"
  have "send_reach True calls ?s1 ?s2"
    by (rule write_all_steps [OF _ _ assms(4)]) (simp_all add: assms(3))
  with enter_step [OF assms(1,2)] have 2: "send_reach True calls s ?s2" by (rule send_reach_step)
  show ?thesis
  proof (cases "r = WriteOk")
    case True
    let ?s3 = "goto t (Body (body (calls t))) ?s2"
    have "send_step True calls ?s2 ?s3" using True by (intro send_step.header_done) simp
    then have "send_reach True calls s ?s3"
      by (rule send_reach_trans [OF 2 send_reach_step [OF _ send_reach_refl]])
    then show ?thesis using True by (intro exI [of _ ?s3]) (auto simp: fun_eq_iff)
  next
    case False
    with 2 show ?thesis by (intro exI [of _ ?s2]) (auto simp: fun_eq_iff)
  qed
qed

lemma body_written:
  assumes "pcs s t = Body (body (calls t))" "mutex s = own_lock calls t" "writable s"
    and "write_all net clk (body (calls t)) k c = Some (r, w, k', c')"
  shows "\<exists>s'. send_reach True calls s s' \<and> stream_bytes s' = stream_bytes s @ w \<and>
    pcs s' = (pcs s)(t := Returning (r = WriteOk)) \<and>
    mutex s' = own_lock calls t \<and> writable s' = (r \<noteq> WriteTimeout)"
proof -
  let ?s2 = "after_write t (Body []) r w s"
  have 2: "send_reach True calls s ?s2"
    by (rule write_all_steps [OF _ _ assms(4)]) (simp_all add: assms(1,3))
  show ?thesis
  proof (cases "r = WriteOk")
    case True
    have "send_step True calls ?s2 (goto t (Returning True) ?s2)"
      using True by (intro send_step.body_done) simp
    then have "send_reach True calls s (goto t (Returning True) ?s2)"
      by (rule send_reach_trans [OF 2 send_reach_step [OF _ send_reach_refl]])
    then show ?thesis
      using True assms(2) by (intro exI [of _ "goto t (Returning True) ?s2"]) (auto simp: fun_eq_iff)
  next
    case False
    with 2 assms(2) show ?thesis by (intro exI [of _ ?s2]) (auto simp: fun_eq_iff)
  qed
qed

lemma returned:
  assumes "send_reach tr calls s s'" "pcs s' = (pcs s)(t := Returning b)" "mutex s' = own_lock calls t"
  shows "\<exists>s''. send_reach tr calls s s'' \<and> pcs s'' = (pcs s)(t := Returned b) \<and> mutex s'' = None \<and>
    writable s'' = writable s' \<and> stream_bytes s'' = stream_bytes s'"
proof (intro exI conjI)
  have "send_step tr calls s' (goto t (Returned b) (s'\<lparr>mutex := None\<rparr>))"
    using assms by (intro return_step) auto
  then show "send_reach tr calls s (goto t (Returned b) (s'\<lparr>mutex := None\<rparr>))"
    by (rule send_reach_trans [OF assms(1) send_reach_step [OF _ send_reach_refl]])
qed (auto simp: fun_eq_iff assms(2))

section \<open>Two schedules\<close>

text \<open>The states after a header that was accepted whole, and after the rest of the frame.\<close>

definition header_sent :: "(nat \<Rightarrow> send_call) \<Rightarrow> nat \<Rightarrow> stream \<Rightarrow> stream" where
  "header_sent calls t s =
     goto t (Body (body (calls t))) (accept_bytes (body_header (body (calls t)))
       (if takes_send_mutex (site (calls t)) then s\<lparr>mutex := Some t\<rparr> else s))"

definition frame_sent :: "(nat \<Rightarrow> send_call) \<Rightarrow> nat \<Rightarrow> stream \<Rightarrow> stream" where
  "frame_sent calls t s =
     goto t (Returned True) (accept_bytes (body (calls t))
       (if takes_send_mutex (site (calls t)) then s\<lparr>mutex := None\<rparr> else s))"

lemma goto_goto [simp]: "goto t pc (goto t pc' s) = goto t pc s"
  by (simp add: goto_def)

lemma goto_accept [simp]: "accept_bytes bs (goto t pc s) = goto t pc (accept_bytes bs s)"
  by (simp add: goto_def accept_bytes_def)

lemma goto_mutex [simp]: "(goto t pc s)\<lparr>mutex := m\<rparr> = goto t pc (s\<lparr>mutex := m\<rparr>)"
  "(accept_bytes bs s)\<lparr>mutex := m\<rparr> = accept_bytes bs (s\<lparr>mutex := m\<rparr>)"
  by (simp_all add: goto_def accept_bytes_def)

lemma header_sent_reach:
  assumes "pcs s t = SendStart" "takes_send_mutex (site (calls t)) \<Longrightarrow> mutex s = None" "writable s"
  shows "send_reach tr calls s (header_sent calls t s)"
proof -
  let ?h = "body_header (body (calls t))"
  let ?m = "if takes_send_mutex (site (calls t)) then s\<lparr>mutex := Some t\<rparr> else s"
  have a: "send_step tr calls s (goto t (Header ?h) ?m)"
    using send_step.enter_locked [OF assms(1)] send_step.enter_free [OF assms(1)] assms(2) by auto
  have b: "send_step tr calls (goto t (Header ?h) ?m) (goto t (Header []) (accept_bytes ?h ?m))"
    using send_step.accepted [of "goto t (Header ?h) ?m" t "length ?h" tr calls] assms(3) by simp
  have c: "send_step tr calls (goto t (Header []) (accept_bytes ?h ?m)) (header_sent calls t s)"
    using send_step.header_done [of "goto t (Header []) (accept_bytes ?h ?m)" t tr calls]
    by (simp add: header_sent_def)
  show ?thesis
    by (rule send_reach_step [OF a send_reach_step [OF b send_reach_step [OF c send_reach_refl]]])
qed

lemma frame_sent_reach:
  assumes "pcs s t = Body (body (calls t))" "body (calls t) \<noteq> []" "writable s"
  shows "send_reach tr calls s (frame_sent calls t s)"
proof -
  let ?b = "body (calls t)"
  let ?s1 = "goto t (Body []) (accept_bytes ?b s)" and ?s2 = "goto t (Returning True) (accept_bytes ?b s)"
  have a: "send_step tr calls s ?s1"
    using send_step.accepted [of s t "length ?b" tr calls] assms by simp
  have b: "send_step tr calls ?s1 ?s2" using send_step.body_done [of ?s1 t tr calls] by simp
  have c: "send_step tr calls ?s2 (frame_sent calls t s)"
    using send_step.returns [of ?s2 t True tr calls] by (simp add: frame_sent_def split: if_splits)
  show ?thesis
    by (rule send_reach_step [OF a send_reach_step [OF b send_reach_step [OF c send_reach_refl]]])
qed

lemma sent_fields:
  "pcs (header_sent calls t s) u = (if u = t then Body (body (calls t)) else pcs s u)"
  "writable (header_sent calls t s) = writable s"
  "stream_bytes (header_sent calls t s) = stream_bytes s @ body_header (body (calls t))"
  "mutex (header_sent calls t s) = (if takes_send_mutex (site (calls t)) then Some t else mutex s)"
  "pcs (frame_sent calls t s) u = (if u = t then Returned True else pcs s u)"
  "writable (frame_sent calls t s) = writable s"
  "stream_bytes (frame_sent calls t s) = stream_bytes s @ body (calls t)"
  "mutex (frame_sent calls t s) = (if takes_send_mutex (site (calls t)) then None else mutex s)"
  by (simp_all add: header_sent_def frame_sent_def)

lemma new_stream_fields [simp]:
  "pcs new_stream t = SendStart" "mutex new_stream = None" "writable new_stream"
  "stream_bytes new_stream = []"
  by (simp_all add: new_stream_def)

text \<open>A frame's length prefix is no JSON text: below 16 MB it starts with a null byte.\<close>

lemma body_header_null:
  assumes "length b < MAX_BODY_LEN"
  shows "\<exists>h. body_header b = 0 # h"
proof -
  have "unat (drop_bit 24 (of_nat (length b) :: 32 word)) = drop_bit 24 (length b)"
    using assms unat_body_len [of b] by (simp only: unat_drop_bit_eq less_imp_le)
  also have "\<dots> = 0" using assms by (simp add: drop_bit_eq_div MAX_BODY_LEN_def)
  finally have "unat (drop_bit 24 (of_nat (length b) :: 32 word)) = 0" .
  then have "drop_bit 24 (of_nat (length b) :: 32 word) = 0" by (simp only: unat_eq_zero)
  then show ?thesis by (simp add: body_header_def htonl_bytes_def)
qed

lemma stray_header_read:
  assumes "body_ok b" "length b \<le> length more'" "more' = 0 # ms"
  shows "\<exists>garbage rest. client_next_frame (body_header b @ more') = Frame garbage rest \<and>
    length garbage = length b \<and> hd garbage = 0"
proof -
  have "body_ok (take (length b) more')" using assms(1,2) by (simp add: body_ok_def)
  from srv.split_frame [OF this, of "drop (length b) more'"] assms(1,2)
  have "client_next_frame (body_header b @ more') = Frame (take (length b) more') (drop (length b) more')"
    by (simp add: client_next_frame_eq body_header_frame body_header_def min_absorb2)
  moreover have "hd (take (length b) more') = 0" using assms by (auto simp: body_ok_def take_Cons')
  ultimately show ?thesis using assms(2) by auto
qed

section \<open>Properties\<close>

text \<open>
  The steps are those of \<open>send_msg\<close>: a call that runs without interruption on a free mutex and a
  usable socket puts on the wire, returns and leaves the socket as \<open>send_msg\<close> says, for every
  behaviour of the kernel and the clock.
\<close>

theorem send_steps_are_send_msg:
  assumes "send_msg dump net clk msg = Some r" "dump msg = Some b" "length b \<le> MAX_BODY_LEN"
    and "body (calls t) = string_bytes b" "pcs s t = SendStart" "mutex s = None" "writable s"
  shows "\<exists>s'. send_reach True calls s s' \<and> pcs s' = (pcs s)(t := Returned (sent_ok r)) \<and>
    mutex s' = None \<and> writable s' = (\<not> did_shutdown r) \<and> stream_bytes s' = stream_bytes s @ wire r"
proof -
  have h: "body_header (body (calls t)) = htonl_bytes (of_nat (length b))"
    by (simp add: assms(4) body_header_def string_bytes_def)
  from assms(1-3) obtain out1 w1 k1 c1 where
    w: "write_all net clk (htonl_bytes (of_nat (length b))) 0 0 = Some (out1, w1, k1, c1)"
    by (auto simp: send_msg_def split: option.splits)
  then have 1: "write_all net clk (body_header (body (calls t))) 0 0 = Some (out1, w1, k1, c1)"
    by (simp only: h)
  from header_written [of s t _ _ calls, OF assms(5-7) 1] obtain s1 where
    s1: "send_reach True calls s s1" "stream_bytes s1 = stream_bytes s @ w1"
    "pcs s1 = (pcs s)(t := if out1 = WriteOk then Body (body (calls t)) else Returning False)"
    "mutex s1 = own_lock calls t" "writable s1 = (out1 \<noteq> WriteTimeout)" by blast
  show ?thesis
  proof (cases "out1 = WriteOk")
    case True
    from assms(1-3) True w obtain out2 w2 k2 c2 where
      2: "write_all net clk (body (calls t)) k1 c1 = Some (out2, w2, k2, c2)" and
      r: "r = \<lparr>sent_ok = (out2 = WriteOk), wire = w1 @ w2, did_shutdown = (out2 = WriteTimeout)\<rparr>"
      by (auto simp: send_msg_def assms(4) split: option.splits)
    from True s1(3) have "pcs s1 t = Body (body (calls t))" by simp
    from body_written [of s1 t calls, OF this s1(4) _ 2] s1(5) True obtain s2 where
      s2: "send_reach True calls s1 s2" "stream_bytes s2 = stream_bytes s1 @ w2"
      "pcs s2 = (pcs s1)(t := Returning (out2 = WriteOk))" "mutex s2 = own_lock calls t"
      "writable s2 = (out2 \<noteq> WriteTimeout)" by auto
    have "pcs s2 = (pcs s)(t := Returning (out2 = WriteOk))" using s2(3) s1(3) by simp
    from returned [OF send_reach_trans [OF s1(1) s2(1)] this s2(4)] s2 s1(2) show ?thesis
      by (simp add: r)
  next
    case False
    with assms(1-3) w have r: "r = \<lparr>sent_ok = False, wire = w1, did_shutdown = (out1 = WriteTimeout)\<rparr>"
      by (auto simp: send_msg_def)
    from False s1(3) have "pcs s1 = (pcs s)(t := Returning False)" by simp
    from returned [OF s1(1) this s1(4)] s1 show ?thesis by (simp add: r)
  qed
qed

theorem send_steps_are_send_msg_witness:
  "\<exists>r s'. send_msg (\<lambda>_. Some ''{}'') (\<lambda>_. Sent 3) (\<lambda>_. 0) JNull = Some r \<and>
     send_reach True (\<lambda>_. \<lparr>site = BySendOk, body = string_bytes ''{}''\<rparr>) new_stream s' \<and>
     pcs s' 1 = Returned True \<and> stream_bytes s' = server_frame (string_bytes ''{}'')"
proof -
  define r where "r = \<lparr>sent_ok = True, wire = server_frame (string_bytes ''{}''), did_shutdown = False\<rparr>"
  have r: "send_msg (\<lambda>_. Some ''{}'') (\<lambda>_. Sent 3) (\<lambda>_. 0) JNull = Some r"
    by (simp add: r_def send_msg_def write_all_def write_loop.simps MAX_BODY_LEN_def
        server_frame_def htonl_bytes_def string_bytes_def)
  with send_steps_are_send_msg [OF r, of "''{}''" "\<lambda>_. \<lparr>site = BySendOk, body = string_bytes ''{}''\<rparr>" 1
      new_stream]
  show ?thesis by (auto simp: r_def new_stream_def MAX_BODY_LEN_def)
qed



text \<open>
  C31. A reply without the mutex can break the stream: while a broadcast or \<open>send_to_fd\<close> is between
  its two \<open>write_all\<close>s, a \<open>send_error\<close> or \<open>send_ok\<close> to the same client can be scheduled, with both
  calls returning true and no error anywhere; the client then takes off a message of the length
  of the first that starts with the null byte of the other's length prefix, which no JSON text does.
\<close>

theorem unlocked_reply_breaks_stream:
  assumes "site (calls t) \<in> {ByBroadcast, BySendToFd}" "site (calls u) \<in> {BySendError, BySendOk}"
    and "body_ok (body (calls t))" "body_ok (body (calls u))" "length (body (calls u)) < MAX_BODY_LEN"
  shows "\<exists>s garbage rest. send_reach False calls new_stream s \<and>
    pcs s t = Returned True \<and> pcs s u = Returned True \<and> writable s \<and>
    client_next_frame (stream_bytes s) = Frame garbage rest \<and>
    length garbage = length (body (calls t)) \<and> hd garbage = 0"
proof -
  have ne: "t \<noteq> u" "\<not> takes_send_mutex (site (calls u))" "takes_send_mutex (site (calls t))"
      "body (calls t) \<noteq> []" "body (calls u) \<noteq> []"
    using assms by (auto simp: body_ok_def)
  let ?s1 = "header_sent calls t new_stream" let ?s2 = "header_sent calls u ?s1"
  let ?s3 = "frame_sent calls u ?s2" let ?s4 = "frame_sent calls t ?s3"
  have "send_reach False calls new_stream ?s1" using ne by (intro header_sent_reach) auto
  also have "send_reach False calls ?s1 ?s2" using ne by (intro header_sent_reach) (auto simp: sent_fields)
  also have "send_reach False calls ?s2 ?s3" using ne by (intro frame_sent_reach) (auto simp: sent_fields)
  also have "send_reach False calls ?s3 ?s4" using ne by (intro frame_sent_reach) (auto simp: sent_fields)
  finally have r: "send_reach False calls new_stream ?s4" .
  have "stream_bytes ?s4 = body_header (body (calls t)) @ body_header (body (calls u)) @
      body (calls u) @ body (calls t)"
    by (simp add: sent_fields)
  moreover obtain h where "body_header (body (calls u)) = 0 # h"
    using body_header_null [OF assms(5)] by blast
  ultimately obtain garbage rest where "client_next_frame (stream_bytes ?s4) = Frame garbage rest"
    "length garbage = length (body (calls t))" "hd garbage = 0"
    using stray_header_read [OF assms(3), of "body_header (body (calls u)) @ body (calls u) @ body (calls t)"]
    by auto
  moreover have "pcs ?s4 t = Returned True" "pcs ?s4 u = Returned True" "writable ?s4"
    by (simp_all add: sent_fields)
  ultimately show ?thesis using r by blast
qed

theorem unlocked_reply_breaks_stream_witness:
  "\<exists>s garbage rest. send_reach False
       (\<lambda>t. if t = 0 then \<lparr>site = ByBroadcast, body = [123, 125]\<rparr> else \<lparr>site = BySendOk, body = [91, 93]\<rparr>)
       new_stream s \<and> pcs s 0 = Returned True \<and> pcs s 1 = Returned True \<and>
     client_next_frame (stream_bytes s) = Frame garbage rest \<and> length garbage = 2 \<and> hd garbage = 0"
  using unlocked_reply_breaks_stream [of "\<lambda>t. if t = 0 then \<lparr>site = ByBroadcast, body = [123, 125]\<rparr>
      else \<lparr>site = BySendOk, body = [91, 93]\<rparr>" 0 1]
  by (auto simp: body_ok_def MAX_BODY_LEN_def)

text \<open>
  The mutex does not save the stream from an error that leaves the socket usable: \<open>write_all\<close>
  then returns false in the middle of a frame without shutting the socket down, contrary to its
  comment, and the next call writes a whole frame behind the broken one and returns true.
\<close>

theorem transient_error_breaks_stream:
  assumes "\<forall>t. takes_send_mutex (site (calls t)) \<and> body_ok (body (calls t))"
    and "t \<noteq> u" "length (body (calls t)) \<le> length (body (calls u))"
    and "length (body (calls u)) < MAX_BODY_LEN"
  shows "\<exists>s garbage rest. send_reach True calls new_stream s \<and>
    pcs s t = Returned False \<and> pcs s u = Returned True \<and> writable s \<and>
    client_next_frame (stream_bytes s) = Frame garbage rest \<and>
    length garbage = length (body (calls t)) \<and> hd garbage = 0"
proof -
  have ne: "takes_send_mutex (site (calls v))" "body (calls v) \<noteq> []" for v
    using assms(1) by (auto simp: body_ok_def)
  let ?s1 = "header_sent calls t new_stream"
  let ?s2 = "goto t (Returning False) ?s1" let ?s3 = "goto t (Returned False) (?s2\<lparr>mutex := None\<rparr>)"
  let ?s4 = "header_sent calls u ?s3" let ?s5 = "frame_sent calls u ?s4"
  have "send_reach True calls new_stream ?s1" using ne by (intro header_sent_reach) auto
  also have "send_reach True calls ?s1 ?s2"
    using ne send_step.send_fails [of ?s1 t True calls]
    by (intro send_reach_step [OF _ send_reach_refl]) (simp add: sent_fields)
  also have "send_reach True calls ?s2 ?s3"
    using ne send_step.returns [of ?s2 t False True calls]
    by (intro send_reach_step [OF _ send_reach_refl]) simp
  also have "send_reach True calls ?s3 ?s4"
    using ne assms(2) by (intro header_sent_reach) (auto simp: sent_fields)
  also have "send_reach True calls ?s4 ?s5"
    using ne assms(2) by (intro frame_sent_reach) (auto simp: sent_fields)
  finally have r: "send_reach True calls new_stream ?s5" .
  have "stream_bytes ?s5 = body_header (body (calls t)) @ body_header (body (calls u)) @ body (calls u)"
    by (simp add: sent_fields)
  moreover obtain h where "body_header (body (calls u)) = 0 # h"
    using body_header_null [OF assms(4)] by blast
  moreover have "body_ok (body (calls t))" using assms(1) by blast
  ultimately obtain garbage rest where "client_next_frame (stream_bytes ?s5) = Frame garbage rest"
    "length garbage = length (body (calls t))" "hd garbage = 0"
    using stray_header_read [of "body (calls t)" "body_header (body (calls u)) @ body (calls u)"] assms(3)
    by auto
  moreover have "pcs ?s5 t = Returned False" "pcs ?s5 u = Returned True" "writable ?s5"
    using assms(2) by (simp_all add: sent_fields)
  ultimately show ?thesis using r by blast
qed

end
