(* ===== verification/DatabaseInit.thy ===== *)
theory DatabaseInit
  imports Database
begin

text \<open>
  Opening and closing the database: constructor and destructor of \<open>server/src/database.cpp\<close>. SQLite
  is the record \<open>sqlite\<close>: whether it opens a path, executes a statement and prepares a query. The
  connection's state records what has been executed and prepared, and whether the connection has
  been closed.
\<close>

datatype ddl =
    JournalModeWal | SynchronousNormal | BusyTimeout5000 | TempStoreMemory | CacheSize64MB
  | CreateUsers | CreateMessages | CreateIndexToTs

datatype query = StmtRegister | StmtGetHash | StmtStoreMsg | StmtHistRoom | StmtHistPriv

record sqlite =
  opens :: "string \<Rightarrow> bool"
  executes :: "ddl \<Rightarrow> bool"
  prepares :: "query \<Rightarrow> bool"

record connection =
  executed :: "ddl list"
  prepared :: "query list"
  conn_closed :: bool

datatype db_error = OpenFailed | ExecFailed ddl | PrepareFailed query

text \<open>A sequence of calls that stops at the first one that throws.\<close>

fun exec_all :: "sqlite \<Rightarrow> ddl list \<Rightarrow> connection \<Rightarrow> db_error option \<times> connection" where
  "exec_all D [] c = (None, c)"
| "exec_all D (sql # sqls) c =
     (if \<not> executes D sql then (Some (ExecFailed sql), c)
      else exec_all D sqls (c\<lparr>executed := executed c @ [sql]\<rparr>))"

fun prepare_all :: "sqlite \<Rightarrow> query list \<Rightarrow> connection \<Rightarrow> db_error option \<times> connection" where
  "prepare_all D [] c = (None, c)"
| "prepare_all D (q # qs) c =
     (if \<not> prepares D q then (Some (PrepareFailed q), c)
      else prepare_all D qs (c\<lparr>prepared := prepared c @ [q]\<rparr>))"

definition pragmas :: "string \<Rightarrow> ddl list" where
  "pragmas db_path = (if db_path \<noteq> '':memory:'' then [JournalModeWal] else []) @
     [SynchronousNormal, BusyTimeout5000, TempStoreMemory, CacheSize64MB]"

definition schema :: "ddl list" where
  "schema = [CreateUsers, CreateMessages, CreateIndexToTs]"

definition queries :: "query list" where
  "queries = [StmtRegister, StmtGetHash, StmtStoreMsg, StmtHistRoom, StmtHistPriv]"

definition open_database :: "sqlite \<Rightarrow> string \<Rightarrow> db_error option \<times> connection" where
  "open_database D db_path =
     (let c0 = \<lparr>executed = [], prepared = [], conn_closed = False\<rparr> in
      if \<not> opens D db_path then (Some OpenFailed, c0\<lparr>conn_closed := True\<rparr>)
      else
        (case exec_all D (pragmas db_path @ schema) c0 of
           (Some e, c) \<Rightarrow> (Some e, c)
         | (None, c) \<Rightarrow> prepare_all D queries c))"

text \<open>The destructor finalizes the statements, then closes the connection.\<close>

definition close_database :: "connection \<Rightarrow> connection" where
  "close_database c = c\<lparr>prepared := [], conn_closed := True\<rparr>"

lemma exec_all_None: "exec_all D sqls c = (None, c') \<Longrightarrow> c' = c\<lparr>executed := executed c @ sqls\<rparr>"
  by (induction sqls arbitrary: c) (fastforce split: if_splits)+

lemma prepare_all_None: "prepare_all D qs c = (None, c') \<Longrightarrow> c' = c\<lparr>prepared := prepared c @ qs\<rparr>"
  by (induction qs arbitrary: c) (fastforce split: if_splits)+

lemma exec_all_open: "exec_all D sqls c = (r, c') \<Longrightarrow> conn_closed c' = conn_closed c"
  by (induction sqls arbitrary: c) (auto split: if_splits)

lemma prepare_all_open: "prepare_all D qs c = (r, c') \<Longrightarrow> conn_closed c' = conn_closed c"
  by (induction qs arbitrary: c) (auto split: if_splits)

text \<open>
  A database object only exists with the whole schema created and all five queries prepared; when
  SQLite refuses any statement the constructor throws, and the connection it opened is never closed
  (no destructor runs), except when opening itself failed.
\<close>

lemma open_database_complete:
  "open_database D db_path = (None, c) \<Longrightarrow>
   executed c = pragmas db_path @ schema \<and> prepared c = queries \<and> \<not> conn_closed c"
  by (auto simp: open_database_def Let_def split: if_splits prod.splits option.splits
      dest!: exec_all_None prepare_all_None)

lemma open_database_leak:
  "open_database D db_path = (Some e, c) \<Longrightarrow> conn_closed c \<longleftrightarrow> e = OpenFailed"
proof -
  have "exec_all D sqls c0 = (Some e, c') \<Longrightarrow> e \<noteq> OpenFailed" for sqls c0 c'
    by (induction sqls arbitrary: c0) (auto split: if_splits)
  moreover have "prepare_all D qs c0 = (Some e, c') \<Longrightarrow> e \<noteq> OpenFailed" for qs c0 c'
    by (induction qs arbitrary: c0) (auto split: if_splits)
  ultimately show "open_database D db_path = (Some e, c) \<Longrightarrow> conn_closed c \<longleftrightarrow> e = OpenFailed"
    by (auto simp: open_database_def Let_def split: if_splits prod.splits option.splits
        dest: exec_all_open prepare_all_open)
qed

end
