(* ===== verification/EventLoop.thy ===== *)
theory EventLoop
  imports ServerMain RouterLaws DatabaseInit
begin

text \<open>
  The life of the server object of \<open>server/src/epoll_server.cpp\<close>: constructor, \<open>run\<close>, \<open>stop\<close> and
  destructor, with the descriptors they open and close, and the event loop itself as a step
  relation, in which \<open>stop\<close> may be called at any moment (by the signal handler of
  \<open>server/main.cpp\<close>) and workers run in between. What the system calls answer is the record \<open>os\<close>.
  The handlers of the loop are those of \<open>ServerMain\<close>; the loop refines its step relation.
\<close>

section \<open>Descriptors\<close>

record os =
  os_epoll_create :: fd
  os_pipe :: "(fd \<times> fd) option"
  os_timerfd :: fd
  os_settime :: bool
  os_socket :: fd
  os_bind :: bool
  os_listen :: bool

record resources =
  epoll_fd :: fd
  wakeup_in :: fd
  wakeup_out :: fd
  heartbeat_fd :: fd
  listen_fd :: fd
  is_running :: bool
  pipe_bytes :: nat
  opened :: "fd list"
  closed_fds :: "fd list"

definition no_resources :: resources where
  "no_resources = \<lparr>epoll_fd = -1, wakeup_in = -1, wakeup_out = -1, heartbeat_fd = -1, listen_fd = -1,
     is_running = False, pipe_bytes = 0, opened = [], closed_fds = []\<rparr>"

definition note_open :: "fd list \<Rightarrow> resources \<Rightarrow> resources" where
  "note_open fs r = r\<lparr>opened := opened r @ fs\<rparr>"

definition close_all :: "fd list \<Rightarrow> resources \<Rightarrow> resources" where
  "close_all fs r = r\<lparr>closed_fds := closed_fds r @ fs\<rparr>"

text \<open>
  The constructor; a \<open>runtime_error\<close> comes with the descriptors at that point, since no destructor
  runs for an object whose constructor throws.
\<close>

definition construct :: "os \<Rightarrow> (string \<times> resources) + resources" where
  "construct K =
     (let r0 = no_resources\<lparr>epoll_fd := os_epoll_create K\<rparr> in
      if epoll_fd r0 < 0 then Inl (''EpollServer: epoll_create1 failed: '', r0)
      else
        let r1 = note_open [epoll_fd r0] r0 in
        case os_pipe K of
          None \<Rightarrow> Inl (''EpollServer: pipe2 failed: '', (close_all [epoll_fd r1] r1)\<lparr>epoll_fd := -1\<rparr>)
        | Some (p0, p1) \<Rightarrow>
            (let r2 = (note_open [p0, p1] r1)\<lparr>wakeup_in := p0, wakeup_out := p1\<rparr>;
                 r3 = r2\<lparr>heartbeat_fd := os_timerfd K\<rparr>
             in if heartbeat_fd r3 < 0
                then Inl (''EpollServer: timerfd_create failed: '',
                  (close_all [epoll_fd r3, wakeup_in r3, wakeup_out r3] r3)\<lparr>epoll_fd := -1\<rparr>)
                else
                  let r4 = note_open [heartbeat_fd r3] r3 in
                  if \<not> os_settime K
                  then Inl (''EpollServer: timerfd_settime failed: '',
                    (close_all [heartbeat_fd r4, epoll_fd r4, wakeup_in r4, wakeup_out r4] r4)\<lparr>epoll_fd := -1\<rparr>)
                  else Inr r4))"

text \<open>\<open>run\<close> up to the event loop: the descriptor stays in \<open>listen_fd_\<close> when it is closed.\<close>

definition start_listening :: "os \<Rightarrow> resources \<Rightarrow> (string \<times> resources) + resources" where
  "start_listening K r =
     (let r1 = r\<lparr>listen_fd := os_socket K\<rparr> in
      if listen_fd r1 < 0 then Inl (''EpollServer: socket failed: '', r1)
      else
        let r2 = note_open [listen_fd r1] r1 in
        if \<not> os_bind K then Inl (''EpollServer: bind failed on port '', close_all [listen_fd r2] r2)
        else if \<not> os_listen K then Inl (''EpollServer: listen failed: '', close_all [listen_fd r2] r2)
        else Inr (r2\<lparr>is_running := True\<rparr>))"

definition stop_server :: "resources \<Rightarrow> resources" where
  "stop_server r =
     (if \<not> is_running r then r
      else let r1 = r\<lparr>is_running := False\<rparr> in
        if wakeup_out r1 \<ge> 0 then r1\<lparr>pipe_bytes := pipe_bytes r1 + 1\<rparr> else r1)"

text \<open>
  The signal handler of \<open>main\<close>: what it writes to the standard output, and \<open>stop\<close> on the server
  if \<open>g_server\<close> has been set, which \<open>main\<close> does before it installs the handler.
\<close>

definition signal_handler :: "bool \<Rightarrow> resources \<Rightarrow> string \<times> resources" where
  "signal_handler g_server_set r =
     (CHR 0x0A # ''[Server] Shutting down...'' @ [CHR 0x0A], if g_server_set then stop_server r else r)"

text \<open>The destructor; the sessions it clears close their own descriptors.\<close>

definition destroy :: "resources \<Rightarrow> resources" where
  "destroy r =
     (let r1 = stop_server r in
      close_all (filter (\<lambda>f. 0 \<le> f) [heartbeat_fd r1, epoll_fd r1, wakeup_in r1, wakeup_out r1, listen_fd r1]) r1)"

text \<open>
  The life of the server in \<open>main\<close>: \<open>loop\<close> is what the event loop does to the descriptors' record,
  the exit code is 1 after an exception.
\<close>

definition server_life :: "os \<Rightarrow> (resources \<Rightarrow> resources) \<Rightarrow> nat \<times> resources" where
  "server_life K loop =
     (case construct K of
        Inl (e, r) \<Rightarrow> (1, r)
      | Inr r \<Rightarrow>
          (case start_listening K r of
             Inl (e, r1) \<Rightarrow> (1, destroy r1)
           | Inr r1 \<Rightarrow> (0, destroy (loop r1))))"

text \<open>
  \<open>main\<close>: its exit code. The number of workers is converted to an unsigned 64-bit number. The
  constructors run in the order database, server (its thread pool first), router.
\<close>

definition server_main :: "string list \<Rightarrow> sqlite \<Rightarrow> os \<Rightarrow> (resources \<Rightarrow> resources) \<Rightarrow> nat" where
  "server_main argv D K loop =
     (case parse_args (drop 1 argv) default_config of
        None \<Rightarrow> 0
      | Some cfg \<Rightarrow>
          (case open_database D (db_path cfg) of
             (Some e, c) \<Rightarrow> 1
           | (None, c) \<Rightarrow>
               (case initial_system (unat (word_of_int (num_workers cfg) :: 64 word)) of
                  Inl e \<Rightarrow> 1
                | Inr s \<Rightarrow> fst (server_life K loop))))"

definition same_descriptors :: "resources \<Rightarrow> resources \<Rightarrow> bool" where
  "same_descriptors r r' \<longleftrightarrow> epoll_fd r' = epoll_fd r \<and> wakeup_in r' = wakeup_in r \<and>
     wakeup_out r' = wakeup_out r \<and> heartbeat_fd r' = heartbeat_fd r \<and> listen_fd r' = listen_fd r \<and>
     opened r' = opened r \<and> closed_fds r' = closed_fds r"

lemmas resource_defs = no_resources_def note_open_def close_all_def stop_server_def destroy_def Let_def

section \<open>The event loop\<close>

text \<open>What \<open>epoll_wait\<close> reports, with what the handler then meets.\<close>

datatype ready =
    Wakeup
  | Heartbeat
  | Listener "accept_result list"
  | Client fd call_env "nat \<Rightarrow> recv_result"

datatype loop_phase = Check | Waiting_events | Batch "ready list" | Left

record event_loop =
  phase :: loop_phase
  res :: resources
  sys :: system

fun handle_ready :: "platform \<Rightarrow> (string \<Rightarrow> parse_outcome) \<Rightarrow> ready \<Rightarrow> system \<Rightarrow> system" where
  "handle_ready pf parse Wakeup s = s"
| "handle_ready pf parse Heartbeat s =
     s\<lparr>sys_world := on_server (heartbeat (pf_table_order pf)) (sys_world s)\<rparr>"
| "handle_ready pf parse (Listener rs) s =
     s\<lparr>sys_world := on_server (handle_new_connection rs) (sys_world s)\<rparr>"
| "handle_ready pf parse (Client f env net) s = handle_client_event pf parse env net f s"

text \<open>
  What the kernel can report: a wake-up when the pipe holds a byte; new connections on descriptors
  that are not in use, as long as the 64-bit generation counter has not run out.
\<close>

fun accepts_fresh :: "accept_result list \<Rightarrow> server \<Rightarrow> bool" where
  "accepts_fresh (Accepted f ip ok # rs) s \<longleftrightarrow>
     f \<notin> fst ` set (sessions s) \<and> 0 \<le> f \<and> next_generation s < 2 ^ 63 \<and>
     accepts_fresh rs (accept_one f ip ok s)"
| "accepts_fresh _ s = True"

fun can_report :: "event_loop \<Rightarrow> ready \<Rightarrow> bool" where
  "can_report l Wakeup = (0 < pipe_bytes (res l))"
| "can_report l Heartbeat = True"
| "can_report l (Listener rs) = accepts_fresh rs (w_server (sys_world (sys l)))"
| "can_report l (Client f env net) = (next_generation (w_server (sys_world (sys l))) < 2 ^ 63)"

datatype loop_label = Own | StopCalled | Worker

inductive loop_step ::
  "platform \<Rightarrow> (string \<Rightarrow> parse_outcome) \<Rightarrow> event_loop \<Rightarrow> loop_label \<Rightarrow> event_loop \<Rightarrow> bool"
  for pf parse where
  enter: "phase l = Check \<Longrightarrow> is_running (res l) \<Longrightarrow>
    loop_step pf parse l Own (l\<lparr>phase := Waiting_events\<rparr>)"
| leave_loop: "phase l = Check \<Longrightarrow> \<not> is_running (res l) \<Longrightarrow>
    loop_step pf parse l Own (l\<lparr>phase := Left\<rparr>)"
| interrupted: "phase l = Waiting_events \<Longrightarrow> loop_step pf parse l Own (l\<lparr>phase := Check\<rparr>)"
| wait_failed: "phase l = Waiting_events \<Longrightarrow> loop_step pf parse l Own (l\<lparr>phase := Left\<rparr>)"
| reported: "phase l = Waiting_events \<Longrightarrow> length es \<le> 64 \<Longrightarrow> es \<noteq> [] \<Longrightarrow>
    loop_step pf parse l Own (l\<lparr>phase := Batch es\<rparr>)"
| woken: "phase l = Batch (Wakeup # es) \<Longrightarrow> can_report l Wakeup \<Longrightarrow>
    loop_step pf parse l Own (l\<lparr>phase := Check, res := (res l)\<lparr>is_running := False\<rparr>\<rparr>)"
| handled: "phase l = Batch (e # es) \<Longrightarrow> e \<noteq> Wakeup \<Longrightarrow> can_report l e \<Longrightarrow> crashed (sys l) = None \<Longrightarrow>
    s' = handle_ready pf parse e (sys l) \<Longrightarrow>
    loop_step pf parse l Own (l\<lparr>phase := (if crashed s' = None then Batch es else Left), sys := s'\<rparr>)"
| batch_done: "phase l = Batch [] \<Longrightarrow> loop_step pf parse l Own (l\<lparr>phase := Check\<rparr>)"
| stop_called: "loop_step pf parse l StopCalled (l\<lparr>res := stop_server (res l)\<rparr>)"
| worker_starts: "crashed (sys l) = None \<Longrightarrow> pool_step (sys_pool (sys l)) (Start k t) p \<Longrightarrow>
    loop_step pf parse l Worker
      (l\<lparr>sys := (sys l)\<lparr>sys_world := worker_task pf env t (sys_world (sys l)), sys_pool := p\<rparr>\<rparr>)"
| worker_ends: "crashed (sys l) = None \<Longrightarrow> pool_step (sys_pool (sys l)) (Finish k t) p \<Longrightarrow>
    loop_step pf parse l Worker (l\<lparr>sys := (sys l)\<lparr>sys_pool := p\<rparr>\<rparr>)"

inductive_cases loop_stepE: "loop_step pf parse l b l'"

definition initial_loop :: "resources \<Rightarrow> system \<Rightarrow> event_loop" where
  "initial_loop r s = \<lparr>phase = Check, res = r, sys = s\<rparr>"

inductive loop_run ::
  "platform \<Rightarrow> (string \<Rightarrow> parse_outcome) \<Rightarrow> event_loop \<Rightarrow> loop_label list \<Rightarrow> event_loop \<Rightarrow> bool"
  for pf parse l where
  loop_start: "loop_run pf parse l [] l"
| loop_next: "loop_run pf parse l bs l1 \<Longrightarrow> loop_step pf parse l1 b l2 \<Longrightarrow> loop_run pf parse l (bs @ [b]) l2"

section \<open>The loop refines the server's steps\<close>

lemma crashed_on_server: "crashed (s\<lparr>sys_world := w\<rparr>) = crashed s" by simp

lemma accepts_reachable:
  "reachable pf parse s \<Longrightarrow> crashed s = None \<Longrightarrow> accepts_fresh rs (w_server (sys_world s)) \<Longrightarrow>
   reachable pf parse (s\<lparr>sys_world := on_server (handle_new_connection rs) (sys_world s)\<rparr>)"
proof (induction rs arbitrary: s)
  case (Cons r rs)
  show ?case
  proof (cases r)
    case (Accepted f ip ok)
    let ?s = "s\<lparr>sys_world := on_server (handle_new_connection [Accepted f ip ok, AcceptAgain]) (sys_world s)\<rparr>"
    have "sys_step pf parse s ?s"
      using Cons.prems Accepted by (intro sys_step.accept) auto
    with Cons.prems(1) have "reachable pf parse ?s" by (rule reachable.step)
    with Cons.IH [of ?s] Cons.prems Accepted show ?thesis
      by (simp add: on_server_def)
  qed (use Cons.prems in \<open>simp_all add: on_server_def\<close>)
qed (simp add: on_server_def)

lemma handle_ready_reachable:
  assumes "reachable pf parse (sys l)" "crashed (sys l) = None" "can_report l e"
  shows "reachable pf parse (handle_ready pf parse e (sys l))"
proof (cases e)
  case Heartbeat
  with assms show ?thesis by (auto intro: reachable.step sys_step.heartbeat_fired)
next
  case (Client f env net)
  with assms have "sys_step pf parse (sys l) (handle_ready pf parse e (sys l))"
    by (simp add: sys_step.client_event)
  with assms(1) show ?thesis by (rule reachable.step)
qed (use assms accepts_reachable in simp_all)

lemma loop_step_reachable:
  assumes "loop_step pf parse l b l'" "reachable pf parse (sys l)"
  shows "reachable pf parse (sys l')"
  using assms
proof cases
  case (handled e es s')
  then show ?thesis using assms(2) handle_ready_reachable by simp
qed (use assms(2) in \<open>auto intro: reachable.step sys_step.task_start sys_step.task_finish\<close>)

section \<open>Stopping\<close>

fun steps_left :: "loop_phase \<Rightarrow> nat" where
  "steps_left Left = 0"
| "steps_left Check = 1"
| "steps_left (Batch es) = length es + 2"
| "steps_left Waiting_events = 67"

lemma stop_not_running [simp]: "\<not> is_running (stop_server r)"
  by (simp add: stop_server_def Let_def)

lemma stopped_step:
  assumes "loop_step pf parse l b l'" "\<not> is_running (res l)"
  shows "\<not> is_running (res l') \<and>
    steps_left (phase l') + (if b = Own then 1 else 0) \<le> steps_left (phase l)"
  using assms by cases auto

lemma stopped_run:
  "loop_run pf parse l bs l' \<Longrightarrow> \<not> is_running (res l) \<Longrightarrow>
   \<not> is_running (res l') \<and> steps_left (phase l') + count_list bs Own \<le> steps_left (phase l)"
proof (induction rule: loop_run.induct)
  case (loop_next bs l1 b l2)
  with stopped_step [OF loop_next.hyps(2)] show ?case by (auto split: if_splits)
qed simp

lemma handled_event:
  "phase l = Batch (e # es) \<Longrightarrow> e \<noteq> Wakeup \<Longrightarrow> can_report l e \<Longrightarrow> crashed (sys l) = None \<Longrightarrow>
   \<exists>l'. loop_step pf parse l Own l'"
  by (rule exI) (rule handled, assumption+, rule refl)

lemma signal_stops: "loop_step pf parse l StopCalled (l\<lparr>res := snd (signal_handler True (res l))\<rparr>)"
  by (simp add: signal_handler_def stop_called)

text \<open>
  A \<open>stop\<close> that comes before the loop has started is lost: \<open>run\<close> sets the flag again, and nothing
  has been written to the pipe.
\<close>

lemma early_stop_lost: "\<not> is_running r \<Longrightarrow> start_listening K (stop_server r) = start_listening K r"
  by (simp add: stop_server_def)

lemma no_workers_fails: "num_workers cfg = 0 \<Longrightarrow> parse_args (drop 1 argv) default_config = Some cfg \<Longrightarrow>
  server_main argv D K loop = 1"
  by (simp add: server_main_def initial_system_def thread_pool_def split: prod.split option.split)

section \<open>Properties\<close>

text \<open>
  C18. The event loop implements the server's step relation: whatever \<open>epoll_wait\<close> reports, in
  batches of any size and order, whenever \<open>stop\<close> is called and however the workers run in between,
  every state of the running loop is one the step relation reaches, so all invariants of the server
  hold in it.
\<close>

theorem loop_refines_server:
  assumes "initial_system n = Inr s" "loop_run pf parse (initial_loop r s) bs l"
  shows "reachable pf parse (sys l)"
  using assms(2)
proof induction
  case loop_start
  then show ?case using assms(1) by (simp add: initial_loop_def reachable.start)
next
  case (loop_next bs l1 b l2)
  then show ?case using loop_step_reachable by blast
qed

theorem loop_refines_server_witness:
  "\<exists>s s'. initial_system 1 = Inr s \<and> reachable sample_platform (\<lambda>_. BadJson) s' \<and>
     next_generation (w_server (sys_world s')) = 2 \<and> map fst (sessions (w_server (sys_world s'))) = [7]"
proof -
  obtain s where s: "initial_system 1 = Inr s" "crashed s = None" "sys_world s = initial_world"
    by (auto simp: initial_system_def thread_pool_def)
  let ?l0 = "initial_loop (no_resources\<lparr>is_running := True\<rparr>) s"
  let ?l1 = "?l0\<lparr>phase := Waiting_events\<rparr>"
  let ?e = "Listener [Accepted 7 ''::1'' True, AcceptAgain]"
  let ?l2 = "?l1\<lparr>phase := Batch [?e]\<rparr>"
  let ?s' = "handle_ready sample_platform (\<lambda>_. BadJson) ?e (sys ?l2)"
  let ?l3 = "?l2\<lparr>phase := (if crashed ?s' = None then Batch [] else Left), sys := ?s'\<rparr>"
  have 1: "loop_step sample_platform (\<lambda>_. BadJson) ?l0 Own ?l1"
    by (rule enter) (simp_all add: initial_loop_def)
  have 2: "loop_step sample_platform (\<lambda>_. BadJson) ?l1 Own ?l2"
    by (rule reported) simp_all
  have 3: "loop_step sample_platform (\<lambda>_. BadJson) ?l2 Own ?l3"
    by (rule handled [where e = ?e and es = "[]"])
      (use s(2,3) in \<open>simp_all add: initial_loop_def initial_world_def new_server_def\<close>)
  have "loop_run sample_platform (\<lambda>_. BadJson) ?l0 ((([] @ [Own]) @ [Own]) @ [Own]) ?l3"
    by (rule loop_next [OF loop_next [OF loop_next [OF loop_start 1] 2] 3])
  from loop_refines_server [OF s(1) this] s(1) s(3) show ?thesis
    by (intro exI [of _ s] exI [of _ ?s'])
      (simp add: initial_loop_def on_server_def initial_world_def new_server_def accept_one_def Let_def)
qed




definition sample_os :: os where
  "sample_os = \<lparr>os_epoll_create = 3, os_pipe = Some (4, 5), os_timerfd = 6, os_settime = True,
     os_socket = 7, os_bind = False, os_listen = True\<rparr>"


end
