(* ===== verification/Shutdown.thy ===== *)
theory Shutdown
  imports ServerMain RouterLaws
begin

text \<open>
  The end of \<open>server/main.cpp\<close>: when \<open>run\<close> has returned or thrown, the locals of \<open>main\<close> are
  destroyed in the reverse order of their declaration and the members of \<open>EpollServer\<close> likewise,
  while the workers of the pool, which is among the last, are still running. The destroying
  thread and the workers are a step relation; a task that reaches its handler when the router or
  the function object that leads to it is gone is recorded as a dead call.
\<close>

section \<open>What is destroyed, and in which order\<close>

datatype part = Router | OnDisconnect | OnMessage | SessionTable | SessionsMutex | PoolMember | DatabaseLocal

text \<open>The members of \<open>EpollServer\<close> that are objects, and the locals of \<open>main\<close>, as they are declared.\<close>

definition server_members :: "part list" where
  "server_members = [PoolMember, SessionsMutex, SessionTable, OnMessage, OnDisconnect]"

datatype local = LocalDatabase | LocalServer | LocalRouter

definition main_locals :: "local list" where
  "main_locals = [LocalDatabase, LocalServer, LocalRouter]"

text \<open>
  What the destroying thread does: end the life of a part, run the body of \<open>~EpollServer\<close> (the
  sessions are dropped), set the pool's stop flag, join its workers.
\<close>

datatype teardown_action = Destroy part | ServerBody | StopPool | JoinPool

fun destroy_member :: "part \<Rightarrow> teardown_action list" where
  "destroy_member PoolMember = [StopPool, JoinPool, Destroy PoolMember]"
| "destroy_member x = [Destroy x]"

fun destroy_local :: "local \<Rightarrow> teardown_action list" where
  "destroy_local LocalRouter = [Destroy Router]"
| "destroy_local LocalServer = ServerBody # concat (map destroy_member (rev server_members))"
| "destroy_local LocalDatabase = [Destroy DatabaseLocal]"

definition teardown :: "teardown_action list" where
  "teardown = concat (map destroy_local (rev main_locals))"

lemma teardown_order: "teardown =
  [Destroy Router, ServerBody, Destroy OnDisconnect, Destroy OnMessage, Destroy SessionTable,
   Destroy SessionsMutex, StopPool, JoinPool, Destroy PoolMember, Destroy DatabaseLocal]"
  by (simp add: teardown_def main_locals_def server_members_def)

section \<open>The step relation\<close>

record shutdown =
  todo :: "teardown_action list"
  gone :: "part set"
  table :: "(fd \<times> sid) list"
  spool :: "task pool"
  served :: "task list"
  dead_calls :: "task list"

text \<open>
  The worker's lambda compares generations first; no generation changes any more, because only
  the event loop changes them.
\<close>

fun live_task :: "world \<Rightarrow> task \<Rightarrow> bool" where
  "live_task w (i, gen_at_dispatch, msg) = (generation (session_of w i) = gen_at_dispatch)"

definition begin_task :: "world \<Rightarrow> task \<Rightarrow> shutdown \<Rightarrow> shutdown" where
  "begin_task w t s =
     (if \<not> live_task w t then s
      else if OnMessage \<in> gone s \<or> Router \<in> gone s then s\<lparr>dead_calls := dead_calls s @ [t]\<rparr>
      else s\<lparr>served := served s @ [t]\<rparr>)"

fun perform :: "teardown_action \<Rightarrow> shutdown \<Rightarrow> shutdown" where
  "perform (Destroy x) s = s\<lparr>gone := insert x (gone s)\<rparr>"
| "perform ServerBody s = s\<lparr>table := []\<rparr>"
| "perform StopPool s = s\<lparr>spool := request_stop (spool s)\<rparr>"
| "perform JoinPool s = s"

definition all_left :: "task pool \<Rightarrow> bool" where
  "all_left p \<longleftrightarrow> set (workers p) \<subseteq> {Exited}"

inductive shutdown_step :: "world \<Rightarrow> shutdown \<Rightarrow> shutdown \<Rightarrow> bool" for w where
  s_main: "todo s = a # as \<Longrightarrow> (a = JoinPool \<longrightarrow> all_left (spool s)) \<Longrightarrow>
    shutdown_step w s (perform a (s\<lparr>todo := as\<rparr>))"
| s_start: "pool_step (spool s) (Start k t) p \<Longrightarrow> shutdown_step w s (begin_task w t (s\<lparr>spool := p\<rparr>))"
| s_finish: "pool_step (spool s) (Finish k t) p \<Longrightarrow> shutdown_step w s (s\<lparr>spool := p\<rparr>)"
| s_leave: "pool_step (spool s) (Leave k) p \<Longrightarrow> shutdown_step w s (s\<lparr>spool := p\<rparr>)"

definition shutdown_run :: "world \<Rightarrow> shutdown \<Rightarrow> shutdown \<Rightarrow> bool" where
  "shutdown_run w = (shutdown_step w)\<^sup>*\<^sup>*"

lemma perform_simps [simp]:
  "todo (perform a s) = todo s" "served (perform a s) = served s" "dead_calls (perform a s) = dead_calls s"
  "workers (spool (perform a s)) = workers (spool s)" "tasks (spool (perform a s)) = tasks (spool s)"
  "gone s \<subseteq> gone (perform a s)"
  by (cases a; auto simp: request_stop_def)+

lemma begin_task_simps [simp]:
  "todo (begin_task w t s) = todo s" "gone (begin_task w t s) = gone s" "spool (begin_task w t s) = spool s"
  by (simp_all add: begin_task_def)

section \<open>Accounting for the queue\<close>

text \<open>No worker leaves before the queue is empty, and none is left when the pool is joined.\<close>

definition drained :: "shutdown \<Rightarrow> bool" where
  "drained s \<longleftrightarrow> workers (spool s) \<noteq> [] \<and> (Exited \<in> set (workers (spool s)) \<longrightarrow> tasks (spool s) = []) \<and>
     (JoinPool \<notin> set (todo s) \<longrightarrow> tasks (spool s) = [])"

lemma drained_step:
  assumes "shutdown_step w s s'" "drained s" "distinct (todo s)"
  shows "drained s' \<and> distinct (todo s')"
  using assms(1)
proof cases
  case (s_main a as)
  then have "a = JoinPool \<Longrightarrow> tasks (spool s) = []"
    using assms(2) by (cases "workers (spool s)") (auto simp: drained_def all_left_def)
  with s_main assms(2,3) show ?thesis by (cases "a = JoinPool") (auto simp: drained_def)
next
  case (s_start k t p)
  then have "Exited \<in> set (workers p) \<Longrightarrow> Exited \<in> set (workers (spool s))"
    using set_update_subset_insert [of "workers (spool s)" k "Running t"]
    by (auto elim!: pool_step.cases)
  moreover have "workers p \<noteq> []" "\<exists>ts. tasks (spool s) = t # ts \<and> tasks p = ts"
    using s_start(2) assms(2) by (auto elim!: pool_step.cases simp: worker_wait_iff drained_def)
  ultimately show ?thesis using s_start(1) assms(2,3) by (auto simp: drained_def)
next
  case (s_finish k t p)
  then have "tasks p = tasks (spool s)" "workers p = (workers (spool s))[k := Waiting]"
    by (auto elim!: pool_step.cases)
  moreover have "Exited \<in> set ((workers (spool s))[k := Waiting]) \<Longrightarrow> Exited \<in> set (workers (spool s))"
    using set_update_subset_insert [of "workers (spool s)" k Waiting] by auto
  ultimately show ?thesis using s_finish(1) assms(2,3) by (auto simp: drained_def)
next
  case (s_leave k p)
  then have "tasks p = []" "tasks (spool s) = []" "workers p \<noteq> []"
    using assms(2) by (auto elim!: pool_step.cases simp: worker_wait_iff drained_def)
  with s_leave(1) assms(2,3) show ?thesis by (auto simp: drained_def)
qed

text \<open>Tasks leave the queue in order, to their handler or to a dead one.\<close>

lemma calls_step:
  assumes "shutdown_step w s s'"
  shows "gone s \<subseteq> gone s' \<and>
    (if Router \<in> gone s
     then served s' = served s \<and>
       dead_calls s' @ filter (live_task w) (tasks (spool s')) = dead_calls s @ filter (live_task w) (tasks (spool s))
     else mset (served s') + mset (dead_calls s') + mset (filter (live_task w) (tasks (spool s'))) =
       mset (served s) + mset (dead_calls s) + mset (filter (live_task w) (tasks (spool s))))"
  using assms
proof cases
  case (s_start k t p)
  then obtain ts where "tasks (spool s) = t # ts" "tasks p = ts"
    by (auto elim!: pool_step.cases simp: worker_wait_iff)
  with s_start(1) show ?thesis by (auto simp: begin_task_def)
next
  case (s_finish k t p)
  then show ?thesis by (auto elim!: pool_step.cases)
next
  case (s_leave k p)
  then show ?thesis by (auto elim!: pool_step.cases)
next
  case (s_main a as)
  then show ?thesis using perform_simps(6) [of "s\<lparr>todo := as\<rparr>" a] by simp
qed

lemma calls_run:
  assumes "shutdown_run w s s'" "drained s" "distinct (todo s)"
  shows "drained s' \<and> gone s \<subseteq> gone s' \<and> (Router \<in> gone s \<longrightarrow> served s' = served s \<and>
    dead_calls s' @ filter (live_task w) (tasks (spool s')) = dead_calls s @ filter (live_task w) (tasks (spool s)))"
proof -
  have "drained s' \<and> distinct (todo s') \<and> gone s \<subseteq> gone s' \<and> (Router \<in> gone s \<longrightarrow> served s' = served s \<and>
    dead_calls s' @ filter (live_task w) (tasks (spool s')) = dead_calls s @ filter (live_task w) (tasks (spool s)))"
    using assms(1) unfolding shutdown_run_def
  proof (induction rule: rtranclp_induct)
    case (step t u)
    from step.hyps(2) calls_step [OF step.hyps(2)] drained_step [OF step.hyps(2)] step.IH
    show ?case by (auto split: if_splits)
  qed (use assms(2,3) in simp)
  then show ?thesis by blast
qed


definition late_task :: task where
  "late_task = (0, generation (session_of two_users 0), request ''BROADCAST'' [] ''hi'')"

definition router_gone :: shutdown where
  "router_gone = \<lparr>todo = tl teardown, gone = {Router}, table = sessions (w_server two_users),
     spool = \<lparr>workers = [Waiting], tasks = [late_task], stop_flag = False\<rparr>, served = [], dead_calls = []\<rparr>"

lemma run_actions:
  "todo s = pre @ rest \<Longrightarrow> JoinPool \<in> set pre \<longrightarrow> all_left (spool s) \<Longrightarrow>
   shutdown_run w s (fold perform pre (s\<lparr>todo := rest\<rparr>))"
proof (induction pre arbitrary: s)
  case Nil
  then have "s\<lparr>todo := rest\<rparr> = s" by auto
  then show ?case by (simp add: shutdown_run_def)
next
  case (Cons a pre)
  let ?s1 = "perform a (s\<lparr>todo := pre @ rest\<rparr>)"
  have "shutdown_step w s ?s1" using Cons.prems by (intro s_main) auto
  moreover have "shutdown_run w ?s1 (fold perform pre (?s1\<lparr>todo := rest\<rparr>))"
    using Cons.prems by (intro Cons.IH) (auto simp: all_left_def)
  moreover have "?s1\<lparr>todo := rest\<rparr> = perform a (s\<lparr>todo := rest\<rparr>)" by (cases a) simp_all
  ultimately show ?case unfolding shutdown_run_def by (simp add: converse_rtranclp_into_rtranclp)
qed


text \<open>
  Nothing of the kind happens in a teardown that joins the pool before it destroys anything.
\<close>

lemma joined_first_is_safe:
  assumes "shutdown_run w s s'" "todo s = StopPool # JoinPool # as" "StopPool \<notin> set as" "JoinPool \<notin> set as"
    "distinct as" "gone s = {}" "dead_calls s = []" "workers (spool s) \<noteq> []" "Exited \<notin> set (workers (spool s))"
  shows "dead_calls s' = []"
proof -
  have "dead_calls s' = [] \<and> drained s' \<and> distinct (todo s') \<and> (JoinPool \<in> set (todo s') \<longrightarrow> gone s' = {} \<and>
      (\<exists>pre. todo s' = pre @ JoinPool # as \<and> set pre \<subseteq> {StopPool}))"
    using assms(1) unfolding shutdown_run_def
  proof (induction rule: rtranclp_induct)
    case base
    show ?case using assms(2-) by (auto simp: drained_def intro: exI [of _ "[StopPool]"])
  next
    case (step t u)
    have dr: "drained u" "distinct (todo u)" using drained_step [OF step.hyps(2)] step.IH by auto
    from step.hyps(2) have "dead_calls u = [] \<and> (JoinPool \<in> set (todo u) \<longrightarrow> gone u = {} \<and>
      (\<exists>pre. todo u = pre @ JoinPool # as \<and> set pre \<subseteq> {StopPool}))"
    proof cases
      case (s_start k x p)
      then have "tasks (spool t) \<noteq> []" by (auto elim!: pool_step.cases simp: worker_wait_iff)
      then have "JoinPool \<in> set (todo t)" using step.IH by (auto simp: drained_def)
      with s_start(1) step.IH show ?thesis by (auto simp: begin_task_def)
    next
      case (s_main a bs)
      show ?thesis
      proof (cases "JoinPool \<in> set (todo u)")
        case True
        with s_main have "JoinPool \<in> set (todo t)" by auto
        with step.IH obtain pre where pre: "a # bs = pre @ JoinPool # as" "set pre \<subseteq> {StopPool}" "gone t = {}"
          using s_main(2) by auto
        show ?thesis
        proof (cases pre)
          case Nil
          with pre(1) assms(4) s_main True show ?thesis by simp
        next
          case (Cons b pre')
          with pre s_main step.IH show ?thesis by (auto intro: exI [of _ pre'])
        qed
      qed (use s_main step.IH in simp)
    qed (use step.IH in auto)
    with dr show ?case by blast
  qed
  then show ?thesis by blast
qed

end
