(* ===== verification/LockOrder.thy ===== *)
theory LockOrder
  imports Prelude
begin

text \<open>
  Lock ordering in general: threads whose code acquires mutexes in the order of a rank, innermost
  released first, cannot deadlock. Code is given by its locks and its blocking calls, with choices
  for the branches, for what is looked up, and iterations for the loops; its traces are sequences of operations, and
  threads interleave theirs. The interface between an order and the code that follows it is the
  locale \<open>lock_order\<close>.
\<close>

section \<open>Code and its traces\<close>

datatype ('m, 'a) lock_op = Acquire 'm | Release 'm | Work 'a

datatype ('m, 'a) lock_code =
    Skip
  | Do 'a
  | Seq "('m, 'a) lock_code" "('m, 'a) lock_code"
  | Alt "('m, 'a) lock_code" "('m, 'a) lock_code"
  | Many "('m, 'a) lock_code"
  | Any "nat \<Rightarrow> ('m, 'a) lock_code"
  | Some_list "nat list \<Rightarrow> ('m, 'a) lock_code"
  | Under 'm "('m, 'a) lock_code"

inductive trace :: "('m, 'a) lock_code \<Rightarrow> ('m, 'a) lock_op list \<Rightarrow> bool" where
  tr_skip: "trace Skip []"
| tr_do: "trace (Do x) [Work x]"
| tr_seq: "trace c s \<Longrightarrow> trace d t \<Longrightarrow> trace (Seq c d) (s @ t)"
| tr_left: "trace c t \<Longrightarrow> trace (Alt c d) t"
| tr_right: "trace d t \<Longrightarrow> trace (Alt c d) t"
| tr_none: "trace (Many c) []"
| tr_more: "trace c s \<Longrightarrow> trace (Many c) t \<Longrightarrow> trace (Many c) (s @ t)"
| tr_any: "trace (f i) t \<Longrightarrow> trace (Any f) t"
| tr_list: "trace (f is) t \<Longrightarrow> trace (Some_list f) t"
| tr_under: "trace c t \<Longrightarrow> trace (Under m c) (Acquire m # t @ [Release m])"

fun seqs :: "('m, 'a) lock_code list \<Rightarrow> ('m, 'a) lock_code" where
  "seqs [] = Skip"
| "seqs (c # cs) = Seq c (seqs cs)"

fun alts :: "('m, 'a) lock_code list \<Rightarrow> ('m, 'a) lock_code" where
  "alts [] = Skip"
| "alts [c] = c"
| "alts (c # cs) = Alt c (alts cs)"

lemma trace_seqs: "list_all2 trace cs ss \<Longrightarrow> trace (seqs cs) (concat ss)"
  by (induction rule: list_all2_induct) (auto intro: trace.intros)

lemma trace_alts: "c \<in> set cs \<Longrightarrow> trace c s \<Longrightarrow> trace (alts cs) s"
  by (induction cs rule: alts.induct) (auto intro: tr_left tr_right)

lemma trace_brief: "trace (Under m Skip) [Acquire m, Release m]"
  using tr_under [OF tr_skip, of m] by simp

lemma trace_under_do: "trace (Under m (Do x)) [Acquire m, Work x, Release m]"
  using tr_under [OF tr_do, of m x] by simp

lemma trace_once: "trace c s \<Longrightarrow> trace (Many c) s"
  using tr_more [OF _ tr_none, of c s] by simp

text \<open>All mutexes acquired in the code have at least rank \<open>n\<close>, and inside one, higher ranks.\<close>

primrec fits :: "('m \<Rightarrow> nat) \<Rightarrow> ('m, 'a) lock_code \<Rightarrow> nat \<Rightarrow> bool" where
  "fits rank Skip = (\<lambda>n. True)"
| "fits rank (Do x) = (\<lambda>n. True)"
| "fits rank (Seq c d) = (\<lambda>n. fits rank c n \<and> fits rank d n)"
| "fits rank (Alt c d) = (\<lambda>n. fits rank c n \<and> fits rank d n)"
| "fits rank (Many c) = fits rank c"
| "fits rank (Any f) = (\<lambda>n. \<forall>i. fits rank (f i) n)"
| "fits rank (Some_list f) = (\<lambda>n. \<forall>is. fits rank (f is) n)"
| "fits rank (Under m c) = (\<lambda>n. n \<le> rank m \<and> fits rank c (Suc (rank m)))"

lemma fits_seqs [simp]: "fits rank (seqs cs) n \<longleftrightarrow> (\<forall>c \<in> set cs. fits rank c n)"
  by (induction cs) auto

lemma fits_alts [simp]: "fits rank (alts cs) n \<longleftrightarrow> (\<forall>c \<in> set cs. fits rank c n)"
  by (induction cs rule: alts.induct) auto

section \<open>Disciplined threads\<close>

text \<open>
  The rest of a thread that holds the mutexes \<open>h\<close>, the last acquired first: it acquires higher
  ranks than it holds, releases the last acquired first, and ends with nothing.
\<close>

fun disciplined :: "('m \<Rightarrow> nat) \<Rightarrow> 'm list \<Rightarrow> ('m, 'a) lock_op list \<Rightarrow> bool" where
  "disciplined rank h [] = (h = [])"
| "disciplined rank h (Acquire m # t) = ((\<forall>m' \<in> set h. rank m' < rank m) \<and> disciplined rank (m # h) t)"
| "disciplined rank h (Release m # t) = (h \<noteq> [] \<and> hd h = m \<and> disciplined rank (tl h) t)"
| "disciplined rank h (Work x # t) = disciplined rank h t"

lemma trace_disciplined:
  "trace c s \<Longrightarrow> fits rank c n \<Longrightarrow> \<forall>m \<in> set h. rank m < n \<Longrightarrow> disciplined rank h t \<Longrightarrow>
   disciplined rank h (s @ t)"
proof (induction c s arbitrary: n h t rule: trace.induct)
  case (tr_under c s m)
  have "disciplined rank (m # h) (s @ Release m # t)"
    using tr_under.prems by (intro tr_under.IH [of "Suc (rank m)"]) (auto simp: less_Suc_eq)
  with tr_under.prems show ?case by auto
qed auto

section \<open>Threads\<close>

text \<open>A thread is what it holds and what it has still to do.\<close>

type_synonym ('m, 'a) locking = "'m list \<times> ('m, 'a) lock_op list"

definition is_free :: "'m \<Rightarrow> ('m, 'a) locking list \<Rightarrow> bool" where
  "is_free m ts \<longleftrightarrow> (\<forall>t \<in> set ts. m \<notin> set (fst t))"

inductive lock_step :: "('m, 'a) locking list \<Rightarrow> ('m, 'a) locking list \<Rightarrow> bool" where
  l_acquire: "k < length ts \<Longrightarrow> ts ! k = (h, Acquire m # t) \<Longrightarrow> is_free m ts \<Longrightarrow>
    lock_step ts (ts[k := (m # h, t)])"
| l_release: "k < length ts \<Longrightarrow> ts ! k = (h, Release m # t) \<Longrightarrow> lock_step ts (ts[k := (remove1 m h, t)])"
| l_work: "k < length ts \<Longrightarrow> ts ! k = (h, Work x # t) \<Longrightarrow> lock_step ts (ts[k := (h, t)])"

definition lock_run :: "('m, 'a) locking list \<Rightarrow> ('m, 'a) locking list \<Rightarrow> bool" where
  "lock_run = lock_step\<^sup>*\<^sup>*"

text \<open>One step of thread \<open>k\<close>, if it can go on, and a schedule of such steps.\<close>

definition lock_next :: "nat \<Rightarrow> ('m, 'a) locking list \<Rightarrow> ('m, 'a) locking list option" where
  "lock_next k ts =
     (if k < length ts
      then (case ts ! k of
              (h, []) \<Rightarrow> None
            | (h, Acquire m # t) \<Rightarrow> (if is_free m ts then Some (ts[k := (m # h, t)]) else None)
            | (h, Release m # t) \<Rightarrow> Some (ts[k := (remove1 m h, t)])
            | (h, Work x # t) \<Rightarrow> Some (ts[k := (h, t)]))
      else None)"

fun lock_exec :: "nat list \<Rightarrow> ('m, 'a) locking list \<Rightarrow> ('m, 'a) locking list option" where
  "lock_exec [] ts = Some ts"
| "lock_exec (k # ks) ts = (case lock_next k ts of None \<Rightarrow> None | Some us \<Rightarrow> lock_exec ks us)"

lemma lock_next_iff: "lock_step ts us \<longleftrightarrow> (\<exists>k. lock_next k ts = Some us)"
proof
  assume "lock_step ts us"
  then show "\<exists>k. lock_next k ts = Some us"
  proof cases
    case (l_acquire k h m t)
    then show ?thesis by (intro exI [of _ k]) (simp add: lock_next_def)
  next
    case (l_release k h m t)
    then show ?thesis by (intro exI [of _ k]) (simp add: lock_next_def)
  next
    case (l_work k h x t)
    then show ?thesis by (intro exI [of _ k]) (simp add: lock_next_def)
  qed
next
  assume "\<exists>k. lock_next k ts = Some us"
  then obtain k where "lock_next k ts = Some us" ..
  then show "lock_step ts us"
    by (auto simp: lock_next_def intro: lock_step.intros
        split: if_splits prod.splits list.splits lock_op.splits)
qed

lemma lock_exec_run: "lock_exec ks ts = Some us \<Longrightarrow> lock_run ts us"
proof (induction ks arbitrary: ts)
  case (Cons k ks)
  then obtain vs where "lock_next k ts = Some vs" "lock_exec ks vs = Some us"
    by (auto split: option.splits)
  with Cons.IH [of vs] show ?case
    unfolding lock_run_def by (meson converse_rtranclp_into_rtranclp lock_next_iff)
qed (simp add: lock_run_def)

text \<open>No two threads hold the same mutex.\<close>

definition exclusive_locks :: "('m, 'a) locking list \<Rightarrow> bool" where
  "exclusive_locks ts \<longleftrightarrow> (\<forall>k < length ts. \<forall>l < length ts. k \<noteq> l \<longrightarrow> set (fst (ts ! k)) \<inter> set (fst (ts ! l)) = {})"

lemma exclusive_locks_update:
  assumes "exclusive_locks ts" "k < length ts" "\<And>m. m \<in> set h \<Longrightarrow> m \<in> set (fst (ts ! k)) \<or> is_free m ts"
  shows "exclusive_locks (ts[k := (h, t)])"
  unfolding exclusive_locks_def
proof (intro allI impI)
  fix a b
  assume ab: "a < length (ts[k := (h, t)])" "b < length (ts[k := (h, t)])" "a \<noteq> b"
  have other: "set h \<inter> set (fst (ts ! l)) = {}" if "l < length ts" "l \<noteq> k" for l
    using assms that by (fastforce simp: exclusive_locks_def is_free_def)
  show "set (fst (ts[k := (h, t)] ! a)) \<inter> set (fst (ts[k := (h, t)] ! b)) = {}"
    using assms(1,2) ab other [of a] other [of b]
    by (cases "a = k"; cases "b = k") (auto simp: exclusive_locks_def)
qed

definition begin_threads :: "('m, 'a) lock_op list list \<Rightarrow> ('m, 'a) locking list" where
  "begin_threads = map (Pair [])"

section \<open>The interface\<close>

locale lock_order =
  fixes rank :: "'m \<Rightarrow> nat"
    and code :: "('m, 'a) lock_code set"
  assumes code_fits: "c \<in> code \<Longrightarrow> fits rank c 0"
begin

definition orderly :: "('m, 'a) locking list \<Rightarrow> bool" where
  "orderly ts \<longleftrightarrow> (\<forall>(h, t) \<in> set ts. disciplined rank h t) \<and> exclusive_locks ts"

lemma orderly_start:
  assumes "list_all (\<lambda>t. \<exists>c \<in> code. trace c t) ss"
  shows "orderly (begin_threads ss)"
  using assms trace_disciplined [where h = "[]" and t = "[]" and n = 0] code_fits
  by (auto simp: orderly_def begin_threads_def exclusive_locks_def list_all_iff) fastforce

lemma orderly_step:
  assumes "lock_step ts us" "orderly ts"
  shows "orderly us"
  using assms(1)
proof cases
  case (l_acquire k h m t)
  have "disciplined rank h (Acquire m # t)"
    using assms(2) l_acquire nth_mem [of k ts] by (auto simp: orderly_def)
  moreover have "exclusive_locks us"
    unfolding l_acquire(1)
    by (rule exclusive_locks_update) (use assms(2) l_acquire in \<open>auto simp: orderly_def\<close>)
  ultimately show ?thesis
    using assms(2) l_acquire(1) set_update_subset_insert [of ts k "(m # h, t)"] by (auto simp: orderly_def)
next
  case (l_release k h m t)
  have d: "disciplined rank h (Release m # t)"
    using assms(2) l_release nth_mem [of k ts] by (auto simp: orderly_def)
  then have "remove1 m h = tl h" by (cases h) auto
  moreover have "exclusive_locks us"
    unfolding l_release(1)
    by (rule exclusive_locks_update) (use assms(2) l_release set_remove1_subset [of m h] in \<open>auto simp: orderly_def\<close>)
  ultimately show ?thesis
    using assms(2) d l_release(1) set_update_subset_insert [of ts k "(remove1 m h, t)"] by (auto simp: orderly_def)
next
  case (l_work k h x t)
  have "disciplined rank h (Work x # t)"
    using assms(2) l_work nth_mem [of k ts] by (auto simp: orderly_def)
  moreover have "exclusive_locks us"
    unfolding l_work(1)
    by (rule exclusive_locks_update) (use assms(2) l_work in \<open>auto simp: orderly_def\<close>)
  ultimately show ?thesis
    using assms(2) l_work(1) set_update_subset_insert [of ts k "(h, t)"] by (auto simp: orderly_def)
qed

lemma orderly_run: "lock_run ts us \<Longrightarrow> orderly ts \<Longrightarrow> orderly us"
  unfolding lock_run_def by (induction rule: rtranclp_induct) (auto intro: orderly_step)

text \<open>A thread that cannot go on waits for a mutex another one holds, which waits for a higher one.\<close>

lemma orderly_progress:
  assumes "orderly ts" "\<not> (\<exists>us. lock_step ts us)"
  shows "\<forall>t \<in> set ts. t = ([], [])"
proof (rule ccontr)
  assume "\<not> ?thesis"
  define wants where "wants k m \<longleftrightarrow> k < length ts \<and> (\<exists>h t. ts ! k = (h, Acquire m # t))" for k m
  have dis: "disciplined rank h t" if "k < length ts" "ts ! k = (h, t)" for k h t
    using assms(1) that nth_mem [of k ts] by (auto simp: orderly_def)
  have waits: "\<exists>m. wants k m" if "k < length ts" "ts ! k \<noteq> ([], [])" for k
  proof -
    obtain h t where ht: "ts ! k = (h, t)" by (cases "ts ! k")
    with dis [OF that(1) ht] that(2) have "t \<noteq> []" by auto
    then obtain x t' where t: "t = x # t'" by (cases t) auto
    show ?thesis
    proof (cases x)
      case (Acquire m)
      with that(1) ht t show ?thesis by (auto simp: wants_def)
    next
      case (Release m)
      with that(1) ht t assms(2) show ?thesis by (blast intro: l_release)
    next
      case (Work a)
      with that(1) ht t assms(2) show ?thesis by (blast intro: l_work)
    qed
  qed
  have climb: "\<exists>l m'. wants l m' \<and> rank m < rank m'" if w: "wants k m" for k m
  proof -
    from w obtain h t where k: "k < length ts" "ts ! k = (h, Acquire m # t)" by (auto simp: wants_def)
    then have "\<not> is_free m ts" using assms(2) by (blast intro: l_acquire)
    then obtain l where l: "l < length ts" "m \<in> set (fst (ts ! l))" unfolding is_free_def by (metis in_set_conv_nth)
    from l(2) have "ts ! l \<noteq> ([], [])" by (cases "ts ! l") auto
    with waits [OF l(1)] obtain m' where m': "wants l m'" by blast
    then obtain h' t' where "ts ! l = (h', Acquire m' # t')" by (auto simp: wants_def)
    with dis [OF l(1) this] l(2) have "rank m < rank m'" by auto
    with m' show ?thesis by blast
  qed
  let ?R = "{rank m | k m. wants k m}"
  have "?R \<subseteq> (\<lambda>k. case snd (ts ! k) of Acquire m # t \<Rightarrow> rank m | _ \<Rightarrow> 0) ` {..<length ts}"
    by (force simp: wants_def)
  then have fin: "finite ?R" by (rule finite_subset) simp
  from \<open>\<not> ?thesis\<close> obtain k where "k < length ts" "ts ! k \<noteq> ([], [])" by (metis in_set_conv_nth)
  with waits have "?R \<noteq> {}" by blast
  with fin have "Max ?R \<in> ?R" by (rule Max_in)
  then obtain k m where top: "wants k m" "rank m = Max ?R" by auto
  from climb [OF top(1)] obtain l m' where m': "wants l m'" "rank m < rank m'" by blast
  then have "rank m' \<le> Max ?R" using fin by (intro Max_ge) auto
  with m'(2) top(2) show False by simp
qed

lemma never_deadlocks:
  assumes "list_all (\<lambda>t. \<exists>c \<in> code. trace c t) ss" "lock_run (begin_threads ss) ts"
  shows "exclusive_locks ts \<and> ((\<exists>us. lock_step ts us) \<or> (\<forall>t \<in> set ts. t = ([], [])))"
  using orderly_run [OF assms(2) orderly_start [OF assms(1)]] orderly_progress [of ts]
  by (auto simp: orderly_def)

end

end
