(* ===== verification/Lifetime.thy ===== *)
theory Lifetime
  imports LockOrder "HOL-Library.Multiset"
begin

text \<open>
  The lives of \<open>ClientSession\<close> objects and of their descriptors: an object lives as long as a
  \<open>shared_ptr\<close> to it exists, in the table, in a queued task or in a variable of a thread; its
  destructor closes the descriptor, whose number the kernel may then give to another connection or
  to another file. Threads run traces of operations on references (\<open>deed\<close>) among those on mutexes.
  The interface between code that handles its references with care and what it is promised is the
  locale \<open>careful_code\<close>.
\<close>

section \<open>Operations\<close>

text \<open>
  Sessions and descriptors are numbers. \<open>Visit\<close> is an access to an entry during an iteration over
  the table, \<open>FindFd i j\<close> looks up the number of the descriptor of \<open>i\<close> and finds \<open>j\<close>; \<open>Find\<close>, \<open>FindFd\<close>
  and \<open>Unlink\<close> make a reference, \<open>TakeTask\<close> moves one out of the queue, \<open>PostTask\<close> puts a copy into it,
  \<open>Register\<close> moves one into the table, \<open>LetGo\<close> is the end of a variable. \<open>CloseFd\<close> is a \<open>close\<close> of the
  number of a session's descriptor outside its destructor.
\<close>

datatype deed =
    SendTo nat
  | Access nat
  | Visit nat
  | Find nat
  | FindFd nat nat
  | Unlink nat
  | TakeTask nat
  | PostTask nat
  | LetGo nat
  | Born nat nat
  | Register nat
  | CloseFd nat
  | ClearTable

text \<open>The session an operation works on, not counting one it only looks for.\<close>

fun touches :: "deed \<Rightarrow> nat option" where
  "touches (SendTo i) = Some i"
| "touches (Access i) = Some i"
| "touches (Visit i) = Some i"
| "touches (FindFd i j) = Some i"
| "touches (PostTask i) = Some i"
| "touches (Register i) = Some i"
| "touches (LetGo i) = Some i"
| "touches _ = None"

section \<open>The shared state\<close>

datatype owner = Conn nat | Other

record life =
  entries :: "(nat \<times> nat) list"
  posted :: "nat multiset"
  objects :: "nat list"
  made :: "nat set"
  fd_no :: "nat \<Rightarrow> nat"
  descr :: "nat \<Rightarrow> owner option"
  closings :: "(nat \<times> owner option) list"

definition no_life :: life where
  "no_life = \<lparr>entries = [], posted = {#}, objects = [], made = {}, fd_no = (\<lambda>_. 0),
     descr = (\<lambda>_. None), closings = []\<rparr>"

text \<open>When an operation can take place; \<open>accept4\<close> yields a number that is not in use.\<close>

fun possible :: "deed \<Rightarrow> life \<Rightarrow> bool" where
  "possible (Visit i) L = (i \<in> snd ` set (entries L))"
| "possible (Find i) L = (i \<in> snd ` set (entries L))"
| "possible (FindFd i j) L = (map_of (entries L) (fd_no L i) = Some j)"
| "possible (Unlink i) L = (i \<in> snd ` set (entries L))"
| "possible (TakeTask i) L = (i \<in># posted L)"
| "possible (Born i f) L = (i \<notin> made L \<and> descr L f = None)"
| "possible _ L = True"

text \<open>What an operation does to the references the thread holds, and to the shared state.\<close>

fun hold :: "deed \<Rightarrow> nat multiset \<Rightarrow> nat multiset" where
  "hold (Find i) h = add_mset i h"
| "hold (FindFd i j) h = add_mset j h"
| "hold (Unlink i) h = add_mset i h"
| "hold (TakeTask i) h = add_mset i h"
| "hold (Born i f) h = add_mset i h"
| "hold (Register i) h = h - {#i#}"
| "hold (LetGo i) h = h - {#i#}"
| "hold _ h = h"

definition close_fd :: "nat \<Rightarrow> life \<Rightarrow> life" where
  "close_fd i L = L\<lparr>closings := closings L @ [(i, descr L (fd_no L i))],
     descr := (descr L)(fd_no L i := None)\<rparr>"

fun affect :: "deed \<Rightarrow> life \<Rightarrow> life" where
  "affect (Unlink i) L = L\<lparr>entries := filter (\<lambda>p. snd p \<noteq> i) (entries L)\<rparr>"
| "affect (TakeTask i) L = L\<lparr>posted := posted L - {#i#}\<rparr>"
| "affect (PostTask i) L = L\<lparr>posted := add_mset i (posted L)\<rparr>"
| "affect (Born i f) L = L\<lparr>objects := i # objects L, made := insert i (made L),
     fd_no := (fd_no L)(i := f), descr := (descr L)(f := Some (Conn i))\<rparr>"
| "affect (Register i) L = L\<lparr>entries := alist_put (fd_no L i) i (entries L)\<rparr>"
| "affect (CloseFd i) L = close_fd i L"
| "affect ClearTable L = L\<lparr>entries := []\<rparr>"
| "affect _ L = L"

text \<open>A thread: the references it holds and what it has still to do.\<close>

type_synonym 'm holder = "nat multiset \<times> ('m, deed) lock_op list"

definition references :: "'m holder list \<Rightarrow> life \<Rightarrow> nat multiset" where
  "references ts L = mset (map snd (entries L)) + posted L + sum_list (map fst ts)"

text \<open>The destructor, for every object to which no reference is left.\<close>

definition destroy :: "nat \<Rightarrow> life \<Rightarrow> life" where
  "destroy i L = (close_fd i L)\<lparr>objects := removeAll i (objects L)\<rparr>"

definition reap :: "nat multiset \<Rightarrow> life \<Rightarrow> life" where
  "reap refs L = fold destroy (filter (\<lambda>i. i \<notin># refs) (objects L)) L"

section \<open>Steps\<close>

text \<open>Other threads of the process open and close files at any time.\<close>

inductive life_step :: "'m holder list \<times> life \<Rightarrow> 'm holder list \<times> life \<Rightarrow> bool" where
  deed_step: "k < length ts \<Longrightarrow> ts ! k = (h, Work d # r) \<Longrightarrow> possible d L \<Longrightarrow>
    us = ts[k := (hold d h, r)] \<Longrightarrow> M = affect d L \<Longrightarrow>
    life_step (ts, L) (us, reap (references us M) M)"
| acquire_step: "k < length ts \<Longrightarrow> ts ! k = (h, Acquire m # r) \<Longrightarrow> life_step (ts, L) (ts[k := (h, r)], L)"
| release_step: "k < length ts \<Longrightarrow> ts ! k = (h, Release m # r) \<Longrightarrow> life_step (ts, L) (ts[k := (h, r)], L)"
| other_opens: "descr L f = None \<Longrightarrow> life_step (ts, L) (ts, L\<lparr>descr := (descr L)(f := Some Other)\<rparr>)"
| other_closes: "descr L f = Some Other \<Longrightarrow> life_step (ts, L) (ts, L\<lparr>descr := (descr L)(f := None)\<rparr>)"

definition life_run :: "'m holder list \<times> life \<Rightarrow> 'm holder list \<times> life \<Rightarrow> bool" where
  "life_run = life_step\<^sup>*\<^sup>*"

definition start_life :: "('m, deed) lock_op list list \<Rightarrow> 'm holder list \<times> life" where
  "start_life ss = (map (Pair {#}) ss, no_life)"

text \<open>One step of thread \<open>k\<close>, if it can go on, and a schedule of such steps.\<close>

definition life_next :: "nat \<Rightarrow> 'm holder list \<times> life \<Rightarrow> ('m holder list \<times> life) option" where
  "life_next k c =
     (let (ts, L) = c in
      if k < length ts
      then (case ts ! k of
              (h, []) \<Rightarrow> None
            | (h, Work d # r) \<Rightarrow>
                if possible d L
                then let us = ts[k := (hold d h, r)]; M = affect d L in Some (us, reap (references us M) M)
                else None
            | (h, x # r) \<Rightarrow> Some (ts[k := (h, r)], L))
      else None)"

fun life_exec :: "nat list \<Rightarrow> 'm holder list \<times> life \<Rightarrow> ('m holder list \<times> life) option" where
  "life_exec [] c = Some c"
| "life_exec (k # ks) c = (case life_next k c of None \<Rightarrow> None | Some c' \<Rightarrow> life_exec ks c')"

lemma life_next_step: "life_next k c = Some c' \<Longrightarrow> life_step c c'"
  by (cases c) (auto simp: life_next_def Let_def split: if_splits prod.splits list.splits lock_op.splits
      intro: life_step.intros)

lemma life_exec_run: "life_exec ks c = Some c' \<Longrightarrow> life_run c c'"
proof (induction ks arbitrary: c)
  case (Cons k ks)
  then obtain c1 where "life_next k c = Some c1" "life_exec ks c1 = Some c'"
    by (auto split: option.splits)
  with Cons.IH show ?case
    unfolding life_run_def by (blast intro: converse_rtranclp_into_rtranclp life_next_step)
qed (simp add: life_run_def)

lemma life_exec_reaches:
  assumes "case life_exec ks c of Some c' \<Rightarrow> P (fst c') (snd c') | None \<Rightarrow> False"
  shows "\<exists>ts L. life_run c (ts, L) \<and> P ts L"
proof (cases "life_exec ks c")
  case (Some c')
  with assms life_exec_run [OF Some] show ?thesis by (cases c') auto
qed (use assms in simp)

section \<open>Careful threads\<close>

text \<open>
  The rest of a thread that holds \<open>h\<close> works only on sessions it holds, and lets go of everything
  in the end.
\<close>

fun careful :: "nat multiset \<Rightarrow> ('m, deed) lock_op list \<Rightarrow> bool" where
  "careful h [] = (h = {#})"
| "careful h (Work d # r) =
     ((case d of Visit i \<Rightarrow> True | CloseFd i \<Rightarrow> True | _ \<Rightarrow> (case touches d of None \<Rightarrow> True | Some i \<Rightarrow> i \<in># h)) \<and>
      careful (hold d h) r)"
| "careful h (_ # r) = careful h r"

text \<open>Code that leads from the references \<open>h\<close> to the references \<open>h'\<close>.\<close>

definition leads :: "('m, deed) lock_code \<Rightarrow> nat multiset \<Rightarrow> nat multiset \<Rightarrow> bool" where
  "leads c h h' \<longleftrightarrow> (\<forall>s r. trace c s \<longrightarrow> careful h' r \<longrightarrow> careful h (s @ r))"

definition borrows :: "nat set \<Rightarrow> ('m, deed) lock_code \<Rightarrow> bool" where
  "borrows S c \<longleftrightarrow> (\<forall>h. S \<subseteq> set_mset h \<longrightarrow> leads c h h)"

inductive_cases trace_SkipE: "trace Skip s"
inductive_cases trace_DoE: "trace (Do d) s"
inductive_cases trace_SeqE: "trace (Seq c d) s"
inductive_cases trace_AltE: "trace (Alt c d) s"
inductive_cases trace_AnyE: "trace (Any f) s"
inductive_cases trace_listE: "trace (Some_list f) s"
inductive_cases trace_UnderE: "trace (Under m c) s"

lemma leads_Do:
  assumes "\<And>r :: ('m, deed) lock_op list. careful h' r \<Longrightarrow> careful h (Work d # r)"
  shows "leads (Do d :: ('m, deed) lock_code) h h'"
  unfolding leads_def
proof (intro allI impI)
  fix s r :: "('m, deed) lock_op list"
  assume "trace (Do d) s" "careful h' r"
  moreover from this(1) have "s = [Work d]" by (rule trace_DoE)
  ultimately show "careful h (s @ r)" using assms [of r] by (simp only: append_Cons append_Nil)
qed

lemma leads_Skip: "leads Skip h h"
  by (auto simp: leads_def elim: trace_SkipE)

lemma leads_Seq: "leads c h h' \<Longrightarrow> leads d h' h'' \<Longrightarrow> leads (Seq c d) h h''"
  by (auto simp: leads_def elim!: trace_SeqE)

lemma leads_Alt: "leads c h h' \<Longrightarrow> leads d h h' \<Longrightarrow> leads (Alt c d) h h'"
  by (auto simp: leads_def elim!: trace_AltE)

lemma leads_Under: "leads c h h' \<Longrightarrow> leads (Under m c) h h'"
  by (auto simp: leads_def elim!: trace_UnderE)

lemma leads_Many: assumes "leads c h h" shows "leads (Many c) h h"
proof -
  have "careful h (s @ r)" if "trace (Many c) s" "careful h r" for s r
    using that
  proof (induction "Many c" s rule: trace.induct)
    case (tr_more s t)
    then show ?case using assms by (simp add: leads_def)
  qed simp
  then show ?thesis by (simp add: leads_def)
qed

text \<open>References in a scope: \<open>get\<close> makes one to \<open>j\<close>, the end of the scope lets go of it.\<close>

definition scoped :: "('m, deed) lock_code \<Rightarrow> nat \<Rightarrow> ('m, deed) lock_code \<Rightarrow> ('m, deed) lock_code" where
  "scoped get j c = Seq get (Seq c (Do (LetGo j)))"

lemma fits_scoped [simp]: "fits rank (scoped get j c) n \<longleftrightarrow> fits rank get n \<and> fits rank c n"
  by (simp add: scoped_def)

lemma trace_scoped:
  "trace get g \<Longrightarrow> trace c s \<Longrightarrow> trace (scoped get j c) (g @ s @ [Work (LetGo j)])"
  unfolding scoped_def by (intro tr_seq tr_do)

definition gets :: "nat set \<Rightarrow> ('m, deed) lock_code \<Rightarrow> nat \<Rightarrow> bool" where
  "gets S c j \<longleftrightarrow> (\<forall>h. S \<subseteq> set_mset h \<longrightarrow> leads c h (add_mset j h))"

named_theorems borrowing

lemma borrows_Skip [borrowing]: "borrows S Skip"
  by (simp add: borrows_def leads_Skip)

lemma borrows_Seq [borrowing]: "borrows S c \<Longrightarrow> borrows S d \<Longrightarrow> borrows S (Seq c d)"
  by (auto simp: borrows_def intro: leads_Seq)

lemma borrows_Alt [borrowing]: "borrows S c \<Longrightarrow> borrows S d \<Longrightarrow> borrows S (Alt c d)"
  by (auto simp: borrows_def intro: leads_Alt)

lemma borrows_Many [borrowing]: "borrows S c \<Longrightarrow> borrows S (Many c)"
  by (auto simp: borrows_def intro: leads_Many)

lemma borrows_Any [borrowing]: "(\<And>i. borrows S (f i)) \<Longrightarrow> borrows S (Any f)"
  unfolding borrows_def leads_def by (blast elim: trace_AnyE)

lemma borrows_list [borrowing]: "(\<And>is. borrows S (f is)) \<Longrightarrow> borrows S (Some_list f)"
  unfolding borrows_def leads_def by (blast elim: trace_listE)

lemma borrows_Under [borrowing]: "borrows S c \<Longrightarrow> borrows S (Under m c)"
  by (auto simp: borrows_def intro: leads_Under)

lemma borrows_mono: "borrows S c \<Longrightarrow> S \<subseteq> T \<Longrightarrow> borrows T c"
  unfolding borrows_def by blast

lemma borrows_seqs [borrowing]: "(\<And>c. c \<in> set cs \<Longrightarrow> borrows S c) \<Longrightarrow> borrows S (seqs cs)"
  by (induction cs) (auto intro: borrowing)

lemma borrows_alts [borrowing]: "(\<And>c. c \<in> set cs \<Longrightarrow> borrows S c) \<Longrightarrow> borrows S (alts cs)"
  by (induction cs rule: alts.induct) (auto intro: borrowing)

lemma borrows_deed [borrowing]:
  "i \<in> S \<Longrightarrow> borrows S (Do (SendTo i))" "i \<in> S \<Longrightarrow> borrows S (Do (Access i))"
  "i \<in> S \<Longrightarrow> borrows S (Do (PostTask i))" "borrows S (Do (Visit i))" "borrows S (Do (CloseFd i))"
  "borrows S (Do ClearTable)"
  by (auto simp: borrows_def intro!: leads_Do)

lemma gets_deed [borrowing]:
  "gets S (Do (Find i)) i" "i \<in> S \<Longrightarrow> gets S (Do (FindFd i j)) j" "gets S (Do (Unlink i)) i"
  "gets S (Do (TakeTask i)) i" "gets S (Do (Born i f)) i"
  by (auto simp: gets_def intro!: leads_Do)

lemma gets_Under [borrowing]: "gets S c j \<Longrightarrow> gets S (Under m c) j"
  by (auto simp: gets_def intro: leads_Under)

lemma gets_after [borrowing]: "borrows S c \<Longrightarrow> gets S d j \<Longrightarrow> gets S (Seq c d) j"
  by (auto simp: gets_def borrows_def intro: leads_Seq)

lemma borrows_add:
  "borrows (insert j S) c \<Longrightarrow> S \<subseteq> set_mset h \<Longrightarrow> leads c (add_mset j h) (add_mset j h)"
  unfolding borrows_def by (metis insert_subset set_mset_add_mset_insert subset_insertI2 insertI1)

lemma gets_then [borrowing]: "gets S c j \<Longrightarrow> borrows (insert j S) d \<Longrightarrow> gets S (Seq c d) j"
  using borrows_add unfolding gets_def by (blast intro: leads_Seq)

lemma borrows_end:
  "gets S get j \<Longrightarrow> (\<And>h. S \<subseteq> set_mset h \<Longrightarrow> leads c (add_mset j h) h) \<Longrightarrow> borrows S (Seq get c)"
  unfolding gets_def borrows_def by (blast intro: leads_Seq)

lemma leads_LetGo: "leads (Do (LetGo j)) (add_mset j h) h" "leads (Do (Register j)) (add_mset j h) h"
  by (auto intro!: leads_Do)

lemma borrows_scoped [borrowing]: "gets S get j \<Longrightarrow> borrows (insert j S) c \<Longrightarrow> borrows S (scoped get j c)"
  unfolding scoped_def by (rule borrows_end) (auto intro: leads_Seq borrows_add leads_LetGo)

text \<open>References to many: made one after the other, and dropped.\<close>

lemma leads_collect:
  assumes "\<And>i h. leads (f i) h (add_mset i h)"
  shows "leads (seqs (map f is)) h (mset is + h)"
proof (induction "is" arbitrary: h)
  case (Cons i "is")
  have "leads (seqs (map f is)) (add_mset i h) (mset (i # is) + h)" using Cons.IH [of "add_mset i h"] by simp
  then show ?case using leads_Seq [OF assms] by simp
qed (simp add: leads_Skip)

lemma leads_drop: "leads (seqs (map (\<lambda>i. Do (LetGo i)) is)) (mset is + h) h"
proof (induction "is")
  case (Cons i "is")
  have "leads (Do (LetGo i)) (mset (i # is) + h) (mset is + h)" using leads_LetGo(1) [of i "mset is + h"] by simp
  then show ?case using leads_Seq [OF _ Cons.IH] by simp
qed (simp add: leads_Skip)

section \<open>What careful threads keep\<close>

definition tidy :: "('m, deed) lock_op list \<Rightarrow> bool" where
  "tidy r \<longleftrightarrow> (\<forall>i. Work (CloseFd i) \<notin> set r)"

text \<open>
  Every object has its own open descriptor, an open connection its object; the entries are under
  the right numbers; and the sessions ever made are the objects and those whose connection has been
  closed, once.
\<close>

definition owns :: "life \<Rightarrow> bool" where
  "owns L \<longleftrightarrow> (\<forall>i \<in> set (objects L). descr L (fd_no L i) = Some (Conn i)) \<and>
     (\<forall>f i. descr L f = Some (Conn i) \<longrightarrow> i \<in> set (objects L) \<and> fd_no L i = f) \<and>
     (\<forall>(f, i) \<in> set (entries L). fd_no L i = f) \<and>
     distinct (objects L) \<and> distinct (map fst (closings L)) \<and>
     (\<forall>(i, x) \<in> set (closings L). x = Some (Conn i)) \<and>
     set (objects L) \<inter> fst ` set (closings L) = {} \<and> set (objects L) \<union> fst ` set (closings L) = made L"

definition sound :: "'m holder list \<Rightarrow> life \<Rightarrow> bool" where
  "sound ts L \<longleftrightarrow> (\<forall>(h, r) \<in> set ts. careful h r \<and> tidy r) \<and> owns L \<and>
     set (objects L) = set_mset (references ts L)"

lemma ownsD:
  assumes "owns L"
  shows "i \<in> set (objects L) \<Longrightarrow> descr L (fd_no L i) = Some (Conn i)"
    "descr L f = Some (Conn i) \<Longrightarrow> i \<in> set (objects L)" "descr L f = Some (Conn i) \<Longrightarrow> fd_no L i = f"
    "(f, i) \<in> set (entries L) \<Longrightarrow> fd_no L i = f"
    "distinct (objects L)" "distinct (map fst (closings L))"
    "(i, x) \<in> set (closings L) \<Longrightarrow> x = Some (Conn i)"
    "set (objects L) \<inter> fst ` set (closings L) = {}" "set (objects L) \<union> fst ` set (closings L) = made L"
  using assms by (auto simp: owns_def)

lemma ownsI:
  assumes "\<And>i. i \<in> set (objects L) \<Longrightarrow> descr L (fd_no L i) = Some (Conn i)"
    and "\<And>f i. descr L f = Some (Conn i) \<Longrightarrow> i \<in> set (objects L) \<and> fd_no L i = f"
    and "\<And>f i. (f, i) \<in> set (entries L) \<Longrightarrow> fd_no L i = f"
    and "distinct (objects L)" "distinct (map fst (closings L))"
    and "\<And>i x. (i, x) \<in> set (closings L) \<Longrightarrow> x = Some (Conn i)"
    and "set (objects L) \<inter> fst ` set (closings L) = {}" "set (objects L) \<union> fst ` set (closings L) = made L"
  shows "owns L"
  using assms unfolding owns_def by blast

lemma destroy_simps [simp]:
  "entries (destroy i L) = entries L" "posted (destroy i L) = posted L" "made (destroy i L) = made L"
  "objects (destroy i L) = removeAll i (objects L)" "fd_no (destroy i L) = fd_no L"
  "descr (destroy i L) = (descr L)(fd_no L i := None)"
  "closings (destroy i L) = closings L @ [(i, descr L (fd_no L i))]"
  by (simp_all add: destroy_def close_fd_def)

lemma owns_destroy:
  assumes "owns L" "i \<in> set (objects L)"
  shows "owns (destroy i L)"
proof (rule ownsI)
  note o = ownsD [OF assms(1)]
  have own: "descr L (fd_no L i) = Some (Conn i)" using o(1) assms(2) by blast
  show "descr (destroy i L) (fd_no (destroy i L) j) = Some (Conn j)" if "j \<in> set (objects (destroy i L))" for j
  proof -
    have "j \<in> set (objects L)" "j \<noteq> i" using that by auto
    moreover from this o(1) own have "fd_no L j \<noteq> fd_no L i" by fastforce
    ultimately show ?thesis using o(1) by simp
  qed
  show "j \<in> set (objects (destroy i L)) \<and> fd_no (destroy i L) j = f" if "descr (destroy i L) f = Some (Conn j)" for f j
    using that o(2,3) by (auto split: if_splits)
  show "distinct (map fst (closings (destroy i L)))" using o(6,8) assms(2) by auto
  show "x = Some (Conn j)" if "(j, x) \<in> set (closings (destroy i L))" for j x
    using that o(7) own by auto
  show "set (objects (destroy i L)) \<inter> fst ` set (closings (destroy i L)) = {}" using o(8) by auto
  show "set (objects (destroy i L)) \<union> fst ` set (closings (destroy i L)) = made (destroy i L)"
    using o(9) assms(2) by auto
qed (use ownsD [OF assms(1)] in \<open>auto simp: distinct_removeAll\<close>)

lemma owns_destroy_all:
  "distinct is \<Longrightarrow> set is \<subseteq> set (objects L) \<Longrightarrow> owns L \<Longrightarrow>
   owns (fold destroy is L) \<and> set (objects (fold destroy is L)) = set (objects L) - set is \<and>
   entries (fold destroy is L) = entries L \<and> posted (fold destroy is L) = posted L"
proof (induction "is" arbitrary: L)
  case (Cons i "is")
  from Cons.prems have "owns (destroy i L)" by (intro owns_destroy) auto
  with Cons.IH [of "destroy i L"] Cons.prems show ?case by auto
qed simp

lemma reap_owns:
  assumes "owns L" "set_mset refs \<subseteq> set (objects L)"
  shows "owns (reap refs L) \<and> set (objects (reap refs L)) = set_mset refs \<and>
    entries (reap refs L) = entries L \<and> posted (reap refs L) = posted L"
proof -
  let ?is = "filter (\<lambda>i. i \<notin># refs) (objects L)"
  have "distinct ?is" using assms(1) by (simp add: owns_def)
  from owns_destroy_all [OF this _ assms(1)] assms(2) show ?thesis by (auto simp: reap_def)
qed

lemma references_update:
  assumes "k < length ts" "ts ! k = (h, r)"
  shows "references (ts[k := (h', r')]) L = references ts L - h + h'" "h \<subseteq># references ts L"
proof -
  have "ts = take k ts @ (h, r) # drop (Suc k) ts"
    using id_take_nth_drop [OF assms(1)] unfolding assms(2) .
  then have "sum_list (map fst ts) = sum_list (map fst (take k ts @ (h, r) # drop (Suc k) ts))"
    by (rule arg_cong)
  also have "\<dots> = h + sum_list (map fst (take k ts @ drop (Suc k) ts))" by (simp add: ac_simps)
  finally have "sum_list (map fst ts) = h + sum_list (map fst (take k ts @ drop (Suc k) ts))" .
  moreover have "sum_list (map fst (ts[k := (h', r')])) = h' + sum_list (map fst (take k ts @ drop (Suc k) ts))"
    using assms(1) by (simp add: upd_conv_take_nth_drop ac_simps)
  ultimately show "references (ts[k := (h', r')]) L = references ts L - h + h'" "h \<subseteq># references ts L"
    by (simp_all add: references_def ac_simps)
qed

lemma held_update:
  assumes "k < length ts" "ts ! k = (h, r)"
  shows "set_mset h \<subseteq> set_mset (sum_list (map fst ts))"
    "set_mset (sum_list (map fst (ts[k := (h', r')]))) \<subseteq> set_mset h' \<union> set_mset (sum_list (map fst ts))"
proof -
  have all: "set_mset (sum_list (map fst xs)) = (\<Union>x \<in> set xs. set_mset (fst x))" for xs :: "'m holder list"
    by (induction xs) auto
  show "set_mset h \<subseteq> set_mset (sum_list (map fst ts))"
    unfolding all using assms nth_mem [of k ts] by force
  show "set_mset (sum_list (map fst (ts[k := (h', r')]))) \<subseteq> set_mset h' \<union> set_mset (sum_list (map fst ts))"
    unfolding all using set_update_subset_insert [of ts k "(h', r')"] by force
qed

lemma put_subset: "set (alist_put k v xs) \<subseteq> insert (k, v) (set xs)"
  by (induction k v xs rule: alist_put.induct) auto

definition born_by :: "deed \<Rightarrow> nat set" where
  "born_by d = (case d of Born i f \<Rightarrow> {i} | _ \<Rightarrow> {})"

lemma owns_affect:
  assumes "owns L" "possible d L" "\<forall>i. d \<noteq> CloseFd i" "snd ` set (entries L) \<subseteq> set (objects L)"
  shows "owns (affect d L)" "set (objects (affect d L)) = set (objects L) \<union> born_by d"
proof -
  note o = ownsD [OF assms(1)]
  show "set (objects (affect d L)) = set (objects L) \<union> born_by d"
    using assms(3) by (cases d) (auto simp: born_by_def)
  show "owns (affect d L)"
  proof (cases d)
    case (Born i f)
    then have new: "i \<notin> made L" "descr L f = None" using assms(2) by simp_all
    then have i: "i \<notin> set (objects L)" "i \<notin> fst ` set (closings L)" using o(9) by auto
    show ?thesis unfolding Born
    proof (rule ownsI)
      show "descr (affect (Born i f) L) (fd_no (affect (Born i f) L) j) = Some (Conn j)"
        if "j \<in> set (objects (affect (Born i f) L))" for j
        using that o(1) [of j] new by auto
      show "j \<in> set (objects (affect (Born i f) L)) \<and> fd_no (affect (Born i f) L) j = g"
        if "descr (affect (Born i f) L) g = Some (Conn j)" for g j
        using that o(2,3) [of g j] i by (auto split: if_splits)
      show "fd_no (affect (Born i f) L) j = g" if "(g, j) \<in> set (entries (affect (Born i f) L))" for g j
        using that o(4) [of g j] assms(4) i by force
    qed (use o(5-9) i in auto)
  next
    case (Register i)
    show ?thesis unfolding Register using o put_subset [of "fd_no L i" i "entries L"] by (intro ownsI) auto
  qed (use assms(1,3) in \<open>auto simp: owns_def\<close>)
qed

lemma references_affect:
  assumes "k < length ts" "ts ! k = (h, Work d # r)" "possible d L" "careful h (Work d # r)"
  shows "set_mset (references (ts[k := (hold d h, r)]) (affect d L)) \<subseteq> set_mset (references ts L) \<union> born_by d"
proof -
  note u = held_update(1) [OF assms(1,2)] held_update(2) [OF assms(1,2), of "hold d h" r]
  have m: "set_mset (references ts' L') = snd ` set (entries L') \<union> set_mset (posted L') \<union> set_mset (sum_list (map fst ts'))"
    for ts' :: "'a holder list" and L' by (simp add: references_def)
  have "set_mset (hold d h) \<subseteq> set_mset h \<union> snd ` set (entries L) \<union> set_mset (posted L) \<union> born_by d"
    using assms(3) by (cases d) (auto simp: born_by_def dest: in_diffD map_of_SomeD intro: rev_image_eqI)
  moreover have "snd ` set (entries (affect d L)) \<subseteq> snd ` set (entries L) \<union> set_mset h"
  proof (cases d)
    case (Register i)
    then show ?thesis using assms(4) put_subset [of "fd_no L i" i "entries L"] by auto
  qed (auto simp: close_fd_def)
  moreover have "set_mset (posted (affect d L)) \<subseteq> set_mset (posted L) \<union> set_mset h"
    using assms(4) by (cases d) (auto simp: close_fd_def dest: in_diffD)
  ultimately show ?thesis unfolding m using u by blast
qed

lemma sound_lock:
  assumes "k < length ts" "ts ! k = (h, x # r)" "x = Acquire m \<or> x = Release m" "sound ts L"
  shows "sound (ts[k := (h, r)]) L"
proof -
  have "careful h r \<and> tidy r"
    using assms nth_mem [of k ts] by (auto simp: sound_def tidy_def)
  moreover have "references (ts[k := (h, r)]) L = references ts L"
    using references_update(1) [OF assms(1,2), of h r L] references_update(2) [OF assms(1,2), of L] by simp
  ultimately show ?thesis
    using assms(4) set_update_subset_insert [of ts k "(h, r)"] by (auto simp: sound_def)
qed

lemma sound_step:
  assumes "life_step (ts, L) (us, M)" "sound ts L"
  shows "sound us M"
  using assms(1)
proof cases
  case (deed_step k h d r M')
  have th: "careful h (Work d # r)" "tidy (Work d # r)"
    using assms(2) deed_step(2,3) nth_mem [of k ts] by (auto simp: sound_def)
  have refs: "set (objects L) = set_mset (references ts L)" and own: "owns L"
    using assms(2) by (simp_all add: sound_def)
  have "snd ` set (entries L) \<subseteq> set (objects L)" unfolding refs by (auto simp: references_def)
  moreover have "\<forall>i. d \<noteq> CloseFd i" using th(2) by (auto simp: tidy_def)
  ultimately have o: "owns M'" "set (objects M') = set (objects L) \<union> born_by d"
    using owns_affect [OF own deed_step(4)] deed_step by auto
  have "set_mset (references us M') \<subseteq> set (objects M')"
    using references_affect [OF deed_step(2,3,4) th(1)] refs o(2) deed_step by simp
  from reap_owns [OF o(1) this] have reaped: "owns M" "set (objects M) = set_mset (references us M')"
    "entries M = entries M'" "posted M = posted M'" using deed_step(1) by simp_all
  have "careful (hold d h) r" using th(1) by (cases d) auto
  moreover have "tidy r" using th(2) by (simp add: tidy_def)
  ultimately have "\<forall>(h, r) \<in> set us. careful h r \<and> tidy r"
    using assms(2) set_update_subset_insert [of ts k "(hold d h, r)"] deed_step by (auto simp: sound_def)
  with reaped show ?thesis by (simp add: sound_def references_def)
next
  case (acquire_step k h m r)
  with assms(2) show ?thesis by (auto intro: sound_lock)
next
  case (release_step k h m r)
  with assms(2) show ?thesis by (auto intro: sound_lock)
next
  case (other_opens f)
  have own: "owns L" using assms(2) by (simp add: sound_def)
  then have "owns M" using ownsD [OF own] other_opens
    by (intro ownsI) (auto split: if_splits)
  with other_opens assms(2) show ?thesis by (simp add: sound_def references_def)
next
  case (other_closes f)
  have own: "owns L" using assms(2) by (simp add: sound_def)
  then have "owns M" using ownsD [OF own] other_closes
    by (intro ownsI) (auto split: if_splits)
  with other_closes assms(2) show ?thesis by (simp add: sound_def references_def)
qed

section \<open>The interface\<close>

definition safe_deed :: "deed \<Rightarrow> life \<Rightarrow> bool" where
  "safe_deed d L \<longleftrightarrow>
     (case touches d of None \<Rightarrow> True
      | Some i \<Rightarrow> i \<in> set (objects L) \<and> descr L (fd_no L i) = Some (Conn i)) \<and>
     (case d of FindFd i j \<Rightarrow> j = i | _ \<Rightarrow> True)"

definition tidied :: "'m holder list \<Rightarrow> life \<Rightarrow> bool" where
  "tidied ts L \<longleftrightarrow> (\<forall>i \<in> made L.
     if i \<in># references ts L then i \<in> set (objects L) \<and> i \<notin> fst ` set (closings L)
     else i \<notin> set (objects L) \<and> filter (\<lambda>c. fst c = i) (closings L) = [(i, Some (Conn i))])"

lemma sound_safe:
  assumes "sound ts L" "k < length ts" "ts ! k = (h, Work d # r)" "possible d L"
  shows "safe_deed d L"
proof -
  have th: "careful h (Work d # r)" "tidy (Work d # r)"
    using assms(1-3) nth_mem [of k ts] by (auto simp: sound_def)
  have own: "owns L" and refs: "set (objects L) = set_mset (references ts L)"
    using assms(1) by (simp_all add: sound_def)
  note o = ownsD [OF own]
  have held: "i \<in> set (objects L)" if "i \<in># h" for i
    using that mset_subset_eqD [OF references_update(2) [OF assms(2,3)]] refs by blast
  have listed: "i \<in> set (objects L)" if "(f, i) \<in> set (entries L)" for f i
    using that unfolding refs by (force simp: references_def)
  have "i \<in> set (objects L)" if "touches d = Some i" for i
    using that th assms(4) held listed by (cases d) (auto simp: tidy_def)
  moreover have "j = i" if "d = FindFd i j" for i j
  proof -
    have e: "(fd_no L i, j) \<in> set (entries L)" using assms(4) that by (auto dest: map_of_SomeD)
    have "i \<in> set (objects L)" using that th(1) held by auto
    with o(1) [of i] o(1) [OF listed [OF e]] o(4) [OF e] show "j = i" by simp
  qed
  ultimately show ?thesis
    using o(1) by (auto simp: safe_deed_def split: option.split deed.split)
qed

lemma sound_tidied: assumes "sound ts L" shows "tidied ts L"
  unfolding tidied_def
proof
  fix i assume i: "i \<in> made L"
  have own: "owns L" and refs: "set (objects L) = set_mset (references ts L)"
    using assms by (simp_all add: sound_def)
  note o = ownsD [OF own]
  have once: "filter (\<lambda>c. fst c = i) cs = [(i, x)]" if "distinct (map fst cs)" "(i, x) \<in> set cs"
    for cs :: "(nat \<times> owner option) list" and x
    using that by (induction cs) (auto simp: filter_empty_conv image_iff)
  show "if i \<in># references ts L then i \<in> set (objects L) \<and> i \<notin> fst ` set (closings L)
     else i \<notin> set (objects L) \<and> filter (\<lambda>c. fst c = i) (closings L) = [(i, Some (Conn i))]"
  proof (cases "i \<in># references ts L")
    case True
    with refs o(8) show ?thesis by auto
  next
    case False
    with refs o(9) i obtain x where "(i, x) \<in> set (closings L)" by auto
    with o(6,7) once False refs show ?thesis by auto
  qed
qed

locale careful_code =
  fixes code :: "('m, deed) lock_code set"
  assumes code_borrows: "c \<in> code \<Longrightarrow> borrows {} c"
begin

lemma sound_start:
  assumes "list_all (\<lambda>s. tidy s \<and> (\<exists>c \<in> code. trace c s)) ss"
  shows "sound (fst (start_life ss)) (snd (start_life ss))"
proof -
  have "careful {#} s" if "c \<in> code" "trace c s" for c s
  proof -
    have "leads c {#} {#}" using code_borrows [OF that(1)] by (simp add: borrows_def)
    then have "careful {#} (s @ [])" using that(2) unfolding leads_def by (metis careful.simps(1))
    then show ?thesis by simp
  qed
  with assms show ?thesis
    by (auto simp: sound_def start_life_def no_life_def owns_def references_def list_all_iff comp_def)
qed

lemma sound_run:
  assumes "list_all (\<lambda>s. tidy s \<and> (\<exists>c \<in> code. trace c s)) ss" "life_run (start_life ss) (ts, L)"
  shows "sound ts L"
proof -
  have "sound (fst c) (snd c)" if "life_run b c" "sound (fst b) (snd b)" for b c
    using that unfolding life_run_def
    by (induction rule: rtranclp_induct) (auto intro: sound_step)
  from this [OF assms(2) sound_start [OF assms(1)]] show ?thesis by simp
qed

lemma lives:
  assumes "list_all (\<lambda>s. tidy s \<and> (\<exists>c \<in> code. trace c s)) ss" "life_run (start_life ss) (ts, L)"
  shows "(\<forall>k h d r. k < length ts \<longrightarrow> ts ! k = (h, Work d # r) \<longrightarrow> possible d L \<longrightarrow> safe_deed d L) \<and> tidied ts L"
  using sound_safe [OF sound_run [OF assms]] sound_tidied [OF sound_run [OF assms]] by blast

end

end
