(* ===== verification/ServerLocks.thy ===== *)
theory ServerLocks
  imports Lifetime
begin

text \<open>
  The server as its threads see what they share: which operation acquires which mutex, in which
  nesting, where it makes, copies and drops references to session objects, and where it hands a
  message to a socket, which may block for seconds. Conditions are left open (\<open>alts\<close>), loops are
  iterations over any sessions, so the traces contain those of every execution. The order is
  \<open>login_mutex_\<close>, then \<open>sessions_mutex_\<close>, then the rest; with it no thread can be deadlocked. What
  becomes of the references is the subject of \<open>ServerLifetime\<close>.
\<close>

section \<open>Mutexes and their order\<close>

datatype mutex =
    LoginMutex
  | OnlineMutex
  | RateLimitMutex
  | DbMutex
  | SessionsMutex
  | SendMutex nat
  | UsernameMutex nat
  | PendingMutex nat
  | PoolMutex

fun rank_of :: "mutex \<Rightarrow> nat" where
  "rank_of LoginMutex = 0"
| "rank_of SessionsMutex = 1"
| "rank_of _ = 2"

text \<open>The blocking call is \<open>SendTo\<close>: a message handed to the socket of a session.\<close>

type_synonym locks = "(mutex, deed) lock_code"

abbreviation brief :: "mutex \<Rightarrow> locks" where
  "brief m \<equiv> Under m Skip"

section \<open>Sessions, server and database\<close>

definition name_locks :: "nat \<Rightarrow> locks" where
  "name_locks i = Under (UsernameMutex i) (Do (Access i))"

definition pending_locks :: "nat \<Rightarrow> locks" where
  "pending_locks i = Under (PendingMutex i) (Do (Access i))"

text \<open>\<open>Protocol::send_error\<close> and \<open>send_ok\<close> of the handlers take no mutex.\<close>

definition reply_locks :: "nat \<Rightarrow> locks" where
  "reply_locks i = Do (SendTo i)"

definition safe_send_locks :: "nat \<Rightarrow> locks" where
  "safe_send_locks i = Under (SendMutex i) (Do (SendTo i))"

text \<open>
  \<open>broadcast\<close> and \<open>find_session\<close> iterate over the table; an entry is asked for its name once or
  twice. \<open>broadcast\<close> copies the references of its targets, sends to each, and drops them with its
  vector. \<open>find_session\<close> returns a copy, if it finds one.
\<close>

definition visit_locks :: "nat \<Rightarrow> locks" where
  "visit_locks i = Seq (Under (UsernameMutex i) (Do (Visit i))) (Alt Skip (Under (UsernameMutex i) (Do (Visit i))))"

definition broadcast_locks :: locks where
  "broadcast_locks = Some_list (\<lambda>targets. seqs
     [Under SessionsMutex
        (Seq (seqs (map (\<lambda>i. seqs [Many (Any visit_locks), visit_locks i, Do (Find i)]) targets))
          (Many (Any visit_locks))),
      seqs (map safe_send_locks targets),
      seqs (map (\<lambda>i. Do (LetGo i)) targets)])"

text \<open>\<open>send_to_fd\<close>, called with the number of the descriptor of the session \<open>i\<close>.\<close>

definition send_to_fd_locks :: "nat \<Rightarrow> locks" where
  "send_to_fd_locks i = Alt (brief SessionsMutex)
     (Any (\<lambda>j. scoped (Under SessionsMutex (Do (FindFd i j))) j (safe_send_locks j)))"

definition find_session_locks :: "nat option \<Rightarrow> locks" where
  "find_session_locks found = Under SessionsMutex
     (Seq (Many (Any visit_locks)) (case found of None \<Rightarrow> Skip | Some j \<Rightarrow> Seq (visit_locks j) (Do (Find j))))"

definition database_locks :: locks where
  "database_locks = brief DbMutex"

section \<open>The router\<close>

definition push_history_locks :: "nat \<Rightarrow> locks" where
  "push_history_locks i = seqs [Do (Access i), database_locks, alts [Skip, send_to_fd_locks i]]"

definition user_list_locks :: locks where
  "user_list_locks = alts [Skip, seqs [brief OnlineMutex, broadcast_locks]]"

definition finish_login_locks :: "nat \<Rightarrow> locks" where
  "finish_login_locks i = seqs
     [name_locks i, brief OnlineMutex, reply_locks i, push_history_locks i, user_list_locks,
      alts [Skip, broadcast_locks]]"

definition handle_register_locks :: "nat \<Rightarrow> locks" where
  "handle_register_locks i = alts
     [Skip, reply_locks i,
      Under LoginMutex (reply_locks i),
      seqs [brief LoginMutex, pending_locks i,
        alts
          [Skip,
           seqs [database_locks, brief LoginMutex, pending_locks i, reply_locks i],
           seqs [database_locks, finish_login_locks i, pending_locks i, brief LoginMutex]]]]"

text \<open>The address of the session is read before the rate limiter is asked.\<close>

definition handle_login_locks :: "nat \<Rightarrow> locks" where
  "handle_login_locks i = alts
     [Skip, reply_locks i,
      seqs [Do (Access i), alts [Skip, brief RateLimitMutex],
        alts
          [reply_locks i,
           Under LoginMutex (reply_locks i),
           Under LoginMutex (seqs [Any (\<lambda>j. scoped (find_session_locks (Some j)) j Skip), reply_locks i]),
           seqs [Under LoginMutex (alts [Skip, find_session_locks None]), pending_locks i, database_locks,
             alts
               [seqs [Do (Access i), alts [Skip, brief RateLimitMutex], brief LoginMutex, pending_locks i,
                  reply_locks i],
                seqs [Do (Access i), alts [Skip, brief RateLimitMutex], finish_login_locks i, pending_locks i,
                  brief LoginMutex]]]]]]"

definition handle_logout_locks :: "nat \<Rightarrow> locks" where
  "handle_logout_locks i = seqs [name_locks i,
     alts [Skip, seqs [name_locks i, brief OnlineMutex, name_locks i, user_list_locks,
       alts [Skip, broadcast_locks]]]]"

definition handle_broadcast_locks :: "nat \<Rightarrow> locks" where
  "handle_broadcast_locks i = alts
     [Skip, reply_locks i, seqs [name_locks i, database_locks, alts [Skip, broadcast_locks]]]"

text \<open>The variable \<open>target_session\<close> holds the addressee from the search to the end of the handler.\<close>

definition handle_private_locks :: "nat \<Rightarrow> locks" where
  "handle_private_locks i = alts
     [Skip, reply_locks i,
      seqs [alts [Skip, find_session_locks None], reply_locks i],
      Any (\<lambda>j. scoped (find_session_locks (Some j)) j
        (seqs [name_locks i, database_locks,
          alts [Skip, seqs [Do (Access j), send_to_fd_locks j, Do (Access i), send_to_fd_locks i]]]))]"

definition handle_history_req_locks :: "nat \<Rightarrow> locks" where
  "handle_history_req_locks i = alts
     [Skip, seqs [name_locks i, database_locks, alts [Skip, seqs [Do (Access i), send_to_fd_locks i]]]]"

definition route_locks :: "nat \<Rightarrow> locks" where
  "route_locks i = alts
     [Skip,
      seqs [name_locks i,
        alts [Skip, reply_locks i, handle_register_locks i, handle_login_locks i, handle_broadcast_locks i,
          handle_private_locks i, handle_history_req_locks i, handle_logout_locks i]]]"

section \<open>The threads\<close>

text \<open>
  A worker takes a task with its reference from the queue, reads the generation, and runs the task
  if it is right; the reference ends with the task.
\<close>

definition worker_locks :: locks where
  "worker_locks = Many (Alt (brief PoolMutex)
     (Any (\<lambda>i. scoped (Under PoolMutex (Do (TakeTask i))) i
       (seqs [Do (Access i), alts [Skip, route_locks i]]))))"

definition disconnect_locks :: "nat \<Rightarrow> locks" where
  "disconnect_locks i = seqs
     [pending_locks i, alts [Skip, seqs [alts [Skip, brief LoginMutex], pending_locks i]], handle_logout_locks i]"

text \<open>The last access is the \<open>shutdown\<close> of the session's descriptor by its number.\<close>

definition remove_client_locks :: locks where
  "remove_client_locks = Alt (brief SessionsMutex)
     (Any (\<lambda>i. scoped (Under SessionsMutex (Seq (Do (Unlink i)) (Do (Access i)))) i
       (seqs [alts [Skip, disconnect_locks i], name_locks i, alts [Skip, name_locks i], Do (Access i)])))"

definition client_event_locks :: locks where
  "client_event_locks = Alt (brief SessionsMutex)
     (Any (\<lambda>i. scoped (Under SessionsMutex (Do (Find i))) i
       (seqs [Do (Access i),
         alts [remove_client_locks,
           Many (seqs [name_locks i,
             alts [Skip, seqs [Do (Access i), Under PoolMutex (Alt Skip (Do (PostTask i)))]]])]])))"

text \<open>
  A new connection gets its object and, if \<open>epoll_ctl\<close> accepts it, its place in the table;
  otherwise its descriptor is closed and the object goes.
\<close>

definition new_connection_locks :: locks where
  "new_connection_locks = Many (Any (\<lambda>i. Any (\<lambda>f. Seq (Do (Born i f)) (Seq (Do (Access i))
     (Alt (Seq (Do (CloseFd i)) (Do (LetGo i))) (Under SessionsMutex (Do (Register i))))))))"

definition event_loop_locks :: locks where
  "event_loop_locks = Many (alts [broadcast_locks, new_connection_locks, client_event_locks])"

text \<open>The main thread: the loop, then \<open>~EpollServer\<close>.\<close>

definition main_thread_locks :: locks where
  "main_thread_locks = Seq event_loop_locks (Under SessionsMutex (Do ClearTable))"

lemmas lock_defs = name_locks_def pending_locks_def reply_locks_def safe_send_locks_def visit_locks_def broadcast_locks_def
  send_to_fd_locks_def find_session_locks_def database_locks_def push_history_locks_def user_list_locks_def
  finish_login_locks_def

lemma helpers_fit:
  "fits rank_of (name_locks i) 2" "fits rank_of (safe_send_locks i) 2" "fits rank_of database_locks 2"
  "fits rank_of (pending_locks i) 2"
  "n \<le> 1 \<Longrightarrow> fits rank_of broadcast_locks n" "n \<le> 1 \<Longrightarrow> fits rank_of (find_session_locks r) n"
  "n \<le> 1 \<Longrightarrow> fits rank_of (send_to_fd_locks i) n" "n \<le> 1 \<Longrightarrow> fits rank_of user_list_locks n"
  "n \<le> 1 \<Longrightarrow> fits rank_of (finish_login_locks i) n"
  by (auto simp: lock_defs split: option.split)

lemma handlers_fit:
  "fits rank_of (handle_register_locks i) 0" "fits rank_of (handle_login_locks i) 0"
  "fits rank_of (handle_logout_locks i) 0" "fits rank_of (handle_broadcast_locks i) 0"
  "fits rank_of (handle_private_locks i) 0" "fits rank_of (handle_history_req_locks i) 0"
  by (simp_all add: handle_register_locks_def handle_login_locks_def handle_logout_locks_def
      handle_broadcast_locks_def handle_private_locks_def handle_history_req_locks_def lock_defs)

interpretation server_locks: lock_order rank_of "{event_loop_locks, worker_locks}"
proof
  fix c
  assume "c \<in> {event_loop_locks, worker_locks}"
  moreover have "fits rank_of worker_locks 0"
    by (simp add: worker_locks_def route_locks_def handlers_fit) (simp add: lock_defs)
  moreover have "fits rank_of event_loop_locks 0"
    by (simp add: event_loop_locks_def new_connection_locks_def client_event_locks_def remove_client_locks_def
        disconnect_locks_def handlers_fit helpers_fit) (simp add: lock_defs)
  ultimately show "fits rank_of c 0" by auto
qed

section \<open>Properties\<close>

text \<open>
  C17. No deadlock: let the event loop thread and any number of workers run any number of their
  iterations, each with any outcome of its conditions. At every moment no two threads hold the
  same mutex, and unless all of them have ended with nothing held, some thread can go on.
\<close>

theorem server_never_deadlocks:
  assumes "trace event_loop_locks l" "\<forall>t \<in> set ws. trace worker_locks t"
    and "lock_run (begin_threads (l # ws)) ts"
  shows "exclusive_locks ts \<and> ((\<exists>us. lock_step ts us) \<or> (\<forall>t \<in> set ts. t = ([], [])))"
  by (rule server_locks.never_deadlocks [OF _ assms(3)]) (use assms(1,2) in \<open>auto simp: list_all_iff\<close>)

text \<open>
  A worker that takes a REGISTER of session 0 and finds the name reserved; the event loop that finds
  session 1, in the middle of a login, disconnected.
\<close>

definition locked :: "mutex \<Rightarrow> deed \<Rightarrow> (mutex, deed) lock_op list" where
  "locked m d = [Acquire m, Work d, Release m]"

definition refused_register :: "(mutex, deed) lock_op list" where
  "refused_register = locked PoolMutex (TakeTask 0) @ [Work (Access 0)] @
     locked (UsernameMutex 0) (Access 0) @ locked LoginMutex (SendTo 0) @ [Work (LetGo 0)]"

definition disconnect_mid_login :: "(mutex, deed) lock_op list" where
  "disconnect_mid_login = locked SessionsMutex (Find 1) @ [Work (Access 1)] @
     [Acquire SessionsMutex, Work (Unlink 1), Work (Access 1), Release SessionsMutex] @
     locked (PendingMutex 1) (Access 1) @ [Acquire LoginMutex, Release LoginMutex] @
     locked (PendingMutex 1) (Access 1) @ locked (UsernameMutex 1) (Access 1) @
     locked (UsernameMutex 1) (Access 1) @ [Work (Access 1)] @ [Work (LetGo 1)] @ [Work (LetGo 1)]"

lemma trace_locked: "trace (Under m (Do d)) (locked m d)"
  unfolding locked_def by (rule trace_under_do)

lemma refused_register_trace: "trace worker_locks refused_register"
proof -
  let ?u = "locked (UsernameMutex 0) (Access 0)"
  let ?r = "locked LoginMutex (SendTo 0)"
  have "trace (handle_register_locks 0) ?r"
    unfolding handle_register_locks_def reply_locks_def by (rule trace_alts [OF _ trace_locked]) simp
  then have "trace (seqs [name_locks 0, alts [Skip, reply_locks 0, handle_register_locks 0, handle_login_locks 0,
      handle_broadcast_locks 0, handle_private_locks 0, handle_history_req_locks 0, handle_logout_locks 0]])
      (concat [?u, ?r])"
    using trace_locked
    by (intro trace_seqs) (auto simp: name_locks_def simp del: alts.simps intro: trace_alts [of "handle_register_locks 0"])
  then have "trace (route_locks 0) (?u @ ?r)"
    unfolding route_locks_def by (intro trace_alts) auto
  then have "trace (seqs [Do (Access 0), alts [Skip, route_locks 0]]) (concat [[Work (Access 0)], ?u @ ?r])"
    by (intro trace_seqs) (auto simp del: alts.simps intro: trace_alts tr_do)
  from trace_scoped [OF trace_locked this] have "trace (Any (\<lambda>i. scoped (Under PoolMutex (Do (TakeTask i))) i
       (seqs [Do (Access i), alts [Skip, route_locks i]]))) refused_register"
    by (intro tr_any [of _ 0]) (simp add: refused_register_def)
  from trace_once [OF tr_right [OF this]] show ?thesis by (simp only: worker_locks_def)
qed

lemma disconnect_mid_login_trace: "trace event_loop_locks disconnect_mid_login"
proof -
  let ?p = "locked (PendingMutex 1) (Access 1)"
  let ?l = "[Acquire LoginMutex, Release LoginMutex] :: (mutex, deed) lock_op list"
  let ?u = "locked (UsernameMutex 1) (Access 1)"
  let ?g = "[Acquire SessionsMutex, Work (Unlink 1), Work (Access 1), Release SessionsMutex] :: (mutex, deed) lock_op list"
  have "trace (handle_logout_locks 1) (concat [?u, []])"
    unfolding handle_logout_locks_def name_locks_def
    by (intro trace_seqs) (auto simp del: alts.simps intro: trace_locked trace_alts [OF _ tr_skip])
  moreover have "trace (seqs [alts [Skip, brief LoginMutex], pending_locks 1]) (concat [?l, ?p])"
    unfolding pending_locks_def
    by (intro trace_seqs) (auto simp del: alts.simps intro: trace_locked trace_alts [OF _ trace_brief])
  ultimately have d: "trace (disconnect_locks 1) (concat [?p, ?l @ ?p, ?u])"
    unfolding disconnect_locks_def
    by (intro trace_seqs) (auto simp: pending_locks_def simp del: alts.simps intro: trace_locked trace_alts)
  have "trace (Under SessionsMutex (Seq (Do (Unlink 1)) (Do (Access 1)))) ?g"
    using tr_under [OF tr_seq [OF tr_do tr_do], of SessionsMutex "Unlink 1" "Access 1"] by simp
  moreover have "trace (seqs [alts [Skip, disconnect_locks 1], name_locks 1, alts [Skip, name_locks 1], Do (Access 1)])
      (concat [?p @ ?l @ ?p @ ?u, ?u, [], [Work (Access 1)]])"
    using d by (intro trace_seqs) (auto simp: name_locks_def simp del: alts.simps intro: trace_locked tr_do trace_alts
        trace_alts [OF _ tr_skip])
  ultimately have "trace remove_client_locks (?g @ (?p @ ?l @ ?p @ ?u @ ?u @ [Work (Access 1)]) @ [Work (LetGo 1)])"
    unfolding remove_client_locks_def by (intro tr_right tr_any [of _ 1] trace_scoped) simp_all
  then have "trace (seqs [Do (Access 1), alts [remove_client_locks,
        Many (seqs [name_locks 1, alts [Skip, seqs [Do (Access 1), Under PoolMutex (Alt Skip (Do (PostTask 1)))]]])]])
      (concat [[Work (Access 1)], ?g @ (?p @ ?l @ ?p @ ?u @ ?u @ [Work (Access 1)]) @ [Work (LetGo 1)]])"
    by (intro trace_seqs) (auto simp del: alts.simps seqs.simps intro: tr_do trace_alts)
  from trace_scoped [OF trace_locked [of SessionsMutex "Find 1"] this, of 1]
  have "trace client_event_locks disconnect_mid_login"
    unfolding client_event_locks_def disconnect_mid_login_def
    by (intro tr_right tr_any [of _ 1]) (simp only: append_assoc concat.simps append_Nil2)
  then have "trace (alts [broadcast_locks, new_connection_locks, client_event_locks]) disconnect_mid_login"
    by (intro trace_alts [of client_event_locks]) simp_all
  from trace_once [OF this] show ?thesis by (simp add: event_loop_locks_def)
qed

theorem server_never_deadlocks_witness:
  "\<exists>ts. lock_run (begin_threads [disconnect_mid_login, refused_register]) ts \<and>
     fst (ts ! 1) = [LoginMutex] \<and> exclusive_locks ts"
proof -
  have "\<exists>ts. lock_exec [0, 0, 0, 0, 0, 0, 0, 0, 0, 0, 0, 1, 1, 1, 1, 1, 1, 1, 1] (begin_threads [disconnect_mid_login, refused_register]) = Some ts \<and>
      fst (ts ! 1) = [LoginMutex]"
    by (simp add: disconnect_mid_login_def refused_register_def locked_def begin_threads_def lock_next_def is_free_def)
  then obtain ts where ts: "lock_run (begin_threads [disconnect_mid_login, refused_register]) ts"
    "fst (ts ! 1) = [LoginMutex]"
    using lock_exec_run by blast
  with server_never_deadlocks [OF disconnect_mid_login_trace _ ts(1)] refused_register_trace show ?thesis
    by auto
qed

text \<open>
  A client that does not read can hold up the whole server: the reply to a login or registration
  whose name is reserved is sent with \<open>login_mutex_\<close> held, and the event loop acquires that mutex
  when a client disconnects in the middle of a login. In the state reached here the event loop
  waits, and the only step anyone can take is the return of the worker's \<open>send\<close>.
\<close>

theorem event_loop_waits_for_client:
  "\<exists>ts. lock_run (begin_threads [disconnect_mid_login, refused_register]) ts \<and>
     hd (snd (ts ! 0)) = Acquire LoginMutex \<and> hd (snd (ts ! 1)) = Work (SendTo 0) \<and>
     (\<forall>us. lock_step ts us \<longrightarrow> us ! 0 = ts ! 0 \<and> snd (us ! 1) = [Release LoginMutex, Work (LetGo 0)])"
proof -
  let ?l = "[Acquire LoginMutex, Release LoginMutex] @ locked (PendingMutex 1) (Access 1) @
     locked (UsernameMutex 1) (Access 1) @ locked (UsernameMutex 1) (Access 1) @
     [Work (Access 1), Work (LetGo 1), Work (LetGo 1)]"
  let ?ts = "[([], ?l), ([LoginMutex], [Work (SendTo 0), Release LoginMutex, Work (LetGo 0)])]"
  have "lock_exec [0, 0, 0, 0, 0, 0, 0, 0, 0, 0, 0, 1, 1, 1, 1, 1, 1, 1, 1] (begin_threads [disconnect_mid_login, refused_register]) = Some ?ts"
    by (simp add: disconnect_mid_login_def refused_register_def locked_def begin_threads_def lock_next_def is_free_def)
  then have "lock_run (begin_threads [disconnect_mid_login, refused_register]) ?ts" by (rule lock_exec_run)
  moreover have "us ! 0 = ?ts ! 0 \<and> snd (us ! 1) = [Release LoginMutex, Work (LetGo 0)]" if "lock_step ?ts us" for us
  proof -
    from that obtain k where "lock_next k ?ts = Some us" by (auto simp: lock_next_iff)
    moreover from this have "k = 0 \<or> k = 1" by (cases k) (auto simp: lock_next_def split: if_splits)
    ultimately show ?thesis by (auto simp: lock_next_def is_free_def)
  qed
  ultimately show ?thesis by (intro exI [of _ ?ts]) simp
qed

end
