(* ===== verification/ServerLifetime.thy ===== *)
theory ServerLifetime
  imports ServerLocks
begin

text \<open>
  The lives of the session objects under the server's threads: every operation of \<open>ServerLocks\<close> works
  only on sessions it holds a reference to, whence no thread ever touches a destroyed object or
  another connection's descriptor.
\<close>

section \<open>The operations are careful\<close>

lemma borrows_visits [borrowing]: "borrows S (visit_locks i)" "borrows S (Many (Any visit_locks))"
  by (auto simp: visit_locks_def intro!: borrowing)

lemma borrows_name [borrowing]:
  "i \<in> S \<Longrightarrow> borrows S (name_locks i)" "i \<in> S \<Longrightarrow> borrows S (pending_locks i)"
  "i \<in> S \<Longrightarrow> borrows S (reply_locks i)" "i \<in> S \<Longrightarrow> borrows S (safe_send_locks i)"
  "borrows S database_locks"
  by (auto simp: name_locks_def pending_locks_def reply_locks_def safe_send_locks_def database_locks_def
      intro!: borrowing)

lemma borrows_broadcast [borrowing]: "borrows S broadcast_locks"
  unfolding broadcast_locks_def
proof (rule borrows_list, unfold borrows_def, intro allI impI)
  fix "is" :: "nat list" and h
  assume "S \<subseteq> set_mset h"
  have none: "leads (Many (Any visit_locks)) g g" "leads (visit_locks i) g g" for i g
    using borrows_visits [of "{}"] by (auto simp: borrows_def)
  have "leads (Seq (Many (Any visit_locks)) (Seq (visit_locks i) (Seq (Do (Find i)) Skip))) g (add_mset i g)" for i g
    by (rule leads_Seq [OF none(1) leads_Seq [OF none(2) leads_Seq [OF leads_Do leads_Skip]]]) simp
  from leads_collect [OF this] have collect: "leads (Under SessionsMutex
      (Seq (seqs (map (\<lambda>i. seqs [Many (Any visit_locks), visit_locks i, Do (Find i)]) is)) (Many (Any visit_locks))))
      h (mset is + h)"
    by (intro leads_Under leads_Seq [OF _ none(1)]) simp
  have "borrows (set is) (seqs (map safe_send_locks is))" by (auto intro!: borrowing)
  then have sends: "leads (seqs (map safe_send_locks is)) (mset is + h) (mset is + h)"
    by (simp add: borrows_def)
  show "leads (seqs [Under SessionsMutex
      (Seq (seqs (map (\<lambda>i. seqs [Many (Any visit_locks), visit_locks i, Do (Find i)]) is)) (Many (Any visit_locks))),
      seqs (map safe_send_locks is), seqs (map (\<lambda>i. Do (LetGo i)) is)]) h h"
    using leads_Seq [OF collect leads_Seq [OF sends leads_Seq [OF leads_drop leads_Skip]]] by simp
qed

lemma gets_session [borrowing]: "gets S (find_session_locks (Some j)) j"
  unfolding find_session_locks_def option.case
  by (intro gets_Under gets_after borrows_visits gets_deed)

lemma borrows_search [borrowing]: "borrows S (find_session_locks None)"
  by (auto simp: find_session_locks_def intro!: borrowing)

lemma borrows_send_to_fd [borrowing]: "i \<in> S \<Longrightarrow> borrows S (send_to_fd_locks i)"
  by (auto simp: send_to_fd_locks_def intro!: borrowing)

lemma borrows_router [borrowing]:
  "i \<in> S \<Longrightarrow> borrows S (push_history_locks i)" "borrows S user_list_locks"
  by (auto simp: push_history_locks_def user_list_locks_def simp del: seqs.simps alts.simps intro!: borrowing)

lemma borrows_finish_login [borrowing]: "i \<in> S \<Longrightarrow> borrows S (finish_login_locks i)"
  by (auto simp: finish_login_locks_def simp del: seqs.simps alts.simps intro!: borrowing)

lemma borrows_handlers [borrowing]:
  assumes "i \<in> S"
  shows "borrows S (handle_register_locks i)" "borrows S (handle_login_locks i)"
    "borrows S (handle_logout_locks i)" "borrows S (handle_broadcast_locks i)"
    "borrows S (handle_private_locks i)" "borrows S (handle_history_req_locks i)"
  using assms
  by (auto simp: handle_register_locks_def handle_login_locks_def handle_logout_locks_def
      handle_broadcast_locks_def handle_private_locks_def handle_history_req_locks_def
      simp del: seqs.simps alts.simps intro!: borrowing)

lemma borrows_worker: "borrows {} worker_locks"
  by (auto simp: worker_locks_def route_locks_def simp del: seqs.simps alts.simps intro!: borrowing)

lemma borrows_remove [borrowing]: "borrows S remove_client_locks"
  by (auto simp: remove_client_locks_def disconnect_locks_def simp del: seqs.simps alts.simps intro!: borrowing)

lemma borrows_event [borrowing]: "borrows S client_event_locks"
  by (auto simp: client_event_locks_def simp del: seqs.simps alts.simps intro!: borrowing)

lemma borrows_connection [borrowing]: "borrows S new_connection_locks"
  unfolding new_connection_locks_def
proof (intro borrows_Many borrows_Any borrows_end gets_deed(5))
  fix i f h
  have "leads (Do (Access i)) (add_mset i h) (add_mset i h)" "leads (Do (CloseFd i)) (add_mset i h) (add_mset i h)"
    by (rule leads_Do; simp)+
  from leads_Seq [OF this(1) leads_Alt [OF leads_Seq [OF this(2) leads_LetGo(1)] leads_Under [OF leads_LetGo(2)]]]
  show "leads (Seq (Do (Access i)) (Alt (Seq (Do (CloseFd i)) (Do (LetGo i)))
      (Under SessionsMutex (Do (Register i))))) (add_mset i h) h" .
qed (rule gets_deed(5))

interpretation server_lives: careful_code "{main_thread_locks, worker_locks}"
proof
  fix c
  assume "c \<in> {main_thread_locks, worker_locks}"
  moreover have "borrows {} main_thread_locks"
    unfolding main_thread_locks_def event_loop_locks_def
    by (auto simp del: alts.simps intro!: borrowing)
  ultimately show "borrows {} c" using borrows_worker by auto
qed

section \<open>Properties\<close>

text \<open>
  C8. Sessions outlive their use: let the main thread and any number of workers run any number of
  their iterations, each with any outcome of its conditions, while the kernel gives numbers of closed
  descriptors to new connections and to other files; suppose only that \<open>epoll_ctl\<close> accepts every new
  connection. Whenever a thread is about to work on a session, that object has not been destroyed
  and its descriptor is open and its own connection's, so that no message goes to another; a lookup by
  the number of a session's descriptor finds no other session. Every session that nobody refers to any
  more has been destroyed and its own connection closed exactly once, and no other.
\<close>

theorem sessions_outlive_use:
  assumes "trace main_thread_locks l" "\<forall>t \<in> set ws. trace worker_locks t" "\<forall>t \<in> set (l # ws). tidy t"
    and "life_run (start_life (l # ws)) (ts, L)"
  shows "(\<forall>k h d r. k < length ts \<longrightarrow> ts ! k = (h, Work d # r) \<longrightarrow> possible d L \<longrightarrow> safe_deed d L) \<and>
    tidied ts L"
  by (rule server_lives.lives [OF _ assms(4)]) (use assms(1-3) in \<open>auto simp: list_all_iff\<close>)

text \<open>
  A client connects, sends a message and is removed while a worker still handles the message; the
  worker is about to reply.
\<close>

definition connect_story :: "(mutex, deed) lock_op list" where
  "connect_story = [Work (Born 0 5)] @ [Work (Access 0)] @ locked SessionsMutex (Register 0)"

definition message_story :: "(mutex, deed) lock_op list" where
  "message_story = locked SessionsMutex (Find 0) @
     ([Work (Access 0)] @ locked (UsernameMutex 0) (Access 0) @ [Work (Access 0)] @ locked PoolMutex (PostTask 0)) @
     [Work (LetGo 0)]"

definition removal_story :: "(mutex, deed) lock_op list" where
  "removal_story = locked SessionsMutex (Find 0) @
     ([Work (Access 0)] @ [Acquire SessionsMutex, Work (Unlink 0), Work (Access 0), Release SessionsMutex] @
      (locked (PendingMutex 0) (Access 0) @ locked (UsernameMutex 0) (Access 0) @
       locked (UsernameMutex 0) (Access 0) @ [Work (Access 0)]) @ [Work (LetGo 0)]) @
     [Work (LetGo 0)]"

definition main_story :: "(mutex, deed) lock_op list" where
  "main_story = (connect_story @ message_story @ removal_story) @ locked SessionsMutex ClearTable"

definition worker_story :: "(mutex, deed) lock_op list" where
  "worker_story = locked PoolMutex (TakeTask 0) @ [Work (Access 0)] @ locked (UsernameMutex 0) (Access 0) @
     [Work (SendTo 0)] @ [Work (LetGo 0)]"

lemma worker_story_trace: "trace worker_locks worker_story"
proof -
  have "trace (seqs [name_locks 0, alts [Skip, reply_locks 0, handle_register_locks 0, handle_login_locks 0,
      handle_broadcast_locks 0, handle_private_locks 0, handle_history_req_locks 0, handle_logout_locks 0]])
      (concat [locked (UsernameMutex 0) (Access 0), [Work (SendTo 0)]])"
    using trace_locked
    by (intro trace_seqs) (auto simp: name_locks_def reply_locks_def simp del: alts.simps intro: trace_alts tr_do)
  then have "trace (route_locks 0) (locked (UsernameMutex 0) (Access 0) @ [Work (SendTo 0)])"
    unfolding route_locks_def by (intro trace_alts) auto
  then have "trace (seqs [Do (Access 0), alts [Skip, route_locks 0]])
      (concat [[Work (Access 0)], locked (UsernameMutex 0) (Access 0) @ [Work (SendTo 0)]])"
    by (intro trace_seqs) (auto simp del: alts.simps intro: trace_alts tr_do)
  from trace_scoped [OF trace_locked this] have "trace (Any (\<lambda>i. scoped (Under PoolMutex (Do (TakeTask i))) i
       (seqs [Do (Access i), alts [Skip, route_locks i]]))) worker_story"
    by (intro tr_any [of _ 0]) (simp add: worker_story_def)
  from trace_once [OF tr_right [OF this]] show ?thesis by (simp only: worker_locks_def)
qed

lemma connect_story_trace: "trace new_connection_locks connect_story"
proof -
  have "trace (Alt (Seq (Do (CloseFd 0)) (Do (LetGo 0))) (Under SessionsMutex (Do (Register 0))))
      (locked SessionsMutex (Register 0))"
    by (rule tr_right [OF trace_locked])
  from tr_seq [OF tr_do tr_seq [OF tr_do this], of "Born 0 5" "Access 0"] show ?thesis
    unfolding new_connection_locks_def connect_story_def by (intro trace_once tr_any [of _ 0] tr_any [of _ 5])
qed

lemma message_story_trace: "trace client_event_locks message_story"
proof -
  have "trace (Under PoolMutex (Alt Skip (Do (PostTask 0)))) (locked PoolMutex (PostTask 0))"
    using tr_under [OF tr_right [where c = Skip, OF tr_do [of "PostTask 0"]], of PoolMutex] by (simp add: locked_def)
  then have "trace (seqs [Do (Access 0), Under PoolMutex (Alt Skip (Do (PostTask 0)))])
      (concat [[Work (Access 0)], locked PoolMutex (PostTask 0)])"
    by (intro trace_seqs) (auto intro: tr_do)
  then have "trace (seqs [name_locks 0, alts [Skip, seqs [Do (Access 0), Under PoolMutex (Alt Skip (Do (PostTask 0)))]]])
      (concat [locked (UsernameMutex 0) (Access 0), [Work (Access 0)] @ locked PoolMutex (PostTask 0)])"
    by (intro trace_seqs) (auto simp: name_locks_def simp del: alts.simps seqs.simps intro: trace_locked trace_alts)
  from trace_once [OF this] have "trace (seqs [Do (Access 0), alts [remove_client_locks,
        Many (seqs [name_locks 0, alts [Skip, seqs [Do (Access 0), Under PoolMutex (Alt Skip (Do (PostTask 0)))]]])]])
      (concat [[Work (Access 0)], locked (UsernameMutex 0) (Access 0) @ [Work (Access 0)] @ locked PoolMutex (PostTask 0)])"
    by (intro trace_seqs) (auto simp del: alts.simps seqs.simps intro: tr_do trace_alts)
  from trace_scoped [OF trace_locked [of SessionsMutex "Find 0"] this, of 0] show ?thesis
    unfolding client_event_locks_def message_story_def
    by (intro tr_right tr_any [of _ 0]) (simp only: append_assoc concat.simps append_Nil2)
qed

lemma removal_story_trace: "trace client_event_locks removal_story"
proof -
  let ?p = "locked (PendingMutex 0) (Access 0)" and ?u = "locked (UsernameMutex 0) (Access 0)"
  let ?g = "[Acquire SessionsMutex, Work (Unlink 0), Work (Access 0), Release SessionsMutex] :: (mutex, deed) lock_op list"
  have "trace (handle_logout_locks 0) (concat [?u, []])"
    unfolding handle_logout_locks_def name_locks_def
    by (intro trace_seqs) (auto simp del: alts.simps intro: trace_locked trace_alts [OF _ tr_skip])
  then have d: "trace (disconnect_locks 0) (concat [?p, [], ?u])"
    unfolding disconnect_locks_def pending_locks_def
    by (intro trace_seqs) (auto simp del: alts.simps intro: trace_locked trace_alts [OF _ tr_skip])
  have "trace (Under SessionsMutex (Seq (Do (Unlink 0)) (Do (Access 0)))) ?g"
    using tr_under [OF tr_seq [OF tr_do tr_do], of SessionsMutex "Unlink 0" "Access 0"] by simp
  moreover have "trace (seqs [alts [Skip, disconnect_locks 0], name_locks 0, alts [Skip, name_locks 0], Do (Access 0)])
      (concat [?p @ ?u, ?u, [], [Work (Access 0)]])"
    using d by (intro trace_seqs) (auto simp: name_locks_def simp del: alts.simps intro: trace_locked tr_do trace_alts
        trace_alts [OF _ tr_skip])
  ultimately have "trace remove_client_locks (?g @ (?p @ ?u @ ?u @ [Work (Access 0)]) @ [Work (LetGo 0)])"
    unfolding remove_client_locks_def by (intro tr_right tr_any [of _ 0] trace_scoped) simp_all
  then have "trace (seqs [Do (Access 0), alts [remove_client_locks,
        Many (seqs [name_locks 0, alts [Skip, seqs [Do (Access 0), Under PoolMutex (Alt Skip (Do (PostTask 0)))]]])]])
      (concat [[Work (Access 0)], ?g @ (?p @ ?u @ ?u @ [Work (Access 0)]) @ [Work (LetGo 0)]])"
    by (intro trace_seqs) (auto simp del: alts.simps seqs.simps intro: tr_do trace_alts)
  from trace_scoped [OF trace_locked [of SessionsMutex "Find 0"] this, of 0] show ?thesis
    unfolding client_event_locks_def removal_story_def
    by (intro tr_right tr_any [of _ 0]) (simp only: append_assoc concat.simps append_Nil2)
qed

lemma main_story_trace: "trace main_thread_locks main_story"
proof -
  have one: "trace (alts [broadcast_locks, new_connection_locks, client_event_locks]) s"
    if "trace new_connection_locks s \<or> trace client_event_locks s" for s
    using that by (auto simp del: alts.simps intro: trace_alts)
  have "trace event_loop_locks (connect_story @ message_story @ removal_story)"
    unfolding event_loop_locks_def
    using one connect_story_trace message_story_trace removal_story_trace by (blast intro: tr_more trace_once)
  then show ?thesis unfolding main_thread_locks_def main_story_def by (rule tr_seq) (rule trace_locked)
qed

lemmas story_defs = main_story_def connect_story_def message_story_def removal_story_def worker_story_def locked_def

theorem sessions_outlive_use_witness:
  "\<exists>ts L. life_run (start_life [main_story, worker_story]) (ts, L) \<and> entries L = [] \<and>
     hd (snd (ts ! 1)) = Work (SendTo 0) \<and> safe_deed (SendTo 0) L \<and> descr L 5 = Some (Conn 0)"
proof -
  have "case life_exec (replicate 40 0 @ replicate 7 1) (start_life [main_story, worker_story]) of
      Some c \<Rightarrow> (\<lambda>ts L. entries L = [] \<and> length ts = 2 \<and>
        ts ! 1 = ({#0#}, [Work (SendTo 0), Work (LetGo 0)]) \<and> fd_no L 0 = 5) (fst c) (snd c)
    | None \<Rightarrow> False"
    by code_simp
  from life_exec_reaches [OF this] obtain ts L where run: "life_run (start_life [main_story, worker_story]) (ts, L)"
    and c: "entries L = []" "length ts = 2" "ts ! 1 = ({#0#}, [Work (SendTo 0), Work (LetGo 0)])" "fd_no L 0 = 5"
    by blast
  have "\<forall>t \<in> set [main_story, worker_story]. tidy t"
    by (simp add: tidy_def story_defs)
  with sessions_outlive_use [OF main_story_trace _ _ run] worker_story_trace
  have "\<forall>k h d r. k < length ts \<longrightarrow> ts ! k = (h, Work d # r) \<longrightarrow> possible d L \<longrightarrow> safe_deed d L" by simp
  from this [rule_format, of 1] c have "safe_deed (SendTo 0) L" by simp
  with run c show ?thesis by (intro exI [of _ ts] exI [of _ L]) (simp add: safe_deed_def)
qed

text \<open>
  Without the assumption this fails: when \<open>epoll_ctl\<close> refuses a new connection, its descriptor is closed
  and then closed again by the destructor; a file that another thread opens in between gets the
  number, and is closed.
\<close>

definition refused_connection :: "(mutex, deed) lock_op list" where
  "refused_connection = ([Work (Born 0 5)] @ [Work (Access 0)] @ [Work (CloseFd 0)] @ [Work (LetGo 0)]) @
     locked SessionsMutex ClearTable"

theorem refused_connection_closes_other:
  "trace main_thread_locks refused_connection \<and>
   (\<exists>ts L. life_run (start_life [refused_connection]) (ts, L) \<and> closings L = [(0, Some (Conn 0)), (0, Some Other)])"
proof
  have "trace (Alt (Seq (Do (CloseFd 0)) (Do (LetGo 0))) (Under SessionsMutex (Do (Register 0))))
      ([Work (CloseFd 0)] @ [Work (LetGo 0)])"
    by (intro tr_left tr_seq tr_do)
  from tr_seq [OF tr_do tr_seq [OF tr_do this], of "Born 0 5" "Access 0"]
  have "trace new_connection_locks ([Work (Born 0 5)] @ [Work (Access 0)] @ [Work (CloseFd 0)] @ [Work (LetGo 0)])"
    unfolding new_connection_locks_def by (intro trace_once tr_any [of _ 0] tr_any [of _ 5])
  then have "trace event_loop_locks ([Work (Born 0 5)] @ [Work (Access 0)] @ [Work (CloseFd 0)] @ [Work (LetGo 0)])"
    unfolding event_loop_locks_def by (intro trace_once) (auto simp del: alts.simps intro: trace_alts)
  then show "trace main_thread_locks refused_connection"
    unfolding main_thread_locks_def refused_connection_def by (rule tr_seq) (rule trace_locked)
  let ?r = "Work (LetGo 0) # locked SessionsMutex ClearTable"
  let ?L = "no_life\<lparr>objects := [0], made := {0}, fd_no := (\<lambda>_. 0)(0 := 5),
    descr := (\<lambda>_. None)(5 := Some (Conn 0), 5 := None), closings := [(0, Some (Conn 0))]\<rparr>"
  let ?L' = "?L\<lparr>descr := (descr ?L)(5 := Some Other)\<rparr>"
  have "life_exec [0, 0, 0] (start_life [refused_connection]) = Some ([({#0#}, ?r)], ?L)"
    by (simp add: refused_connection_def start_life_def life_next_def Let_def references_def reap_def no_life_def
        close_fd_def)
  then have a: "life_run (start_life [refused_connection]) ([({#0#}, ?r)], ?L)" by (rule life_exec_run)
  have b: "life_step ([({#0#}, ?r)], ?L) ([({#0#}, ?r)], ?L')" by (rule other_opens) simp
  have "case life_exec [0] ([({#0#}, ?r)], ?L') of
      Some c \<Rightarrow> (\<lambda>ts L. closings L = [(0, Some (Conn 0)), (0, Some Other)]) (fst c) (snd c) | None \<Rightarrow> False"
    by (simp add: life_next_def Let_def references_def reap_def no_life_def destroy_def close_fd_def)
  from life_exec_reaches [OF this] obtain ts L where
    c: "life_run ([({#0#}, ?r)], ?L') (ts, L)" "closings L = [(0, Some (Conn 0)), (0, Some Other)]" by blast
  from a b c show "\<exists>ts L. life_run (start_life [refused_connection]) (ts, L) \<and>
      closings L = [(0, Some (Conn 0)), (0, Some Other)]"
    unfolding life_run_def by (meson rtranclp.rtrancl_into_rtrancl rtranclp_trans)
qed

end
