(* ===== verification/ListModels.thy ===== *)
theory ListModels
  imports QtBase
begin

text \<open>
  The three list models of the client: \<open>client/src/message_model.cpp\<close>, \<open>user_model.cpp\<close> and
  \<open>session_model.cpp\<close>. What a view relies on is the contract of \<open>QAbstractListModel\<close>: every
  change is announced, so that a view that only looks at the rows it is told about always shows
  the model's rows. The contract is the locale \<open>list_model\<close>; each model is shown to keep it.
\<close>

section \<open>Views\<close>

datatype qvariant = VInvalid | VString qstring | VBool bool | VInt int | VReal int nat

definition UserRole :: int where "UserRole = 256"

text \<open>
  The announcements: rows inserted at the positions \<open>first..last\<close>, the whole model reset, one
  row changed; \<open>CountChanged\<close> is a property notification that concerns no row.
\<close>

datatype model_signal = RowsInserted nat nat | ModelReset | DataChanged nat "int list" | CountChanged

text \<open>What a view that shows \<open>shown\<close> shows after an announcement of a model with the rows \<open>rows\<close>.\<close>

fun refresh :: "'r list \<Rightarrow> model_signal \<Rightarrow> 'r list \<Rightarrow> 'r list" where
  "refresh rows (RowsInserted a b) shown =
     take a shown @ take (Suc b - a) (drop a rows) @ drop a shown"
| "refresh rows ModelReset shown = rows"
| "refresh rows (DataChanged i roles) shown = (if i < length rows then shown[i := rows ! i] else shown)"
| "refresh rows CountChanged shown = shown"

locale list_model =
  fixes rows :: "'s \<Rightarrow> 'r list"
    and run_op :: "'op \<Rightarrow> 's \<Rightarrow> 's \<times> model_signal list"
  assumes announced: "run_op a s = (s', sigs) \<Longrightarrow> fold (refresh (rows s')) sigs (rows s) = rows s'"
begin

text \<open>The view after a sequence of operations.\<close>

fun watch :: "'op list \<Rightarrow> 's \<Rightarrow> 'r list \<Rightarrow> 's \<times> 'r list" where
  "watch [] s shown = (s, shown)"
| "watch (a # as) s shown =
     (case run_op a s of (s', sigs) \<Rightarrow> watch as s' (fold (refresh (rows s')) sigs shown))"

lemma view_in_sync: "shown = rows s \<Longrightarrow> watch as s shown = (s', shown') \<Longrightarrow> shown' = rows s'"
  by (induction "as" arbitrary: s shown) (auto simp: announced split: prod.splits)

end

section \<open>MessageModel\<close>

record message_item =
  sender :: qstring
  content :: qstring
  timestamp :: qstring
  isSelf :: bool
  messageType :: qstring

type_synonym message_model = "message_item list"

definition normal :: qstring where "normal = qs ''normal''"

text \<open>\<open>rowCount\<close> and \<open>data\<close>; an index is \<open>None\<close> when it is not valid.\<close>

definition message_rowCount :: "bool \<Rightarrow> message_model \<Rightarrow> nat" where
  "message_rowCount parent_valid m = (if parent_valid then 0 else length m)"

definition message_data :: "message_model \<Rightarrow> int option \<Rightarrow> int \<Rightarrow> qvariant" where
  "message_data m index role =
     (case index of
        None \<Rightarrow> VInvalid
      | Some row \<Rightarrow>
          if row < 0 \<or> row \<ge> int (length m) then VInvalid
          else let msg = m ! nat row in
            if role = UserRole + 1 then VString (sender msg)
            else if role = UserRole + 2 then VString (content msg)
            else if role = UserRole + 3 then VString (timestamp msg)
            else if role = UserRole + 4 then VBool (isSelf msg)
            else if role = UserRole + 5 then VString (messageType msg)
            else VInvalid)"

definition message_roleNames :: "(int \<times> string) list" where
  "message_roleNames =
     [(UserRole + 1, ''sender''), (UserRole + 2, ''content''), (UserRole + 3, ''timestamp''),
      (UserRole + 4, ''isSelf''), (UserRole + 5, ''messageType'')]"

definition addMessage ::
  "qstring \<Rightarrow> qstring \<Rightarrow> qstring \<Rightarrow> bool \<Rightarrow> qstring \<Rightarrow> message_model \<Rightarrow> message_model \<times> model_signal list" where
  "addMessage from text ts self type m =
     (m @ [\<lparr>sender = from, content = text, timestamp = ts, isSelf = self, messageType = type\<rparr>],
      [RowsInserted (length m) (length m)])"

definition clear_messages :: "message_model \<Rightarrow> message_model \<times> model_signal list" where
  "clear_messages m = ([], [ModelReset])"

definition history_item :: "qt \<Rightarrow> qstring \<Rightarrow> qjson \<Rightarrow> message_item" where
  "history_item Q myUsername v =
     (let obj = to_object v; from = to_qstring (member obj ''from'') in
      \<lparr>sender = from, content = to_qstring (member obj ''content''),
       timestamp = qt_format_time Q (qt_to_integer Q (member obj ''timestamp'')),
       isSelf = (from = myUsername), messageType = normal\<rparr>)"

definition loadFromJsonArray ::
  "qt \<Rightarrow> qjson list \<Rightarrow> qstring \<Rightarrow> message_model \<Rightarrow> message_model \<times> model_signal list" where
  "loadFromJsonArray Q messages myUsername m =
     (map (history_item Q myUsername) messages, [ModelReset])"

datatype message_op =
    AddMessage qstring qstring qstring bool qstring | ClearMessages | LoadHistory "qjson list" qstring

fun message_run :: "qt \<Rightarrow> message_op \<Rightarrow> message_model \<Rightarrow> message_model \<times> model_signal list" where
  "message_run Q (AddMessage from text ts self type) m = addMessage from text ts self type m"
| "message_run Q ClearMessages m = clear_messages m"
| "message_run Q (LoadHistory messages me) m = loadFromJsonArray Q messages me m"

interpretation msgs: list_model "\<lambda>m. m" "message_run Q" for Q
proof
  fix a m m' sigs assume "message_run Q a m = (m', sigs)"
  then show "fold (refresh m') sigs m = m'"
    by (cases a) (auto simp: addMessage_def clear_messages_def loadFromJsonArray_def)
qed

section \<open>UserModel\<close>

type_synonym user_model = "qstring list"

definition user_rowCount :: "bool \<Rightarrow> user_model \<Rightarrow> nat" where
  "user_rowCount parent_valid m = (if parent_valid then 0 else length m)"

definition user_data :: "user_model \<Rightarrow> int option \<Rightarrow> int \<Rightarrow> qvariant" where
  "user_data m index role =
     (case index of
        None \<Rightarrow> VInvalid
      | Some row \<Rightarrow>
          if row < 0 \<or> row \<ge> int (length m) then VInvalid
          else if role = UserRole + 1 then VString (m ! nat row) else VInvalid)"

definition user_roleNames :: "(int \<times> string) list" where
  "user_roleNames = [(UserRole + 1, ''username'')]"

definition user_count :: "user_model \<Rightarrow> nat" where
  "user_count m = length m"

definition setUsers :: "qstring list \<Rightarrow> user_model \<Rightarrow> user_model \<times> model_signal list" where
  "setUsers users m = (users, [ModelReset, CountChanged])"

interpretation usrs: list_model "\<lambda>m. m" setUsers
  by unfold_locales (auto simp: setUsers_def)

section \<open>SessionModel\<close>

record session_item =
  targetName :: qstring
  isRoom :: bool
  unreadCount :: int
  lastMessage :: qstring
  lastTimestamp :: qstring

type_synonym session_model = "session_item list"

definition new_item :: "qstring \<Rightarrow> bool \<Rightarrow> session_item" where
  "new_item target room = \<lparr>targetName = target, isRoom = room, unreadCount = 0,
     lastMessage = [], lastTimestamp = []\<rparr>"

definition session_rowCount :: "bool \<Rightarrow> session_model \<Rightarrow> nat" where
  "session_rowCount parent_valid m = (if parent_valid then 0 else length m)"

definition session_data :: "session_model \<Rightarrow> int option \<Rightarrow> int \<Rightarrow> qvariant" where
  "session_data m index role =
     (case index of
        None \<Rightarrow> VInvalid
      | Some row \<Rightarrow>
          if row < 0 \<or> row \<ge> int (length m) then VInvalid
          else let item = m ! nat row in
            if role = UserRole + 1 then VString (targetName item)
            else if role = UserRole + 2 then VBool (isRoom item)
            else if role = UserRole + 3 then VInt (unreadCount item)
            else if role = UserRole + 4 then VString (lastMessage item)
            else if role = UserRole + 5 then VString (lastTimestamp item)
            else VInvalid)"

definition session_roleNames :: "(int \<times> string) list" where
  "session_roleNames =
     [(UserRole + 1, ''targetName''), (UserRole + 2, ''isRoom''), (UserRole + 3, ''unreadCount''),
      (UserRole + 4, ''lastMessage''), (UserRole + 5, ''lastTimestamp'')]"

text \<open>The scan from the front; \<open>None\<close> is the result \<open>-1\<close>.\<close>

fun findSession :: "qstring \<Rightarrow> session_model \<Rightarrow> nat option" where
  "findSession target [] = None"
| "findSession target (s # ss) =
     (if targetName s = target then Some 0 else map_option Suc (findSession target ss))"

definition hasSession :: "qstring \<Rightarrow> session_model \<Rightarrow> bool" where
  "hasSession target m \<longleftrightarrow> findSession target m \<noteq> None"

definition addSession :: "qstring \<Rightarrow> bool \<Rightarrow> session_model \<Rightarrow> session_model \<times> model_signal list" where
  "addSession target room m =
     (if findSession target m \<noteq> None then (m, [])
      else (m @ [new_item target room], [RowsInserted (length m) (length m)]))"

definition updateSession ::
  "qstring \<Rightarrow> qstring \<Rightarrow> qstring \<Rightarrow> session_model \<Rightarrow> session_model \<times> model_signal list" where
  "updateSession target message ts m =
     (case findSession target m of
        None \<Rightarrow> (m, [])
      | Some idx \<Rightarrow> (m[idx := (m ! idx)\<lparr>lastMessage := message, lastTimestamp := ts\<rparr>],
                     [DataChanged idx [UserRole + 4, UserRole + 5]]))"

definition incrementUnread :: "qstring \<Rightarrow> session_model \<Rightarrow> session_model \<times> model_signal list" where
  "incrementUnread target m =
     (case findSession target m of
        None \<Rightarrow> (m, [])
      | Some idx \<Rightarrow> (m[idx := (m ! idx)\<lparr>unreadCount := unreadCount (m ! idx) + 1\<rparr>],
                     [DataChanged idx [UserRole + 3]]))"

definition clearUnread :: "qstring \<Rightarrow> session_model \<Rightarrow> session_model \<times> model_signal list" where
  "clearUnread target m =
     (case findSession target m of
        None \<Rightarrow> (m, [])
      | Some idx \<Rightarrow> (m[idx := (m ! idx)\<lparr>unreadCount := 0\<rparr>], [DataChanged idx [UserRole + 3]]))"

definition clear_sessions :: "session_model \<Rightarrow> session_model \<times> model_signal list" where
  "clear_sessions m = ([], [ModelReset])"

datatype session_op =
    AddSession qstring bool | UpdateSession qstring qstring qstring | IncrementUnread qstring
  | ClearUnread qstring | ClearSessions

fun session_run :: "session_op \<Rightarrow> session_model \<Rightarrow> session_model \<times> model_signal list" where
  "session_run (AddSession target room) m = addSession target room m"
| "session_run (UpdateSession target message ts) m = updateSession target message ts m"
| "session_run (IncrementUnread target) m = incrementUnread target m"
| "session_run (ClearUnread target) m = clearUnread target m"
| "session_run ClearSessions m = clear_sessions m"

lemma findSession_Some:
  "findSession target m = Some i \<Longrightarrow> i < length m \<and> targetName (m ! i) = target \<and>
   (\<forall>j < i. targetName (m ! j) \<noteq> target)"
proof (induction m arbitrary: i)
  case (Cons s m)
  then show ?case by (cases i) (auto simp: less_Suc_eq_0_disj split: if_splits)
qed simp

lemma findSession_None: "findSession target m = None \<longleftrightarrow> target \<notin> targetName ` set m"
  by (induction m) auto

lemmas session_op_defs = addSession_def updateSession_def incrementUnread_def clearUnread_def
  clear_sessions_def

interpretation sess: list_model "\<lambda>m. m" session_run
proof
  fix a m m' sigs assume "session_run a m = (m', sigs)"
  then show "fold (refresh m') sigs m = m'"
    by (cases a) (auto simp: session_op_defs split: option.splits if_splits dest: findSession_Some)
qed

section \<open>Properties\<close>

text \<open>The model and a view of it after a sequence of operations, for a model that is its rows.\<close>

fun follow ::
  "('op \<Rightarrow> 'r list \<Rightarrow> 'r list \<times> model_signal list) \<Rightarrow> 'op list \<Rightarrow> 'r list \<Rightarrow> 'r list \<Rightarrow>
     'r list \<times> 'r list" where
  "follow run [] m shown = (m, shown)"
| "follow run (a # as) m shown = follow run as (fst (run a m))
     (fold (refresh (fst (run a m))) (snd (run a m)) shown)"

lemma follow_watch:
  "msgs.watch Q mops ms shown = follow (message_run Q) mops ms shown"
  "usrs.watch uops us ushown = follow setUsers uops us ushown"
  "sess.watch sops ss sshown = follow session_run sops ss sshown"
  by (induction mops arbitrary: ms shown, simp_all add: case_prod_unfold)
    (induction uops arbitrary: us ushown, simp_all add: case_prod_unfold,
     induction sops arbitrary: ss sshown, simp_all add: case_prod_unfold)


definition sessions_ok :: "session_model \<Rightarrow> bool" where
  "sessions_ok m \<longleftrightarrow> distinct (map targetName m) \<and> (\<forall>s \<in> set m. 0 \<le> unreadCount s)"

definition unread_of :: "session_model \<Rightarrow> qstring \<Rightarrow> int" where
  "unread_of m target = (case findSession target m of None \<Rightarrow> 0 | Some i \<Rightarrow> unreadCount (m ! i))"

lemma findSession_update:
  "findSession t (m[i := s]) = findSession t m" if "i < length m" "targetName s = targetName (m ! i)"
  using that
proof (induction t m arbitrary: i rule: findSession.induct)
  case (2 t s' ss)
  then show ?case by (cases i) auto
qed simp

lemma findSession_append:
  "findSession t (m @ [s]) = (case findSession t m of Some i \<Rightarrow> Some i
     | None \<Rightarrow> if targetName s = t then Some (length m) else None)"
  by (induction t m rule: findSession.induct) (auto split: option.split)

lemma distinct_targets_update:
  "i < length m \<Longrightarrow> targetName s = targetName (m ! i) \<Longrightarrow> map targetName (m[i := s]) = map targetName m"
  by (metis list_update_id map_update nth_map length_map)

lemma sessions_ok_update:
  assumes "sessions_ok m" "i < length m" "targetName s = targetName (m ! i)" "0 \<le> unreadCount s"
  shows "sessions_ok (m[i := s])"
  using assms set_update_subset_insert [of m i s]
  by (auto simp: sessions_ok_def distinct_targets_update simp del: map_update)

text \<open>
  The session list is a map from conversations to counters: from a list with one entry per
  conversation and no negative counter, every operation leads to such a list, and changes the
  unread counters exactly as meant: an increment adds one to the counter of its conversation if it
  is listed, a clear sets it to zero, clearing the list resets all, and all other counters and
  operations leave the counters alone (a new conversation starts at zero).
\<close>

theorem session_model_correct:
  assumes "sessions_ok m"
  shows "sessions_ok (fst (session_run a m)) \<and>
    unread_of (fst (session_run a m)) t =
      (case a of
         IncrementUnread t' \<Rightarrow> if t = t' \<and> hasSession t m then unread_of m t + 1 else unread_of m t
       | ClearUnread t' \<Rightarrow> if t = t' then 0 else unread_of m t
       | ClearSessions \<Rightarrow> 0
       | _ \<Rightarrow> unread_of m t)"
proof (cases a)
  case (AddSession t' room)
  show ?thesis
  proof (cases "findSession t' m")
    case None
    then have "t' \<notin> targetName ` set m" by (simp add: findSession_None)
    with assms AddSession None show ?thesis
      by (auto simp: addSession_def sessions_ok_def unread_of_def findSession_append new_item_def
          nth_append split: option.split dest: findSession_Some)
  qed (use assms AddSession in \<open>simp add: addSession_def\<close>)
next
  case (UpdateSession t' message ts)
  show ?thesis
  proof (cases "findSession t' m")
    case (Some i)
    then have i: "i < length m" using findSession_Some by blast
    with assms have "0 \<le> unreadCount (m ! i)" by (simp add: sessions_ok_def)
    with assms UpdateSession Some i show ?thesis
      by (auto simp: updateSession_def sessions_ok_update unread_of_def findSession_update
          nth_list_update split: option.split)
  qed (use assms UpdateSession in \<open>simp add: updateSession_def\<close>)
next
  case (IncrementUnread t')
  show ?thesis
  proof (cases "findSession t' m")
    case (Some i)
    then have i: "i < length m" using findSession_Some by blast
    with assms have "0 \<le> unreadCount (m ! i)" by (simp add: sessions_ok_def)
    with assms IncrementUnread Some i findSession_Some [OF Some] show ?thesis
      by (auto simp: incrementUnread_def sessions_ok_update unread_of_def findSession_update
          nth_list_update hasSession_def split: option.split dest: findSession_Some)
  qed (use assms IncrementUnread in \<open>auto simp: incrementUnread_def hasSession_def\<close>)
next
  case (ClearUnread t')
  show ?thesis
  proof (cases "findSession t' m")
    case (Some i)
    then have i: "i < length m" using findSession_Some by blast
    with assms ClearUnread Some findSession_Some [OF Some] show ?thesis
      by (auto simp: clearUnread_def sessions_ok_update unread_of_def findSession_update
          nth_list_update split: option.split dest: findSession_Some)
  qed (use assms ClearUnread in \<open>auto simp: clearUnread_def unread_of_def\<close>)
next
  case ClearSessions
  then show ?thesis by (simp add: clear_sessions_def sessions_ok_def unread_of_def)
qed

theorem session_model_correct_witness:
  "sessions_ok [new_item (qs ''bob'') False] \<and>
   unread_of (fst (session_run (IncrementUnread (qs ''bob'')) [new_item (qs ''bob'') False])) (qs ''bob'') = 1"
proof -
  have "sessions_ok [new_item (qs ''bob'') False]" by (simp add: sessions_ok_def new_item_def)
  from session_model_correct [OF this, of "IncrementUnread (qs ''bob'')" "qs ''bob''"] this
  show ?thesis by (simp add: hasSession_def new_item_def unread_of_def)
qed

end
