(* ===== verification/ChatBackend.thy ===== *)
theory ChatBackend
  imports ChatClient ListModels
begin

text \<open>
  \<open>client/src/chat_backend.cpp\<close>: the facade of the QML views. It keeps the connection status, the
  current user and the models, which it fills from the signals of \<open>ChatClient\<close>. An operation
  yields the new state, the signals it emits in order, and the call it makes on the client. The
  announcements of the models themselves are the subject of \<open>ListModels\<close>.
\<close>

section \<open>State\<close>

text \<open>
  The pointers to the models never change; \<open>m_privateMessages\<close> maps a user to the rows of the
  model the map points to.
\<close>

record chat_backend =
  m_connectionStatus :: qstring
  m_currentUser :: qstring
  m_sessions :: session_model
  m_roomMessages :: message_model
  m_onlineUsers :: user_model
  m_privateMessages :: "(qstring \<times> message_model) list"

definition new_backend :: chat_backend where
  "new_backend = \<lparr>m_connectionStatus = qs ''Disconnected'', m_currentUser = [], m_sessions = [],
     m_roomMessages = [], m_onlineUsers = [], m_privateMessages = []\<rparr>"

datatype backend_signal =
    ConnectionStatusChanged
  | CurrentUserChanged
  | MessageReceived qstring qstring qstring
  | LoginSuccess
  | LoginFailed qstring
  | ErrorOccurred qstring
  | UserListUpdated "qstring list"

type_synonym backend_action = "chat_backend \<Rightarrow> chat_backend \<times> backend_signal list"

text \<open>\<open>privateMessages\<close> creates the model of a conversation when it is first asked for.\<close>

definition privateMessages :: "qstring \<Rightarrow> chat_backend \<Rightarrow> chat_backend \<times> message_model" where
  "privateMessages user b =
     (case map_of (m_privateMessages b) user of
        Some model \<Rightarrow> (b, model)
      | None \<Rightarrow> (b\<lparr>m_privateMessages := alist_put user [] (m_privateMessages b)\<rparr>, []))"

text \<open>An operation on the model \<open>privateMessages(user)\<close> points to.\<close>

definition on_private ::
  "qstring \<Rightarrow> (message_model \<Rightarrow> message_model \<times> model_signal list) \<Rightarrow> chat_backend \<Rightarrow> chat_backend" where
  "on_private user f b =
     (case privateMessages user b of
        (b1, model) \<Rightarrow> b1\<lparr>m_privateMessages := alist_put user (fst (f model)) (m_privateMessages b1)\<rparr>)"

definition on_room ::
  "(message_model \<Rightarrow> message_model \<times> model_signal list) \<Rightarrow> chat_backend \<Rightarrow> chat_backend" where
  "on_room f b = b\<lparr>m_roomMessages := fst (f (m_roomMessages b))\<rparr>"

text \<open>What a conversation shows; a model that does not exist yet would be empty.\<close>

definition conversation :: "qstring \<Rightarrow> chat_backend \<Rightarrow> message_model" where
  "conversation user b = (case map_of (m_privateMessages b) user of Some model \<Rightarrow> model | None \<Rightarrow> [])"

lemma conversation_on_private [simp]:
  "conversation t (on_private user f b) =
     (if t = user then fst (f (conversation user b)) else conversation t b)"
  by (simp add: conversation_def on_private_def privateMessages_def split: option.split)

lemma on_private_frame [simp]:
  "m_connectionStatus (on_private user f b) = m_connectionStatus b"
  "m_currentUser (on_private user f b) = m_currentUser b"
  "m_sessions (on_private user f b) = m_sessions b"
  "m_roomMessages (on_private user f b) = m_roomMessages b"
  "m_onlineUsers (on_private user f b) = m_onlineUsers b"
  by (simp_all add: on_private_def privateMessages_def split: option.split)

lemma on_room_frame [simp]:
  "m_connectionStatus (on_room f b) = m_connectionStatus b"
  "m_currentUser (on_room f b) = m_currentUser b"
  "m_sessions (on_room f b) = m_sessions b"
  "m_roomMessages (on_room f b) = fst (f (m_roomMessages b))"
  "m_onlineUsers (on_room f b) = m_onlineUsers b"
  "conversation t (on_room f b) = conversation t b"
  by (simp_all add: on_room_def conversation_def)

lemma conversation_frame [simp]:
  "conversation t (b\<lparr>m_connectionStatus := x\<rparr>) = conversation t b"
  "conversation t (b\<lparr>m_currentUser := y\<rparr>) = conversation t b"
  "conversation t (b\<lparr>m_onlineUsers := z\<rparr>) = conversation t b"
  by (simp_all add: conversation_def)

section \<open>Slots\<close>

fun backend_slot :: "qt \<Rightarrow> client_signal \<Rightarrow> backend_action" where
  "backend_slot Q SigConnected b =
     (b\<lparr>m_connectionStatus := qs ''Connected''\<rparr>, [ConnectionStatusChanged])"
| "backend_slot Q SigDisconnected b =
     (b\<lparr>m_connectionStatus := qs ''Disconnected''\<rparr>, [ConnectionStatusChanged])"
| "backend_slot Q (SigConnectionError err) b =
     (b\<lparr>m_connectionStatus := qs ''Error: '' @ err\<rparr>, [ConnectionStatusChanged, ErrorOccurred err])"
| "backend_slot Q (SigLoginOk user) b =
     (b\<lparr>m_currentUser := user\<rparr>, [CurrentUserChanged, LoginSuccess])"
| "backend_slot Q (SigErrorReceived code text') b = (b, [LoginFailed text', ErrorOccurred text'])"
| "backend_slot Q (SigBroadcastReceived from text' time) b =
     (let ts = qt_format_time Q time in
      (on_room (addMessage from text' ts (from = m_currentUser b) normal) b,
       [MessageReceived from text' ts]))"
| "backend_slot Q (SigPrivateReceived from to text' time) b =
     (let ts = qt_format_time Q time in
      (on_private from (addMessage from text' ts False normal) b, [MessageReceived from text' ts]))"
| "backend_slot Q (SigUserListUpdated users) b =
     (b\<lparr>m_onlineUsers := fst (setUsers users (m_onlineUsers b))\<rparr>, [UserListUpdated users])"
| "backend_slot Q (SigHistoryReceived target messages) b =
     (if target = qs ''__room__''
      then (on_room (loadFromJsonArray Q messages (m_currentUser b)) b, [])
      else (on_private target (loadFromJsonArray Q messages (m_currentUser b)) b, []))"
| "backend_slot Q (SigNotifyReceived text') b =
     (on_room (addMessage (qs ''__system__'') text' (qt_now Q) False (qs ''system'')) b, [])"

section \<open>Actions of the views\<close>

type_synonym backend_request = "chat_backend \<Rightarrow> (chat_backend \<times> backend_signal list) \<times> client_call option"

text \<open>The conversion \<open>static_cast<quint16>\<close> takes the port modulo \<open>2 ^ 16\<close>.\<close>

definition backend_connectToServer :: "qstring \<Rightarrow> int \<Rightarrow> backend_request" where
  "backend_connectToServer host port b =
     ((b\<lparr>m_connectionStatus := qs ''Connecting...''\<rparr>, [ConnectionStatusChanged]),
      Some (CallConnect host (word_of_int port)))"

definition backend_login :: "qstring \<Rightarrow> qstring \<Rightarrow> backend_request" where
  "backend_login user password b = ((b, []), Some (CallLogin user password))"

definition backend_registerUser :: "qstring \<Rightarrow> qstring \<Rightarrow> backend_request" where
  "backend_registerUser user password b = ((b, []), Some (CallRegister user password))"

definition sendMessage :: "qstring \<Rightarrow> backend_request" where
  "sendMessage text' b = ((b, []), Some (CallBroadcast text'))"

definition sendPrivate :: "qt \<Rightarrow> qstring \<Rightarrow> qstring \<Rightarrow> backend_request" where
  "sendPrivate Q to text' b =
     ((on_private to (addMessage (m_currentUser b) text' (qt_now Q) True normal) b, []),
      Some (CallPrivate to text'))"

definition requestHistory :: "qstring \<Rightarrow> backend_request" where
  "requestHistory target b = ((b, []), Some (CallHistoryReq target))"

definition disconnectFromServer :: backend_request where
  "disconnectFromServer b = ((b, []), Some CallDisconnect)"

definition logout :: backend_request where
  "logout b = ((b\<lparr>m_currentUser := []\<rparr>, [CurrentUserChanged]), Some CallLogout)"

definition setCurrentUser :: "qstring \<Rightarrow> backend_action" where
  "setCurrentUser user b =
     (if m_currentUser b \<noteq> user then (b\<lparr>m_currentUser := user\<rparr>, [CurrentUserChanged]) else (b, []))"

definition backend_addSession :: "qstring \<Rightarrow> bool \<Rightarrow> chat_backend \<Rightarrow> chat_backend" where
  "backend_addSession target room b = b\<lparr>m_sessions := fst (addSession target room (m_sessions b))\<rparr>"

definition backend_clearUnread :: "qstring \<Rightarrow> chat_backend \<Rightarrow> chat_backend" where
  "backend_clearUnread target b = b\<lparr>m_sessions := fst (clearUnread target (m_sessions b))\<rparr>"

section \<open>Test data\<close>

text \<open>The texts by their UTF-16 code units.\<close>

definition txt_me :: qstring where
  "txt_me =
    [25105]"

definition txt_chen :: qstring where
  "txt_chen =
    [38472, 26195, 38632]"

definition txt_line1 :: qstring where
  "txt_line1 =
    [22823, 23478, 22909, 65281, 26377, 20154, 35797, 36807, 26032, 30340, 25991, 20214, 20998,
     20139, 21151, 33021, 21527, 65311]"

definition txt_zhang :: qstring where
  "txt_zhang =
    [24352, 20255]"

definition txt_line2 :: qstring where
  "txt_line2 =
    [35797, 36807, 20102, 65281, 25928, 26524, 24456, 22909, 65292, 19978, 20256, 36895, 24230,
     24456, 32473, 21147, 12290]"

definition txt_line3 :: qstring where
  "txt_line3 =
    [25105, 20063, 21018, 27979, 35797, 20102, 65292, 25302, 25341, 19978, 20256, 38750, 24120,
     27969, 30021, 65292, 22823, 23478, 24178, 24471, 28418, 20142, 65281]"

definition txt_li :: qstring where
  "txt_li =
    [26446, 26790, 29738]"

definition txt_line4 :: qstring where
  "txt_line4 =
    [19981, 36807, 25991, 26723, 24471, 26356, 26032, 19968, 19979, 65292, 25105, 21457, 29616,
     26377, 20960, 24352, 25130, 22270, 24050, 32463, 36807, 26102, 20102, 12290]"

definition txt_line5 :: qstring where
  "txt_line5 =
    [29579, 28009, 28982, 32, 21152, 20837, 20102, 32842, 22825]"

definition txt_wang :: qstring where
  "txt_wang =
    [29579, 28009, 28982]"

definition txt_line6 :: qstring where
  "txt_line6 =
    [22823, 23478, 22909, 65281, 21018, 30475, 21040, 26356, 26032, 36890, 30693, 65292, 26032,
     30340, 27611, 29627, 29827, 30028, 38754, 22826, 22909, 30475, 20102, 12290]"

definition txt_liu :: qstring where
  "txt_liu =
    [21016, 24605, 36828]"

definition txt_line7 :: qstring where
  "txt_line7 =
    [21703, 65292, 20004, 20010, 37197, 33394, 26041, 26696, 37117, 24456, 22909, 30475, 65281,
     25105, 26356, 21916, 27426, 34013, 33394, 28176, 21464, 37027, 20010, 12290]"

definition test_messages :: "qstring \<Rightarrow> message_op list" where
  "test_messages self =
     [AddMessage txt_chen txt_line1 (qs ''14:30'') False normal,
      AddMessage txt_zhang txt_line2 (qs ''14:31'') False normal,
      AddMessage self txt_line3 (qs ''14:32'') True normal,
      AddMessage txt_li txt_line4 (qs ''14:33'') False normal,
      AddMessage (qs ''__system__'') txt_line5 (qs ''14:34'') False normal,
      AddMessage txt_wang txt_line6 (qs ''14:34'') False normal,
      AddMessage txt_liu txt_line7 (qs ''14:36'') False normal]"

definition populateTestData :: "qt \<Rightarrow> chat_backend \<Rightarrow> chat_backend" where
  "populateTestData Q b =
     (let self = (if m_currentUser b = [] then txt_me else m_currentUser b);
          b1 = fold (\<lambda>oper. on_room (message_run Q oper)) (test_messages self) b;
          b2 = b1\<lparr>m_onlineUsers := fst (setUsers [txt_chen, txt_zhang, txt_li, txt_wang, txt_liu] (m_onlineUsers b1))\<rparr>
      in backend_addSession txt_zhang False (backend_addSession txt_chen False b2))"

section \<open>Conversations\<close>

definition backend_run :: "qt \<Rightarrow> client_signal list \<Rightarrow> chat_backend \<Rightarrow> chat_backend" where
  "backend_run Q sigs b = fold (\<lambda>sig b. fst (backend_slot Q sig b)) sigs b"

text \<open>
  The reference: a conversation shows the last history received for it, if there was one, and the
  messages that came for it since then. \<open>since_history\<close> splits the signals there.
\<close>

fun since_history :: "qstring \<Rightarrow> client_signal list \<Rightarrow> qjson list option \<times> client_signal list" where
  "since_history t [] = (None, [])"
| "since_history t (sig # sigs) =
     (case since_history t sigs of
        (Some h, later) \<Rightarrow> (Some h, later)
      | (None, later) \<Rightarrow>
          (case sig of
             SigHistoryReceived t' h \<Rightarrow> if t' = t then (Some h, sigs) else (None, sig # later)
           | _ \<Rightarrow> (None, sig # later)))"

text \<open>The lines a signal adds to the conversation \<open>t\<close> of the user \<open>me\<close>.\<close>

fun lines_for :: "qt \<Rightarrow> qstring \<Rightarrow> qstring \<Rightarrow> client_signal \<Rightarrow> message_item list" where
  "lines_for Q me t (SigBroadcastReceived from text' time) =
     (if t = qs ''__room__''
      then [\<lparr>sender = from, content = text', timestamp = qt_format_time Q time,
             isSelf = (from = me), messageType = normal\<rparr>] else [])"
| "lines_for Q me t (SigNotifyReceived text') =
     (if t = qs ''__room__''
      then [\<lparr>sender = qs ''__system__'', content = text', timestamp = qt_now Q,
             isSelf = False, messageType = qs ''system''\<rparr>] else [])"
| "lines_for Q me t (SigPrivateReceived from to text' time) =
     (if t = from \<and> t \<noteq> qs ''__room__''
      then [\<lparr>sender = from, content = text', timestamp = qt_format_time Q time,
             isSelf = False, messageType = normal\<rparr>] else [])"
| "lines_for Q me t _ = []"

definition transcript ::
  "qt \<Rightarrow> qstring \<Rightarrow> qstring \<Rightarrow> client_signal list \<Rightarrow> message_model \<Rightarrow> message_model" where
  "transcript Q me t sigs before =
     (case since_history t sigs of
        (None, later) \<Rightarrow> before @ concat (map (lines_for Q me t) later)
      | (Some h, later) \<Rightarrow> map (history_item Q me) h @ concat (map (lines_for Q me t) later))"

definition shows_for :: "qstring \<Rightarrow> chat_backend \<Rightarrow> message_model" where
  "shows_for t b = (if t = qs ''__room__'' then m_roomMessages b else conversation t b)"

fun is_login :: "client_signal \<Rightarrow> bool" where
  "is_login (SigLoginOk u) = True"
| "is_login _ = False"

lemma slot_user: "\<not> is_login sig \<Longrightarrow> m_currentUser (fst (backend_slot Q sig b)) = m_currentUser b"
  by (cases sig) (auto simp: Let_def)

lemma slot_shows:
  "shows_for t (fst (backend_slot Q sig b)) =
     (case sig of
        SigHistoryReceived t' h \<Rightarrow>
          if t' = t then map (history_item Q (m_currentUser b)) h else shows_for t b
      | _ \<Rightarrow> shows_for t b @ lines_for Q (m_currentUser b) t sig)"
  by (cases sig)
    (auto simp: Let_def shows_for_def addMessage_def loadFromJsonArray_def)

lemma since_history_later: "fst (since_history t sigs) = None \<Longrightarrow> snd (since_history t sigs) = sigs"
  by (induction sigs) (auto split: prod.splits option.splits client_signal.splits if_splits)

lemma transcript_Cons:
  "transcript Q me t (sig # sigs) before = transcript Q me t sigs
     (case sig of
        SigHistoryReceived t' h \<Rightarrow> if t' = t then map (history_item Q me) h else before
      | _ \<Rightarrow> before @ lines_for Q me t sig)"
  using since_history_later [of t sigs]
  by (cases sig) (auto simp: transcript_def split: prod.splits option.splits)

lemma run_shows:
  "list_all (\<lambda>sig. \<not> is_login sig) sigs \<Longrightarrow>
   shows_for t (backend_run Q sigs b) = transcript Q (m_currentUser b) t sigs (shows_for t b)"
proof (induction sigs arbitrary: b)
  case (Cons sig sigs)
  then have u: "m_currentUser (fst (backend_slot Q sig b)) = m_currentUser b" by (simp add: slot_user)
  have "backend_run Q (sig # sigs) b = backend_run Q sigs (fst (backend_slot Q sig b))"
    by (simp add: backend_run_def)
  with Cons u show ?case
    unfolding transcript_Cons slot_shows [symmetric] by simp
qed (simp add: backend_run_def transcript_def)

section \<open>Properties\<close>



text \<open>
  A private message the user sends appears twice: \<open>sendPrivate\<close> puts it into the conversation
  with its receiver, and the echo the server sends back, whose receiver the slot ignores, into a
  conversation of the user with himself, as somebody else's message.
\<close>

theorem private_echo_misfiled:
  assumes "m_currentUser b = me" "me \<noteq> to"
  shows "let b1 = fst (fst (sendPrivate Q to text' b));
             b2 = fst (backend_slot Q (SigPrivateReceived me to text' time) b1)
         in conversation to b2 = conversation to b @
              [\<lparr>sender = me, content = text', timestamp = qt_now Q, isSelf = True, messageType = normal\<rparr>] \<and>
            conversation me b2 = conversation me b @
              [\<lparr>sender = me, content = text', timestamp = qt_format_time Q time, isSelf = False,
                messageType = normal\<rparr>]"
  using assms by (simp add: sendPrivate_def Let_def addMessage_def)

theorem private_echo_misfiled_witness:
  "conversation (qs ''amy'') (fst (backend_slot sample_qt (SigPrivateReceived (qs ''amy'') (qs ''bob'') (qs ''hi'') 0)
     (fst (fst (sendPrivate sample_qt (qs ''bob'') (qs ''hi'') (new_backend\<lparr>m_currentUser := qs ''amy''\<rparr>)))))) =
   [\<lparr>sender = qs ''amy'', content = qs ''hi'', timestamp = [], isSelf = False, messageType = normal\<rparr>]"
proof -
  let ?b = "new_backend\<lparr>m_currentUser := qs ''amy''\<rparr>"
  have user: "m_currentUser ?b = qs ''amy''" "qs ''amy'' \<noteq> qs ''bob''" by simp_all
  have "conversation (qs ''amy'') ?b = []" by (simp add: conversation_def new_backend_def)
  with private_echo_misfiled [OF user, where Q = sample_qt and text' = "qs ''hi''" and time = 0]
  show ?thesis unfolding Let_def by (simp add: sample_qt_def)
qed

end
