(* ===== verification/LoginController.thy ===== *)
theory LoginController
  imports ChatClient
begin

text \<open>
  \<open>client/src/login_controller.cpp\<close>: the controller of the connection and login page, a state
  machine driven by the user, by the signals of \<open>ChatClient\<close> and by two single-shot timers. An
  operation yields the new state, the notifications it emits in order, and the call it makes on the
  client, which is its last action in every operation that makes one. A timer is the flag whether
  it is running.
\<close>

section \<open>State\<close>

datatype conn_state = Disconnected | Connecting | Authenticating | Authenticated

text \<open>The numbers of the enumerators, which the QML sources compare with, order the states.\<close>

fun state_number :: "conn_state \<Rightarrow> nat" where
  "state_number Disconnected = 0"
| "state_number Connecting = 1"
| "state_number Authenticating = 2"
| "state_number Authenticated = 3"

lemma state_number_inject [simp]: "state_number a = state_number b \<longleftrightarrow> a = b"
  by (cases a; cases b) simp_all

instantiation conn_state :: linorder
begin

definition less_eq_conn_state :: "conn_state \<Rightarrow> conn_state \<Rightarrow> bool" where
  "less_eq_conn_state a b \<longleftrightarrow> state_number a \<le> state_number b"

definition less_conn_state :: "conn_state \<Rightarrow> conn_state \<Rightarrow> bool" where
  "less_conn_state a b \<longleftrightarrow> state_number a < state_number b"

instance
  by standard (auto simp: less_eq_conn_state_def less_conn_state_def)

end

lemmas state_order = less_eq_conn_state_def less_conn_state_def

record login_controller =
  m_state :: conn_state
  m_statusText :: qstring
  m_isError :: bool
  m_isLoading :: bool
  m_isConnecting :: bool
  connectTimer :: bool
  loginTimer :: bool

definition new_controller :: login_controller where
  "new_controller = \<lparr>m_state = Disconnected, m_statusText = [], m_isError = False,
     m_isLoading = False, m_isConnecting = False, connectTimer = False, loginTimer = False\<rparr>"

datatype lc_signal =
  StateChanged | StatusTextChanged | IsErrorChanged | IsLoadingChanged | SigAuthenticated qstring

section \<open>Texts\<close>

definition txt_invalid_address :: qstring where
  "txt_invalid_address =
    [35831, 36755, 20837, 26377, 25928, 30340, 26381, 21153, 22120, 22320, 22336, 21644,
     31471, 21475]"

definition txt_connecting :: qstring where
  "txt_connecting =
    [27491, 22312, 36830, 25509, 46, 46, 46]"

definition txt_enter_credentials :: qstring where
  "txt_enter_credentials =
    [35831, 36755, 20837, 29992, 25143, 21517, 21644, 23494, 30721]"

definition txt_connect_first :: qstring where
  "txt_connect_first =
    [35831, 20808, 36830, 25509, 21040, 26381, 21153, 22120]"

definition txt_connected :: qstring where
  "txt_connected =
    [24050, 36830, 25509, 21040, 26381, 21153, 22120]"

definition txt_disconnected :: qstring where
  "txt_disconnected =
    [19982, 26381, 21153, 22120, 26029, 24320, 36830, 25509]"

definition txt_connect_failed :: qstring where
  "txt_connect_failed =
    [36830, 25509, 22833, 36133, 58, 32]"

definition txt_connect_timeout :: qstring where
  "txt_connect_timeout =
    [36830, 25509, 36229, 26102]"

definition txt_login_timeout :: qstring where
  "txt_login_timeout =
    [30331, 24405, 36229, 26102]"

section \<open>Setters\<close>

type_synonym lc_action = "login_controller \<Rightarrow> login_controller \<times> lc_signal list"

definition setState :: "conn_state \<Rightarrow> lc_action" where
  "setState st s = (if m_state s = st then (s, []) else (s\<lparr>m_state := st\<rparr>, [StateChanged]))"

definition setStatusText :: "qstring \<Rightarrow> bool \<Rightarrow> lc_action" where
  "setStatusText t error s =
     (if m_statusText s = t \<and> m_isError s = error then (s, [])
      else (s\<lparr>m_statusText := t, m_isError := error\<rparr>, [StatusTextChanged, IsErrorChanged]))"

definition setLoading :: "bool \<Rightarrow> lc_action" where
  "setLoading loading s =
     (if m_isLoading s = loading then (s, []) else (s\<lparr>m_isLoading := loading\<rparr>, [IsLoadingChanged]))"

definition update :: "(login_controller \<Rightarrow> login_controller) \<Rightarrow> lc_action" where
  "update f s = (f s, [])"

definition announce :: "lc_signal \<Rightarrow> lc_action" where
  "announce sig s = (s, [sig])"

text \<open>On the state, a setter is an assignment; the guard only decides whether it is announced.\<close>

lemma setters_assign [simp]:
  "fst (setState st s) = s\<lparr>m_state := st\<rparr>"
  "fst (setStatusText t error s) = s\<lparr>m_statusText := t, m_isError := error\<rparr>"
  "fst (setLoading loading s) = s\<lparr>m_isLoading := loading\<rparr>"
  "fst (update f s) = f s"
  "fst (announce sig s) = s"
  by (auto simp: setState_def setStatusText_def setLoading_def update_def announce_def)

text \<open>A sequence of statements.\<close>

fun block :: "lc_action list \<Rightarrow> lc_action" where
  "block [] s = (s, [])"
| "block (a # as) s =
     (case a s of (s1, sigs) \<Rightarrow> (case block as s1 of (s2, sigs') \<Rightarrow> (s2, sigs @ sigs')))"

section \<open>Actions of the user\<close>

definition connectToServer ::
  "qstring \<Rightarrow> int \<Rightarrow> login_controller \<Rightarrow> (login_controller \<times> lc_signal list) \<times> client_call option" where
  "connectToServer host port s =
     (if m_isConnecting s then ((s, []), None)
      else if host = [] \<or> port \<le> 0 \<or> port > 65535 then (setStatusText txt_invalid_address True s, None)
      else
        (block [update (\<lambda>s. s\<lparr>m_isConnecting := True\<rparr>), setStatusText txt_connecting False,
           setLoading True, setState Connecting, update (\<lambda>s. s\<lparr>connectTimer := True\<rparr>)] s,
         Some (CallConnect host (of_int port))))"

definition credentials_action ::
  "(qstring \<Rightarrow> qstring \<Rightarrow> client_call) \<Rightarrow> qt \<Rightarrow> bool \<Rightarrow> qstring \<Rightarrow> qstring \<Rightarrow> login_controller \<Rightarrow>
     (login_controller \<times> lc_signal list) \<times> client_call option" where
  "credentials_action call Q connected user password s =
     (if qt_trim Q user = [] \<or> qt_trim Q password = []
      then (setStatusText txt_enter_credentials True s, None)
      else if \<not> connected then (setStatusText txt_connect_first True s, None)
      else
        (block [setStatusText [] False, setLoading True, setState Authenticating,
           update (\<lambda>s. s\<lparr>loginTimer := True\<rparr>)] s,
         Some (call (qt_trim Q user) (qt_trim Q password))))"

definition lc_login where "lc_login = credentials_action CallLogin"

definition lc_registerUser where "lc_registerUser = credentials_action CallRegister"

section \<open>Signals of the client\<close>

definition onConnected :: lc_action where
  "onConnected = block [update (\<lambda>s. s\<lparr>m_isConnecting := False, connectTimer := False\<rparr>),
     setLoading False, setStatusText txt_connected False, setState Authenticating]"

definition onDisconnected :: lc_action where
  "onDisconnected = block [update (\<lambda>s. s\<lparr>m_isConnecting := False, connectTimer := False, loginTimer := False\<rparr>),
     setLoading False, setStatusText txt_disconnected True, setState Disconnected]"

definition onConnectionError :: "qstring \<Rightarrow> lc_action" where
  "onConnectionError error = block [update (\<lambda>s. s\<lparr>m_isConnecting := False, connectTimer := False, loginTimer := False\<rparr>),
     setLoading False, setStatusText (txt_connect_failed @ error) True, setState Disconnected]"

definition onLoginOk :: "qstring \<Rightarrow> lc_action" where
  "onLoginOk user = block [update (\<lambda>s. s\<lparr>connectTimer := False, loginTimer := False\<rparr>),
     setLoading False, setStatusText [] False, setState Authenticated, announce (SigAuthenticated user)]"

definition onErrorReceived :: "qstring \<Rightarrow> qstring \<Rightarrow> lc_action" where
  "onErrorReceived code text = block [update (\<lambda>s. s\<lparr>loginTimer := False\<rparr>), setLoading False,
     setStatusText (qs ''['' @ code @ qs ''] '' @ text) True, setState Authenticating]"

fun lc_slot :: "client_signal \<Rightarrow> lc_action" where
  "lc_slot SigConnected = onConnected"
| "lc_slot SigDisconnected = onDisconnected"
| "lc_slot (SigConnectionError e) = onConnectionError e"
| "lc_slot (SigLoginOk u) = onLoginOk u"
| "lc_slot (SigErrorReceived code text) = onErrorReceived code text"
| "lc_slot (SigBroadcastReceived f c t) = block []"
| "lc_slot (SigPrivateReceived f g c t) = block []"
| "lc_slot (SigUserListUpdated us) = block []"
| "lc_slot (SigHistoryReceived t ms) = block []"
| "lc_slot (SigNotifyReceived c) = block []"

section \<open>Timers\<close>

text \<open>A single-shot timer has stopped when its timeout is delivered.\<close>

definition onConnectTimeout :: lc_action where
  "onConnectTimeout = block [update (\<lambda>s. s\<lparr>connectTimer := False, m_isConnecting := False\<rparr>),
     setLoading False, setStatusText txt_connect_timeout True, setState Disconnected]"

definition onLoginTimeout :: lc_action where
  "onLoginTimeout = block [update (\<lambda>s. s\<lparr>loginTimer := False\<rparr>), setLoading False,
     setStatusText txt_login_timeout True]"

lemmas setter_defs = setState_def setStatusText_def setLoading_def update_def announce_def

lemmas slot_defs = onConnected_def onDisconnected_def onConnectionError_def onLoginOk_def
  onErrorReceived_def onConnectTimeout_def onLoginTimeout_def connectToServer_def
  credentials_action_def lc_login_def lc_registerUser_def

lemma block_simps [simp]:
  "fst (block (a # as) s) = fst (block as (fst (a s)))"
  "snd (block (a # as) s) = snd (a s) @ snd (block as (fst (a s)))"
  by (simp_all add: case_prod_unfold)

declare block.simps(2) [simp del]

section \<open>Runs\<close>

text \<open>
  What can happen to a controller: actions of the user (a login comes with what \<open>is_connected()\<close>
  answers), signals of the client, and the timeout of a running timer.
\<close>

datatype lc_event =
    UserConnect qstring int | UserLogin bool qstring qstring | UserRegister bool qstring qstring
  | FromClient client_signal | ConnectTimeout | LoginTimeout

fun lc_enabled :: "lc_event \<Rightarrow> login_controller \<Rightarrow> bool" where
  "lc_enabled ConnectTimeout s = connectTimer s"
| "lc_enabled LoginTimeout s = loginTimer s"
| "lc_enabled _ s = True"

fun lc_run :: "qt \<Rightarrow> lc_event \<Rightarrow> login_controller \<Rightarrow> login_controller" where
  "lc_run Q (UserConnect host port) s = fst (fst (connectToServer host port s))"
| "lc_run Q (UserLogin on u p) s = fst (fst (lc_login Q on u p s))"
| "lc_run Q (UserRegister on u p) s = fst (fst (lc_registerUser Q on u p s))"
| "lc_run Q (FromClient sig) s = fst (lc_slot sig s)"
| "lc_run Q ConnectTimeout s = fst (onConnectTimeout s)"
| "lc_run Q LoginTimeout s = fst (onLoginTimeout s)"

inductive lc_reaches :: "qt \<Rightarrow> login_controller \<Rightarrow> login_controller \<Rightarrow> bool" for Q s where
  lc_start: "lc_reaches Q s s"
| lc_next: "lc_reaches Q s s1 \<Longrightarrow> lc_enabled e s1 \<Longrightarrow> lc_reaches Q s (lc_run Q e s1)"

fun user_request :: "lc_event \<Rightarrow> bool" where
  "user_request (UserConnect _ _) = True"
| "user_request (UserLogin _ _ _) = True"
| "user_request (UserRegister _ _ _) = True"
| "user_request _ = False"

lemma lc_slot_loading: "m_isLoading (fst (lc_slot sig s)) \<Longrightarrow> m_isLoading s"
  by (cases sig) (auto simp: slot_defs split: if_splits)

lemma lc_slot_timers:
  "m_isLoading (fst (lc_slot sig s)) \<Longrightarrow>
   connectTimer (fst (lc_slot sig s)) = connectTimer s \<and> loginTimer (fst (lc_slot sig s)) = loginTimer s"
  by (cases sig) (auto simp: slot_defs split: if_splits)

lemma spinner_run:
  assumes "m_isLoading s \<Longrightarrow> connectTimer s \<or> loginTimer s" "m_isLoading (lc_run Q e s)"
  shows "connectTimer (lc_run Q e s) \<or> loginTimer (lc_run Q e s)"
proof (cases e)
  case (FromClient sig)
  with assms show ?thesis using lc_slot_loading lc_slot_timers by fastforce
qed (use assms in \<open>auto simp: slot_defs split: if_splits\<close>)

lemma no_request_no_loading: "\<not> user_request e \<Longrightarrow> m_isLoading (lc_run Q e s) \<Longrightarrow> m_isLoading s"
  by (cases e) (auto simp: slot_defs dest: lc_slot_loading split: if_splits)

lemma timeout_ends_loading:
  "e = ConnectTimeout \<or> e = LoginTimeout \<Longrightarrow> \<not> m_isLoading (lc_run Q e s) \<and> m_isError (lc_run Q e s)"
  by (auto simp: slot_defs)

lemma quiet_events_no_loading:
  "\<not> m_isLoading s \<Longrightarrow> list_all (\<lambda>e. \<not> user_request e) es \<Longrightarrow> \<not> m_isLoading (fold (lc_run Q) es s)"
  by (induction es arbitrary: s) (use no_request_no_loading in auto)

section \<open>Properties\<close>

text \<open>
  The spinner always ends: whenever the controller shows it, a timer runs whose timeout
  switches it off and reports an error, whatever happened before; and every sequence of events
  without a new request of the user that includes a timeout ends with the spinner off.
\<close>

theorem spinner_ends:
  assumes "lc_reaches Q new_controller s" "m_isLoading s"
  shows "(\<exists>e \<in> {ConnectTimeout, LoginTimeout}. lc_enabled e s \<and>
      \<not> m_isLoading (lc_run Q e s) \<and> m_isError (lc_run Q e s)) \<and>
    (\<forall>es. list_all (\<lambda>e. \<not> user_request e) es \<and> {ConnectTimeout, LoginTimeout} \<inter> set es \<noteq> {} \<longrightarrow>
      \<not> m_isLoading (fold (lc_run Q) es s))"
proof (intro conjI allI impI)
  have "m_isLoading s \<longrightarrow> connectTimer s \<or> loginTimer s"
    using assms(1)
  proof induction
    case (lc_next s1 e)
    then show ?case using spinner_run [of s1 Q e] by blast
  qed (simp add: new_controller_def)
  with assms(2) show "\<exists>e \<in> {ConnectTimeout, LoginTimeout}. lc_enabled e s \<and>
      \<not> m_isLoading (lc_run Q e s) \<and> m_isError (lc_run Q e s)"
    using timeout_ends_loading by auto
next
  fix es assume "list_all (\<lambda>e. \<not> user_request e) es \<and> {ConnectTimeout, LoginTimeout} \<inter> set es \<noteq> {}"
  then obtain e where quiet: "list_all (\<lambda>e. \<not> user_request e) es"
    and e: "e \<in> set es" "e = ConnectTimeout \<or> e = LoginTimeout" by auto
  then obtain xs ys where "es = xs @ e # ys" by (auto simp: in_set_conv_decomp)
  then show "\<not> m_isLoading (fold (lc_run Q) es s)"
    using quiet e(2) quiet_events_no_loading timeout_ends_loading by (auto simp del: lc_run.simps)
qed

text \<open>The witness: a connect that nobody answers.\<close>

theorem spinner_ends_witness:
  "m_isLoading (lc_run sample_qt (UserConnect (qs ''h'') 8080) new_controller) \<and>
   \<not> m_isLoading (fold (lc_run sample_qt) [FromClient (SigNotifyReceived []), ConnectTimeout]
     (lc_run sample_qt (UserConnect (qs ''h'') 8080) new_controller))"
proof -
  let ?s = "lc_run sample_qt (UserConnect (qs ''h'') 8080) new_controller"
  have r: "lc_reaches sample_qt new_controller ?s"
    by (rule lc_next [OF lc_start]) simp
  have l: "m_isLoading ?s" by (simp add: slot_defs new_controller_def)
  from spinner_ends [OF r l]
  have "\<not> m_isLoading (fold (lc_run sample_qt) [FromClient (SigNotifyReceived []), ConnectTimeout] ?s)"
    by (elim conjE allE [of _ "[FromClient (SigNotifyReceived []), ConnectTimeout]"]) simp
  with l show ?thesis by blast
qed

text \<open>
  Only well-formed requests reach the client: a connect is passed on exactly when no attempt is
  under way, the host is not empty and the port lies in 1..65535, and then the 16-bit port is the
  port the user gave; a login is passed on exactly when both fields are not blank and the client is
  connected, and what is passed on has no blanks around it.
\<close>

theorem requests_checked:
  "snd (connectToServer host port s) =
     (if \<not> m_isConnecting s \<and> host \<noteq> [] \<and> 0 < port \<and> port < 2 ^ 16
      then Some (CallConnect host (word_of_int port)) else None) \<and>
   (snd (connectToServer host port s) = Some (CallConnect host w) \<longrightarrow> uint w = port) \<and>
   snd (lc_login Q on u p s) =
     (if qt_trim Q u \<noteq> [] \<and> qt_trim Q p \<noteq> [] \<and> on then Some (CallLogin (qt_trim Q u) (qt_trim Q p))
      else None)"
proof -
  have "uint (word_of_int port :: 16 word) = port" if "0 < port" "port < 65536"
    using that by (simp add: uint_word_of_int)
  then show ?thesis by (auto simp: slot_defs split: if_splits)
qed

theorem requests_checked_witness:
  "snd (connectToServer (qs ''h'') 8080 new_controller) = Some (CallConnect (qs ''h'') 8080) \<and>
   uint (8080 :: 16 word) = 8080"
proof -
  have "snd (connectToServer (qs ''h'') 8080 new_controller) = Some (CallConnect (qs ''h'') 8080)"
    using requests_checked [of "qs ''h''" 8080 new_controller]
    by (simp add: new_controller_def)
  then show ?thesis using requests_checked [of "qs ''h''" 8080 new_controller] by blast
qed

end
