(* ===== verification/ClientApp.thy ===== *)
theory ClientApp
  imports ChatBackend LoginController
begin

text \<open>
  \<open>client/main.cpp\<close>: the client application. \<open>main\<close> makes one \<open>ChatClient\<close>, one \<open>ChatBackend\<close> and
  one \<open>LoginController\<close>, in this order, so that a signal of the client reaches the backend's slot
  before the controller's, and connects the controller's \<open>authenticated\<close> to the backend. The QML
  views call the invokable operations; the network and the timers do the rest.
\<close>

section \<open>Start\<close>

text \<open>The arguments as \<open>fromLocal8Bit(...).toLower()\<close> yields them; the first is the program.\<close>

fun test_flag :: "qstring list \<Rightarrow> bool" where
  "test_flag [] = False"
| "test_flag (arg # args) =
     (if arg = qs ''--test-chat'' \<or> arg = qs ''--direct-chat'' \<or> arg = qs ''-t'' then True
      else test_flag args)"

record client_app =
  app_client :: chat_client
  app_backend :: chat_backend
  app_login :: login_controller
  app_test :: bool

definition start_app :: "qstring list \<Rightarrow> client_app" where
  "start_app argv = \<lparr>app_client = new_chat_client, app_backend = new_backend,
     app_login = new_controller, app_test = test_flag (drop 1 argv)\<rparr>"

section \<open>Signals\<close>

text \<open>A signal of the controller; only \<open>authenticated\<close> has slots in C++.\<close>

fun on_lc_signal :: "qt \<Rightarrow> lc_signal \<Rightarrow> client_app \<Rightarrow> client_app" where
  "on_lc_signal Q (SigAuthenticated user) a =
     (let b1 = fst (setCurrentUser user (app_backend a));
          b2 = (if app_test a then populateTestData Q b1 else b1)
      in a\<lparr>app_backend := b2\<rparr>)"
| "on_lc_signal Q sig a = a"

definition deliver :: "qt \<Rightarrow> client_signal \<Rightarrow> client_app \<Rightarrow> client_app" where
  "deliver Q sig a =
     (let a1 = a\<lparr>app_backend := fst (backend_slot Q sig (app_backend a))\<rparr>;
          (l, sigs) = lc_slot sig (app_login a1)
      in fold (on_lc_signal Q) sigs (a1\<lparr>app_login := l\<rparr>))"

text \<open>The client acts and its signals reach their slots.\<close>

definition client_acts ::
  "qt \<Rightarrow> (chat_client \<Rightarrow> chat_client \<times> client_signal list) \<Rightarrow> client_app \<Rightarrow> client_app" where
  "client_acts Q act a =
     (case act (app_client a) of (c, sigs) \<Rightarrow> fold (deliver Q) sigs (a\<lparr>app_client := c\<rparr>))"

section \<open>Events\<close>

type_synonym connect_outcome = "socket_event list \<times> socket_state"

datatype app_event =
    UiConnect qstring int connect_outcome
  | UiLogin qstring qstring
  | UiRegister qstring qstring
  | UiBackendConnect qstring int connect_outcome
  | UiBackendLogin qstring qstring
  | UiBackendRegister qstring qstring
  | UiSend qstring
  | UiPrivate qstring qstring
  | UiHistory qstring
  | UiDisconnect
  | UiLogout
  | UiSetUser qstring
  | UiTestData
  | UiAddSession qstring bool
  | UiClearUnread qstring
  | UiConversation qstring
  | NetEvent socket_event
  | ConnectTimedOut
  | LoginTimedOut

text \<open>An operation that may end in a call of the client.\<close>

fun then_call :: "qt \<Rightarrow> connect_outcome \<Rightarrow> client_call option \<Rightarrow> client_app \<Rightarrow> client_app" where
  "then_call Q out None a = a"
| "then_call Q out (Some call) a = client_acts Q (client_run Q out call) a"

definition by_controller ::
  "qt \<Rightarrow> connect_outcome \<Rightarrow>
   (login_controller \<Rightarrow> (login_controller \<times> lc_signal list) \<times> client_call option) \<Rightarrow>
   client_app \<Rightarrow> client_app" where
  "by_controller Q out act a =
     (case act (app_login a) of ((l, sigs), call) \<Rightarrow> then_call Q out call (a\<lparr>app_login := l\<rparr>))"

definition by_backend :: "qt \<Rightarrow> connect_outcome \<Rightarrow> backend_request \<Rightarrow> client_app \<Rightarrow> client_app" where
  "by_backend Q out act a =
     (case act (app_backend a) of ((b, sigs), call) \<Rightarrow> then_call Q out call (a\<lparr>app_backend := b\<rparr>))"

abbreviation no_connect :: connect_outcome where "no_connect \<equiv> ([], Unconnected)"

fun app_run :: "qt \<Rightarrow> app_event \<Rightarrow> client_app \<Rightarrow> client_app" where
  "app_run Q (UiConnect host port out) a = by_controller Q out (connectToServer host port) a"
| "app_run Q (UiLogin u p) a =
     by_controller Q no_connect (lc_login Q (is_connected (app_client a)) u p) a"
| "app_run Q (UiRegister u p) a =
     by_controller Q no_connect (lc_registerUser Q (is_connected (app_client a)) u p) a"
| "app_run Q (UiBackendConnect host port out) a = by_backend Q out (backend_connectToServer host port) a"
| "app_run Q (UiBackendLogin u p) a = by_backend Q no_connect (backend_login u p) a"
| "app_run Q (UiBackendRegister u p) a = by_backend Q no_connect (backend_registerUser u p) a"
| "app_run Q (UiSend text') a = by_backend Q no_connect (sendMessage text') a"
| "app_run Q (UiPrivate to text') a = by_backend Q no_connect (sendPrivate Q to text') a"
| "app_run Q (UiHistory target) a = by_backend Q no_connect (requestHistory target) a"
| "app_run Q UiDisconnect a = by_backend Q no_connect disconnectFromServer a"
| "app_run Q UiLogout a = by_backend Q no_connect logout a"
| "app_run Q (UiSetUser u) a = a\<lparr>app_backend := fst (setCurrentUser u (app_backend a))\<rparr>"
| "app_run Q UiTestData a = a\<lparr>app_backend := populateTestData Q (app_backend a)\<rparr>"
| "app_run Q (UiAddSession t room) a = a\<lparr>app_backend := backend_addSession t room (app_backend a)\<rparr>"
| "app_run Q (UiClearUnread t) a = a\<lparr>app_backend := backend_clearUnread t (app_backend a)\<rparr>"
| "app_run Q (UiConversation u) a = a\<lparr>app_backend := fst (privateMessages u (app_backend a))\<rparr>"
| "app_run Q (NetEvent ev) a = client_acts Q (socket_event Q ev) a"
| "app_run Q ConnectTimedOut a =
     fold (on_lc_signal Q) (snd (onConnectTimeout (app_login a)))
       (a\<lparr>app_login := fst (onConnectTimeout (app_login a))\<rparr>)"
| "app_run Q LoginTimedOut a =
     fold (on_lc_signal Q) (snd (onLoginTimeout (app_login a)))
       (a\<lparr>app_login := fst (onLoginTimeout (app_login a))\<rparr>)"

text \<open>
  What can happen: \<open>connectToHost\<close> starts an attempt, succeeds or fails at once; a socket reports
  what its state allows (a refused attempt leaves it unconnected, an error of an established
  connection is reported before the \<open>disconnected\<close> it leads to); a timer that runs can time out.
\<close>

definition outcome_ok :: "connect_outcome \<Rightarrow> bool" where
  "outcome_ok out \<longleftrightarrow> out \<in> {([], SocketConnecting), ([EvConnected], SocketConnected),
     ([], Unconnected), ([EvError Unconnected], Unconnected)}"

fun socket_can :: "socket_state option \<Rightarrow> socket_event \<Rightarrow> bool" where
  "socket_can (Some SocketConnecting) EvConnected = True"
| "socket_can (Some SocketConnecting) (EvError st) = (st = Unconnected)"
| "socket_can (Some SocketConnected) (EvReadyRead bs) = True"
| "socket_can (Some SocketConnected) EvDisconnected = True"
| "socket_can (Some SocketConnected) (EvError st) = (st = SocketConnected)"
| "socket_can _ _ = False"

fun app_enabled :: "app_event \<Rightarrow> client_app \<Rightarrow> bool" where
  "app_enabled (UiConnect host port out) a = outcome_ok out"
| "app_enabled (UiBackendConnect host port out) a = outcome_ok out"
| "app_enabled (NetEvent ev) a = socket_can (socket (app_client a)) ev"
| "app_enabled ConnectTimedOut a = connectTimer (app_login a)"
| "app_enabled LoginTimedOut a = loginTimer (app_login a)"
| "app_enabled _ a = True"

text \<open>
  The views connect through the controller only; \<open>backend_connects\<close> allows the backend's own
  operation as well.
\<close>

fun is_backend_connect :: "app_event \<Rightarrow> bool" where
  "is_backend_connect (UiBackendConnect _ _ _) = True"
| "is_backend_connect _ = False"

inductive app_reaches :: "qt \<Rightarrow> bool \<Rightarrow> client_app \<Rightarrow> client_app \<Rightarrow> bool" for Q backend_connects a where
  app_start: "app_reaches Q backend_connects a a"
| app_next: "app_reaches Q backend_connects a a1 \<Longrightarrow> app_enabled e a1 \<Longrightarrow>
     (is_backend_connect e \<longrightarrow> backend_connects) \<Longrightarrow> app_reaches Q backend_connects a (app_run Q e a1)"

section \<open>Frames\<close>

lemma on_lc_signal_frame [simp]:
  "app_client (on_lc_signal Q s a) = app_client a"
  "app_login (on_lc_signal Q s a) = app_login a"
  "app_test (on_lc_signal Q s a) = app_test a"
  by (cases s; simp add: Let_def)+

lemma fold_lc_signal_frame [simp]:
  "app_client (fold (on_lc_signal Q) ss a) = app_client a"
  "app_login (fold (on_lc_signal Q) ss a) = app_login a"
  "app_test (fold (on_lc_signal Q) ss a) = app_test a"
  by (induction ss arbitrary: a) simp_all

lemma deliver_frame [simp]:
  "app_client (deliver Q sig a) = app_client a"
  "app_login (deliver Q sig a) = fst (lc_slot sig (app_login a))"
  "app_test (deliver Q sig a) = app_test a"
  by (simp_all add: deliver_def case_prod_unfold Let_def)

definition lc_slots :: "client_signal list \<Rightarrow> login_controller \<Rightarrow> login_controller" where
  "lc_slots sigs l = fold (\<lambda>sig l. fst (lc_slot sig l)) sigs l"

lemma lc_slots_simps [simp]:
  "lc_slots [] l = l"
  "lc_slots (sig # sigs) l = lc_slots sigs (fst (lc_slot sig l))"
  "lc_slots (sigs @ sigs') l = lc_slots sigs' (lc_slots sigs l)"
  by (simp_all add: lc_slots_def)

lemma fold_deliver_frame [simp]:
  "app_client (fold (deliver Q) sigs a) = app_client a"
  "app_login (fold (deliver Q) sigs a) = lc_slots sigs (app_login a)"
  "app_test (fold (deliver Q) sigs a) = app_test a"
  by (induction sigs arbitrary: a) simp_all

lemma client_acts_frame [simp]:
  "app_client (client_acts Q act a) = fst (act (app_client a))"
  "app_login (client_acts Q act a) = lc_slots (snd (act (app_client a))) (app_login a)"
  "app_test (client_acts Q act a) = app_test a"
  by (simp_all add: client_acts_def case_prod_unfold)

section \<open>What a read reports\<close>

fun data_signal :: "client_signal \<Rightarrow> bool" where
  "data_signal SigConnected = False"
| "data_signal SigDisconnected = False"
| "data_signal (SigConnectionError e) = False"
| "data_signal _ = True"

lemma dispatch_data: "list_all data_signal (snd (dispatch_message Q m c))"
  by (simp add: dispatch_message_def Let_def)

text \<open>
  A read of an established connection reports data, and either leaves the connection as it is or
  ends it, reporting that last.
\<close>

definition read_outcome :: "chat_client \<Rightarrow> chat_client \<times> client_signal list \<Rightarrow> bool" where
  "read_outcome c r \<longleftrightarrow> \<not> is_connecting (fst r) \<and> peer (fst r) = peer c \<and>
     (\<exists>ds. list_all data_signal ds \<and>
       (socket (fst r) = Some SocketConnected \<and> snd r = ds \<or>
        socket (fst r) = Some Unconnected \<and> snd r = ds @ [SigDisconnected]))"

lemma read_outcome_prefix:
  "read_outcome c' r \<Longrightarrow> list_all data_signal ds \<Longrightarrow> peer c' = peer c \<Longrightarrow>
   read_outcome c (fst r, ds @ snd r)"
  unfolding read_outcome_def by (elim conjE exE, intro conjI exI [of _ "ds @ ds'" for ds']) auto

lemma disconnect_connected:
  assumes "abort_documented Q" "socket c = Some SocketConnected" "\<not> is_connecting c"
  shows "disconnect_from_server Q c = (c\<lparr>socket := Some Unconnected, recv_buffer := []\<rparr>, [SigDisconnected])"
  using assms by (simp add: disconnect_from_server_def abort_documented_def on_socket_disconnected_def Let_def)

lemma dispatch_peer [simp]: "peer (fst (dispatch_message Q m c)) = peer c"
  by (simp add: dispatch_message_def Let_def send_json_def)

lemma process_outcome:
  assumes "abort_documented Q"
  shows "socket c = Some SocketConnected \<Longrightarrow> \<not> is_connecting c \<Longrightarrow> read_outcome c (process_frames Q c)"
proof (induction "length (recv_buffer c)" arbitrary: c rule: less_induct)
  case less
  show ?case
  proof (cases "client_next_frame (recv_buffer c)")
    case NeedMore
    with less.prems show ?thesis
      by (simp add: process_frames.simps [of Q c] read_outcome_def)
  next
    case (Frame body rest)
    let ?c = "c\<lparr>recv_buffer := rest\<rparr>"
    have shorter: "length rest < length (recv_buffer c)"
      using client_next_frame_shrinks [OF Frame] .
    then have skip: "read_outcome c (process_frames Q ?c)"
      using less.hyps [of ?c] less.prems by (simp add: read_outcome_def)
    have dispatch: "read_outcome c (fst (process_frames Q c'), snd (dispatch_message Q m ?c) @ snd (process_frames Q c'))"
      if "c' = fst (dispatch_message Q m ?c)" for m c'
      using less.hyps [of c'] less.prems shorter that
      by (intro read_outcome_prefix [of c'] dispatch_data) simp_all
    show ?thesis
    proof (cases "\<exists>m. qt_parse Q body = Some (QObject m)")
      case True
      then obtain m where "qt_parse Q body = Some (QObject m)" by blast
      with Frame dispatch [OF refl] show ?thesis
        by (simp add: process_frames.simps [of Q c] Let_def)
    next
      case False
      with Frame skip show ?thesis
        by (auto simp: process_frames.simps [of Q c] Let_def split: option.split qjson.split)
    qed
  qed (use less.prems in \<open>simp_all add: process_frames.simps [of Q c] disconnect_connected [OF assms]
      read_outcome_def\<close>)
qed

lemma read_outcome_on_ready_read:
  "abort_documented Q \<Longrightarrow> socket c = Some SocketConnected \<Longrightarrow> \<not> is_connecting c \<Longrightarrow>
   read_outcome c (on_ready_read Q bs c)"
  using process_outcome [of Q "c\<lparr>recv_buffer := recv_buffer c @ bs\<rparr>"]
  by (simp add: on_ready_read_def read_outcome_def)

section \<open>The invariant\<close>

definition login_inv :: "chat_client \<Rightarrow> login_controller \<Rightarrow> bool" where
  "login_inv c l \<longleftrightarrow>
     (is_connecting c \<longrightarrow> socket c \<noteq> Some SocketConnected) \<and>
     (m_isConnecting l \<longrightarrow> is_connecting c \<and> connectTimer l \<and> m_state l = Connecting) \<and>
     (m_state l = Connecting \<longrightarrow> m_isConnecting l) \<and>
     (m_isLoading l \<longrightarrow> connectTimer l \<or> loginTimer l)"

definition session_inv :: "chat_client \<Rightarrow> login_controller \<Rightarrow> bool" where
  "session_inv c l \<longleftrightarrow> (m_state l = Authenticated \<longrightarrow> socket c = Some SocketConnected)"

lemmas inv_defs = login_inv_def session_inv_def

text \<open>Data do not touch the connection.\<close>

lemma data_slots:
  "list_all data_signal ds \<Longrightarrow> \<not> m_isConnecting l \<Longrightarrow> m_state l \<noteq> Connecting \<Longrightarrow>
   (m_isLoading l \<longrightarrow> connectTimer l \<or> loginTimer l) \<Longrightarrow>
   \<not> m_isConnecting (lc_slots ds l) \<and> m_state (lc_slots ds l) \<noteq> Connecting \<and>
   (m_isLoading (lc_slots ds l) \<longrightarrow> connectTimer (lc_slots ds l) \<or> loginTimer (lc_slots ds l))"
proof (induction ds arbitrary: l)
  case (Cons sig ds)
  then show ?case by (cases sig) (auto simp: slot_defs)
qed simp

lemma socket_event_inv:
  assumes "abort_documented Q" "socket_can (socket c) ev" "login_inv c l"
  shows "login_inv (fst (socket_event Q ev c)) (lc_slots (snd (socket_event Q ev c)) l) \<and>
    (session_inv c l \<longrightarrow>
     session_inv (fst (socket_event Q ev c)) (lc_slots (snd (socket_event Q ev c)) l))"
proof (cases ev)
  case (EvReadyRead bs)
  with assms(2) have s: "socket c = Some SocketConnected"
    by (cases "socket c" rule: option.exhaust) (auto elim: socket_can.elims)
  with assms(3) have l: "\<not> is_connecting c" "\<not> m_isConnecting l" "m_state l \<noteq> Connecting"
    "m_isLoading l \<longrightarrow> connectTimer l \<or> loginTimer l"
    by (auto simp: inv_defs)
  from read_outcome_on_ready_read [OF assms(1) s l(1), of bs] obtain ds where
    r: "\<not> is_connecting (fst (on_ready_read Q bs c))" "list_all data_signal ds"
      "socket (fst (on_ready_read Q bs c)) = Some SocketConnected \<and> snd (on_ready_read Q bs c) = ds \<or>
       socket (fst (on_ready_read Q bs c)) = Some Unconnected \<and>
         snd (on_ready_read Q bs c) = ds @ [SigDisconnected]"
    by (auto simp: read_outcome_def)
  from r(3) show ?thesis
    using r(1) data_slots [OF r(2) l(2-)] EvReadyRead
    by (elim disjE) (simp_all add: inv_defs, simp add: slot_defs)
next
  case EvConnected
  with assms show ?thesis
    by (auto simp: on_socket_connected_def inv_defs slot_defs)
next
  case EvDisconnected
  with assms show ?thesis
    by (auto simp: on_socket_disconnected_def inv_defs slot_defs Let_def elim: socket_can.elims)
next
  case (EvError st)
  with assms show ?thesis
    by (auto simp: on_socket_error_def inv_defs slot_defs elim: socket_can.elims)
qed

lemma connect_inv:
  assumes "outcome_ok out" "login_inv c l" "\<not> is_connecting c"
    and "m_isConnecting l' \<longrightarrow> connectTimer l' \<and> m_state l' = Connecting"
    and "m_state l' = Connecting \<longrightarrow> m_isConnecting l'"
    and "m_isLoading l' \<longrightarrow> connectTimer l' \<or> loginTimer l'"
  shows "login_inv (fst (client_run Q out (CallConnect host port) c))
    (lc_slots (snd (client_run Q out (CallConnect host port) c)) l')"
  using assms unfolding outcome_ok_def
  by (auto simp: connect_to_server_def setup_socket_def on_socket_connected_def on_socket_error_def
      inv_defs slot_defs Let_def)

lemma connect_ignored:
  "is_connecting c \<Longrightarrow> client_run Q out (CallConnect host port) c = (c, [])"
  by (simp add: connect_to_server_def)

lemma disconnect_inv:
  assumes "abort_documented Q" "login_inv c l"
  shows "login_inv (fst (disconnect_from_server Q c)) (lc_slots (snd (disconnect_from_server Q c)) l) \<and>
    (session_inv c l \<longrightarrow> session_inv (fst (disconnect_from_server Q c)) (lc_slots (snd (disconnect_from_server Q c)) l))"
proof (cases "socket c")
  case (Some st)
  show ?thesis
  proof (cases st)
    case SocketConnected
    with assms Some have "\<not> is_connecting c" by (simp add: inv_defs)
    with assms SocketConnected Some show ?thesis
      by (simp add: disconnect_connected) (simp add: inv_defs slot_defs)
  qed (use assms Some in \<open>simp_all add: disconnect_from_server_def abort_documented_def inv_defs\<close>)
qed (use assms in \<open>simp add: disconnect_from_server_def\<close>)

text \<open>The other calls only write.\<close>

lemma writes [simp]:
  "socket (send_json Q m c) = socket c" "is_connecting (send_json Q m c) = is_connecting c"
  "peer (send_json Q m c) = peer c"
  by (simp_all add: send_json_def)

lemmas send_defs = send_register_def send_login_def send_logout_def send_broadcast_def
  send_private_def send_history_req_def

lemma inv_send: "login_inv (send_json Q m c) l = login_inv c l" "session_inv (send_json Q m c) l = session_inv c l"
  by (simp_all add: inv_defs)

lemma session_connect:
  "login_inv c l \<Longrightarrow> outcome_ok out \<Longrightarrow>
   m_state l' \<noteq> Authenticated \<Longrightarrow> session_inv (fst (client_run Q out (CallConnect host port) c))
     (lc_slots (snd (client_run Q out (CallConnect host port) c)) l')"
  unfolding outcome_ok_def
  by (auto simp: connect_to_server_def on_socket_connected_def on_socket_error_def
      session_inv_def slot_defs Let_def setup_socket_def)

lemma then_call_frame [simp]:
  "app_client (then_call Q out call a) =
     (case call of None \<Rightarrow> app_client a | Some k \<Rightarrow> fst (client_run Q out k (app_client a)))"
  "app_login (then_call Q out call a) =
     (case call of None \<Rightarrow> app_login a | Some k \<Rightarrow> lc_slots (snd (client_run Q out k (app_client a))) (app_login a))"
  by (cases call; simp)+

lemma by_controller_frame [simp]:
  "app_client (by_controller Q out act a) =
     (case snd (act (app_login a)) of None \<Rightarrow> app_client a | Some k \<Rightarrow> fst (client_run Q out k (app_client a)))"
  "app_login (by_controller Q out act a) =
     (case snd (act (app_login a)) of None \<Rightarrow> fst (fst (act (app_login a)))
      | Some k \<Rightarrow> lc_slots (snd (client_run Q out k (app_client a))) (fst (fst (act (app_login a)))))"
  by (simp_all add: by_controller_def case_prod_unfold split: option.split)

lemma by_backend_frame [simp]:
  "app_client (by_backend Q out act a) =
     (case snd (act (app_backend a)) of None \<Rightarrow> app_client a | Some k \<Rightarrow> fst (client_run Q out k (app_client a)))"
  "app_login (by_backend Q out act a) =
     (case snd (act (app_backend a)) of None \<Rightarrow> app_login a
      | Some k \<Rightarrow> lc_slots (snd (client_run Q out k (app_client a))) (app_login a))"
  by (simp_all add: by_backend_def case_prod_unfold split: option.split)

lemmas backend_request_defs = backend_connectToServer_def backend_login_def backend_registerUser_def
  sendMessage_def sendPrivate_def requestHistory_def disconnectFromServer_def logout_def

lemma ui_connect_inv:
  assumes "outcome_ok out" "login_inv c l" "session_inv c l \<or> free"
    and "call = snd (connectToServer host port l)" "l' = fst (fst (connectToServer host port l))"
  shows "case call of
      None \<Rightarrow> login_inv c l' \<and> (free \<or> session_inv c l')
    | Some k \<Rightarrow> login_inv (fst (client_run Q out k c)) (lc_slots (snd (client_run Q out k c)) l') \<and>
        (free \<or> session_inv (fst (client_run Q out k c)) (lc_slots (snd (client_run Q out k c)) l'))"
proof (cases "call = None")
  case True
  with assms show ?thesis by (auto simp: connectToServer_def inv_defs split: if_splits)
next
  case False
  then have call: "call = Some (CallConnect host (of_int port))"
    and l': "m_isConnecting l'" "connectTimer l'" "m_state l' = Connecting" "m_isLoading l'"
    using assms(4,5) by (auto simp: connectToServer_def split: if_splits)
  show ?thesis
  proof (cases "is_connecting c")
    case True
    with call l' assms(2) show ?thesis by (simp add: connect_to_server_def inv_defs)
  next
    case not: False
    with connect_inv [OF assms(1,2) not, of l'] session_connect [OF assms(2,1), of l'] l' call
    show ?thesis by simp
  qed
qed

lemma ui_credentials_inv:
  assumes "login_inv c l" "session_inv c l \<or> free"
    and "r = credentials_action mk Q (is_connected c) u p l"
    and "\<And>u p. mk u p = CallLogin u p \<or> mk u p = CallRegister u p"
  shows "case snd r of
      None \<Rightarrow> login_inv c (fst (fst r)) \<and> (free \<or> session_inv c (fst (fst r)))
    | Some k \<Rightarrow> login_inv (fst (client_run Q out k c)) (lc_slots (snd (client_run Q out k c)) (fst (fst r))) \<and>
        (free \<or> session_inv (fst (client_run Q out k c)) (lc_slots (snd (client_run Q out k c)) (fst (fst r))))"
proof -
  have "client_run Q out (mk u' p') c = (fst (client_run Q out (mk u' p') c), []) \<and>
      login_inv (fst (client_run Q out (mk u' p') c)) l' = login_inv c l' \<and>
      session_inv (fst (client_run Q out (mk u' p') c)) l' = session_inv c l'" for u' p' l'
    using assms(4) [of u' p'] by (auto simp: send_defs inv_send)
  then have k: "snd (client_run Q out (mk u' p') c) = []"
      "login_inv (fst (client_run Q out (mk u' p') c)) l' = login_inv c l'"
      "session_inv (fst (client_run Q out (mk u' p') c)) l' = session_inv c l'" for u' p' l'
    by (metis snd_conv, blast+)
  show ?thesis
    using assms(1-3) by (auto simp: credentials_action_def k split: if_splits)
      (auto simp: inv_defs is_connected_def)
qed

lemma app_run_inv:
  assumes "abort_documented Q" "app_enabled e a" "is_backend_connect e \<longrightarrow> free"
    and inv: "login_inv (app_client a) (app_login a)" "session_inv (app_client a) (app_login a) \<or> free"
  shows "login_inv (app_client (app_run Q e a)) (app_login (app_run Q e a)) \<and>
    (free \<or> session_inv (app_client (app_run Q e a)) (app_login (app_run Q e a)))"
proof (cases e)
  case (UiConnect host port out)
  with ui_connect_inv [where Q = Q and out = out, OF _ inv refl refl, of host port] assms(2) show ?thesis
    by (simp split: option.splits)
next
  case (UiLogin u p)
  with ui_credentials_inv [where mk = CallLogin and out = no_connect, OF inv refl, of Q u p] show ?thesis
    by (simp add: lc_login_def split: option.splits)
next
  case (UiRegister u p)
  with ui_credentials_inv [where mk = CallRegister and out = no_connect, OF inv refl, of Q u p] show ?thesis
    by (simp add: lc_registerUser_def split: option.splits)
next
  case (UiBackendConnect host port out)
  show ?thesis
  proof (cases "is_connecting (app_client a)")
    case False
    with inv(1) have l: "\<not> m_isConnecting (app_login a)" "m_state (app_login a) \<noteq> Connecting"
      "m_isLoading (app_login a) \<longrightarrow> connectTimer (app_login a) \<or> loginTimer (app_login a)"
      by (auto simp: inv_defs)
    have "outcome_ok out" free using UiBackendConnect assms(2,3) by simp_all
    with connect_inv [where Q = Q and host = host and port = "word_of_int port" and l' = "app_login a",
        OF _ inv(1) False, of out] l UiBackendConnect
    show ?thesis by (simp add: backend_request_defs)
  qed (use UiBackendConnect inv assms(3) in \<open>auto simp: backend_request_defs connect_to_server_def\<close>)
next
  case UiDisconnect
  from disconnect_inv [OF assms(1) inv(1)] inv(2) UiDisconnect
  show ?thesis by (auto simp: backend_request_defs)
next
  case (NetEvent ev)
  with assms(2) have "socket_can (socket (app_client a)) ev" by simp
  from socket_event_inv [OF assms(1) this inv(1)] inv(2) NetEvent
  show ?thesis by auto
next
  case ConnectTimedOut
  with inv show ?thesis by (auto simp: inv_defs slot_defs)
next
  case LoginTimedOut
  with inv show ?thesis by (auto simp: inv_defs slot_defs)
qed (use inv in \<open>auto simp: backend_request_defs send_defs inv_send\<close>)

lemma start_inv:
  "login_inv (app_client (start_app argv)) (app_login (start_app argv)) \<and>
   session_inv (app_client (start_app argv)) (app_login (start_app argv))"
  by (simp add: start_app_def inv_defs new_controller_def new_chat_client_def)

lemma reaches_inv:
  assumes "abort_documented Q" "app_reaches Q free (start_app argv) a"
  shows "login_inv (app_client a) (app_login a) \<and> (free \<or> session_inv (app_client a) (app_login a))"
  using assms(2)
proof induction
  case (app_next a1 e)
  then show ?case using app_run_inv [OF assms(1), of e a1 free] by blast
qed (use start_inv in blast)

section \<open>Unread counters\<close>

definition unread_zero :: "chat_backend \<Rightarrow> bool" where
  "unread_zero b \<longleftrightarrow> list_all (\<lambda>s. unreadCount s = 0) (m_sessions b)"

lemma unread_zero_addSession [simp]: "unread_zero b \<Longrightarrow> unread_zero (backend_addSession t room b)"
  by (auto simp: unread_zero_def backend_addSession_def addSession_def new_item_def)

lemma unread_zero_clearUnread [simp]: "unread_zero b \<Longrightarrow> unread_zero (backend_clearUnread t b)"
  by (auto simp: unread_zero_def backend_clearUnread_def clearUnread_def list_all_iff
      dest: set_update_subset_insert [THEN subsetD] split: option.split)

lemma unread_zero_slot: "unread_zero (fst (backend_slot Q sig b)) = unread_zero b"
  by (cases sig) (simp_all add: unread_zero_def Let_def)

lemma sessions_test_messages:
  "m_sessions (fold (\<lambda>oper. on_room (message_run Q oper)) ops b) = m_sessions b"
  by (induction ops arbitrary: b) simp_all

lemma unread_zero_test_data [simp]: "unread_zero b \<Longrightarrow> unread_zero (populateTestData Q b)"
  unfolding populateTestData_def Let_def
  by (intro unread_zero_addSession) (simp add: unread_zero_def sessions_test_messages)

lemma unread_zero_setCurrentUser [simp]: "unread_zero (fst (setCurrentUser u b)) = unread_zero b"
  by (simp add: setCurrentUser_def unread_zero_def)

lemma unread_zero_lc_signal: "unread_zero (app_backend a) \<Longrightarrow> unread_zero (app_backend (on_lc_signal Q s a))"
  by (cases s) (simp_all add: Let_def)

lemma unread_zero_lc_signals:
  "unread_zero (app_backend a) \<Longrightarrow> unread_zero (app_backend (fold (on_lc_signal Q) ss a))"
  by (induction ss arbitrary: a) (simp_all add: unread_zero_lc_signal)

lemma unread_zero_deliver:
  "unread_zero (app_backend a) \<Longrightarrow> unread_zero (app_backend (fold (deliver Q) sigs a))"
  by (induction sigs arbitrary: a)
    (simp_all add: deliver_def Let_def case_prod_unfold unread_zero_lc_signals unread_zero_slot)

lemma unread_zero_calls:
  "unread_zero (app_backend a) \<Longrightarrow> unread_zero (app_backend (client_acts Q act a))"
  "unread_zero (app_backend a) \<Longrightarrow> unread_zero (app_backend (then_call Q out call a))"
  by (cases call; simp add: client_acts_def case_prod_unfold unread_zero_deliver)+

lemma unread_zero_requests:
  "unread_zero (app_backend a) \<Longrightarrow> unread_zero (app_backend (by_controller Q out lact a))"
  "unread_zero (app_backend a) \<Longrightarrow> unread_zero (fst (fst (bact (app_backend a)))) \<Longrightarrow>
   unread_zero (app_backend (by_backend Q out bact a))"
  by (simp_all add: by_controller_def by_backend_def case_prod_unfold unread_zero_calls)

lemma unread_zero_backend_requests:
  "unread_zero (fst (fst (backend_connectToServer h p b))) = unread_zero b"
  "unread_zero (fst (fst (backend_login u pw b))) = unread_zero b"
  "unread_zero (fst (fst (backend_registerUser u pw b))) = unread_zero b"
  "unread_zero (fst (fst (sendMessage c b))) = unread_zero b"
  "unread_zero (fst (fst (sendPrivate Q u c b))) = unread_zero b"
  "unread_zero (fst (fst (requestHistory u b))) = unread_zero b"
  "unread_zero (fst (fst (disconnectFromServer b))) = unread_zero b"
  "unread_zero (fst (fst (logout b))) = unread_zero b"
  by (simp_all add: backend_request_defs unread_zero_def)

lemma unread_zero_run:
  "unread_zero (app_backend a) \<Longrightarrow> unread_zero (app_backend (app_run Q e a))"
proof (cases e)
  case (UiConversation u)
  then show "unread_zero (app_backend a) \<Longrightarrow> unread_zero (app_backend (app_run Q e a))"
    by (simp add: privateMessages_def unread_zero_def split: option.split)
qed (simp_all add: unread_zero_requests unread_zero_calls unread_zero_lc_signals
    unread_zero_backend_requests)

section \<open>Properties\<close>


lemma abort_documented_sample: "abort_documented sample_qt"
  by (simp add: abort_documented_def sample_qt_def)

definition demo_run :: "app_event list" where
  "demo_run = [UiConnect (qs ''host'') 18080 ([], SocketConnecting), NetEvent EvConnected,
     UiLogin (qs ''amy'') (qs ''pw''), NetEvent (EvReadyRead [0, 0, 0, 1, 79])]"

fun all_enabled :: "qt \<Rightarrow> app_event list \<Rightarrow> client_app \<Rightarrow> bool" where
  "all_enabled Q [] a = True"
| "all_enabled Q (e # es) a \<longleftrightarrow> app_enabled e a \<and> all_enabled Q es (app_run Q e a)"

lemma all_enabled_reaches:
  "all_enabled Q es a1 \<Longrightarrow> list_all (\<lambda>e. \<not> is_backend_connect e) es \<Longrightarrow> app_reaches Q free a a1 \<Longrightarrow>
   app_reaches Q free a (fold (app_run Q) es a1)"
  by (induction es arbitrary: a1) (auto intro: app_next)


definition retry_run :: "qstring \<Rightarrow> int \<Rightarrow> qstring \<Rightarrow> int \<Rightarrow> connect_outcome \<Rightarrow> qstring \<Rightarrow> qstring \<Rightarrow> app_event list" where
  "retry_run h p h' p' out u pw =
     [UiConnect h p ([], SocketConnecting), ConnectTimedOut, UiConnect h' p' out,
      NetEvent EvConnected, UiLogin u pw]"

text \<open>
  C22. After a connection attempt times out on the login page, the client is still making it: a
  second attempt, to another server, is silently dropped although the page shows it, and when the
  first attempt succeeds in the end the page reports success and the user's name and password go
  to the first server.
\<close>

theorem retry_reaches_first_server:
  assumes "h \<noteq> []" "0 < p" "p < 65536" "h' \<noteq> []" "0 < p'" "p' < 65536" "outcome_ok out"
    and "qt_trim Q u \<noteq> []" "qt_trim Q pw \<noteq> []"
  shows "all_enabled Q (retry_run h p h' p' out u pw) (start_app argv) \<and>
    (let a = fold (app_run Q) (take 4 (retry_run h p h' p' out u pw)) (start_app argv);
         a' = app_run Q (UiLogin u pw) a
     in m_statusText (app_login a) = txt_connected \<and>
        peer (app_client a') = Some (h, word_of_int p) \<and>
        wire_out (app_client a') = client_frame (qt_print Q (qobject [(''type'', QString (qs ''LOGIN'')),
          (''from'', QString (qt_trim Q u)), (''content'', QString (qt_trim Q pw))])))"
  using assms
  by (simp add: retry_run_def start_app_def slot_defs Let_def new_controller_def new_chat_client_def
      connect_to_server_def setup_socket_def on_socket_connected_def is_connected_def send_login_def
      send_json_def outcome_ok_def)

theorem retry_reaches_first_server_witness:
  "peer (app_client (app_run sample_qt (UiLogin (qs ''amy'') (qs ''pw''))
     (fold (app_run sample_qt) (take 4 (retry_run (qs ''old'') 1 (qs ''new'') 2 ([], Unconnected)
       (qs ''amy'') (qs ''pw''))) (start_app [])))) = Some (qs ''old'', 1)"
  using retry_reaches_first_server [of "qs ''old''" 1 "qs ''new''" 2 "([], Unconnected)" sample_qt
      "qs ''amy''" "qs ''pw''" "[]"]
  by (simp add: outcome_ok_def sample_qt_def Let_def)

definition stuck :: "chat_client \<Rightarrow> bool" where
  "stuck c \<longleftrightarrow> is_connecting c \<and> socket c = Some Unconnected"

lemma stuck_calls: "abort_documented Q \<Longrightarrow> stuck c \<Longrightarrow> stuck (fst (client_run Q out call c))"
  by (cases call) (auto simp: stuck_def send_defs connect_to_server_def disconnect_from_server_def
      abort_documented_def)

lemma stuck_run:
  assumes "abort_documented Q" "app_enabled e a" "stuck (app_client a)"
  shows "stuck (app_client (app_run Q e a))"
proof (cases e)
  case (NetEvent ev)
  with assms(2,3) show ?thesis by (cases ev) (simp_all add: stuck_def)
qed (use assms in \<open>simp_all add: stuck_calls split: option.split\<close>)

text \<open>
  Disconnecting while an attempt is under way leaves the client stuck: it never connects again,
  whatever the user, the network and the timers do until the application ends.
\<close>

theorem disconnect_while_connecting_sticks:
  assumes "abort_documented Q" "h \<noteq> []" "0 < p" "p < 65536"
    and "app_reaches Q True
      (fold (app_run Q) [UiConnect h p ([], SocketConnecting), UiDisconnect] (start_app argv)) a"
  shows "is_connecting (app_client a) \<and> \<not> is_connected (app_client a)"
proof -
  have "stuck (app_client (fold (app_run Q)
      [UiConnect h p ([], SocketConnecting), UiDisconnect] (start_app argv)))"
    using assms(1-4) by (simp add: stuck_def start_app_def slot_defs new_controller_def
        new_chat_client_def connect_to_server_def setup_socket_def Let_def backend_request_defs
        disconnect_from_server_def abort_documented_def)
  with assms(5) have "stuck (app_client a)"
    by induction (simp_all add: stuck_run [OF assms(1)])
  then show ?thesis by (simp add: stuck_def is_connected_def)
qed

theorem disconnect_while_connecting_sticks_witness:
  "\<not> is_connected (app_client (fold (app_run sample_qt) [UiConnect (qs ''h'') 1 ([], SocketConnecting),
     UiDisconnect, UiConnect (qs ''h'') 1 ([EvConnected], SocketConnected)] (start_app [])))"
proof -
  let ?a = "fold (app_run sample_qt) [UiConnect (qs ''h'') 1 ([], SocketConnecting), UiDisconnect]
    (start_app [])"
  have "app_reaches sample_qt True ?a
    (app_run sample_qt (UiConnect (qs ''h'') 1 ([EvConnected], SocketConnected)) ?a)"
    by (rule app_next [OF app_start]) (simp_all add: outcome_ok_def)
  from disconnect_while_connecting_sticks [OF abort_documented_sample _ _ _ this] show ?thesis
    by simp
qed

text \<open>
  The unread counters never count: in every state the application can reach, whatever messages
  arrive, all conversations of the session list show zero, since nothing calls \<open>incrementUnread\<close>.
\<close>

theorem unread_never_counts:
  assumes "app_reaches Q True (start_app argv) a"
  shows "\<forall>s \<in> set (m_sessions (app_backend a)). unreadCount s = 0"
proof -
  have "unread_zero (app_backend a)"
    using assms by induction (simp_all add: unread_zero_run, simp add: start_app_def unread_zero_def new_backend_def)
  then show ?thesis by (simp add: unread_zero_def list_all_iff)
qed

theorem unread_never_counts_witness:
  "\<forall>s \<in> set (m_sessions (app_backend (app_run sample_qt (UiAddSession (qs ''bob'') False) (start_app [])))).
     unreadCount s = 0"
proof -
  have "app_reaches sample_qt True (start_app [])
      (app_run sample_qt (UiAddSession (qs ''bob'') False) (start_app []))"
    by (rule app_next [OF app_start]) simp_all
  from unread_never_counts [OF this] show ?thesis .
qed

end
