(* ===== verification/EndToEnd.thy ===== *)
theory EndToEnd
  imports ClientApp RouterLaws
begin

text \<open>
  Both ends together: what a client writes is what the server reads, and what the server sends is
  what the clients show. The two JSON libraries, and the conversion between UTF-16 and UTF-8 they
  imply, meet only here; the theorems assume of them what they say about the messages at hand.
\<close>

section \<open>Requests\<close>

text \<open>The JSON object of a request; connecting and disconnecting send nothing.\<close>

fun request_json :: "client_call \<Rightarrow> qjson option" where
  "request_json (CallRegister u p) = Some (qobject [(''type'', QString (qs ''REGISTER'')),
     (''from'', QString u), (''content'', QString p)])"
| "request_json (CallLogin u p) = Some (qobject [(''type'', QString (qs ''LOGIN'')),
     (''from'', QString u), (''content'', QString p)])"
| "request_json CallLogout = Some (qobject [(''type'', QString (qs ''LOGOUT''))])"
| "request_json (CallBroadcast t) = Some (qobject [(''type'', QString (qs ''BROADCAST'')),
     (''content'', QString t)])"
| "request_json (CallPrivate to t) = Some (qobject [(''type'', QString (qs ''PRIVATE'')),
     (''to'', QString to), (''content'', QString t)])"
| "request_json (CallHistoryReq t) = Some (qobject [(''type'', QString (qs ''HISTORY_REQ'')),
     (''to'', QString t)])"
| "request_json (CallConnect h p) = None"
| "request_json CallDisconnect = None"

definition calls_run :: "qt \<Rightarrow> client_call list \<Rightarrow> chat_client \<Rightarrow> chat_client" where
  "calls_run Q calls c = fold (\<lambda>k c. fst (client_run Q no_connect k c)) calls c"

lemma call_writes:
  "request_json k = Some v \<Longrightarrow> fst (client_run Q oc k c) = send_json Q v c"
  by (cases k) (auto simp: send_defs)

lemma calls_write:
  "list_all2 (\<lambda>k b. \<exists>v. request_json k = Some v \<and> b = qt_print Q v) calls bodies \<Longrightarrow>
   socket c = Some SocketConnected \<Longrightarrow>
   wire_out (calls_run Q calls c) = wire_out c @ concat (map server_frame bodies)"
proof (induction arbitrary: c rule: list_all2_induct)
  case (Cons k ks b bs)
  then obtain v where v: "request_json k = Some v" "b = qt_print Q v" by blast
  from v(1) have "fst (client_run Q no_connect k c) = send_json Q v c" by (rule call_writes)
  with Cons.IH [of "send_json Q v c"] Cons.prems v(2) show ?case
    by (simp add: calls_run_def) (simp add: send_json_def is_connected_def client_frame_eq)
qed (simp add: calls_run_def)

lemma frames_received:
  assumes "list_all2 (\<lambda>b j. parse (bytes_string b) = Parsed j) bodies msgs" "list_all body_ok bodies"
    and "concat (map concat wakeups) = concat (map server_frame bodies)"
    and "\<forall>cs \<in> set wakeups. [] \<notin> set cs \<and> length (concat cs) + 4 \<le> MAX_BODY_LEN"
    and "recv_buf s = []"
  shows "\<exists>s'. recv_wakeups parse (map serve wakeups) s = (Some msgs, s') \<and> recv_buf s' = []"
proof -
  have "concat (map server_frame bodies) = [] @ concat (map concat wakeups)"
    using assms(3) by simp
  from srv.fed_any_chunking [OF assms(2) next_frame_Nil this [symmetric] next_frame_Nil] obtain bss where
    fed: "fed next_frame [] (map concat wakeups) bss []" "concat bss = bodies"
    by blast
  from recv_wakeups_fed [OF fed(1) assms(5) next_frame_Nil assms(4)] assms(1) fed(2) show ?thesis
    by blast
qed

lemma frame_read:
  assumes "body_ok body" "concat chunks = server_frame body" "recv_buffer c = []"
  shows "snd (read_all Q chunks c) = body_signals Q body"
proof -
  have empty: "client_next_frame [] = NeedMore" by (simp add: client_next_frame_eq)
  have "concat (map client_frame [body]) = [] @ concat chunks"
    using assms(2) by (simp add: client_frame_eq)
  from cli.fed_any_chunking [OF _ empty this [symmetric] empty] assms(1) obtain bss where
    "fed client_next_frame [] chunks bss []" "concat bss = [body]" by auto
  with read_all_fed [OF this(1) assms(3), of Q] show ?thesis by simp
qed

section \<open>Properties\<close>



text \<open>
  C7. A room message from keyboard to screen: when a connected client sends a text and its session
  is logged in at the server, then whatever the fragmentation on the way, the server reads one
  BROADCAST message, hands it without an exception to everybody who is logged in, the sender
  included, with the sender's name and the server's time, and each of their clients, on reading
  that frame, appends exactly one line with this name and text to its room, marked as its own
  exactly when the name is its user's.
\<close>

theorem broadcast_end_to_end:
  assumes client: "socket a = Some SocketConnected" "wire_out a = []"
      "body_ok (qt_print Q v)" "v = qobject [(''type'', QString (qs ''BROADCAST'')), (''content'', QString text')]"
    and uplink: "concat (map concat wakeups) = wire_out (send_broadcast Q text' a)"
      "\<forall>cs \<in> set wakeups. [] \<notin> set cs \<and> length (concat cs) + 4 \<le> MAX_BODY_LEN"
      "recv_buf (session_of w i) = []"
      "parse (bytes_string (qt_print Q v)) =
        Parsed (json_object [(''type'', JString ''BROADCAST''), (''content'', JString s)])"
    and server: "iteration_order (pf_table_order pf)" "table_ok (w_server w)"
      "server_set (w_router w)" "is_authenticated (session_of w i)" "s \<noteq> []"
      "length s \<le> MAX_MESSAGE_LEN"
    and downlink: "dump (broadcast_msg (username (session_of w i)) s (clock env 0)) = Some body"
      "body_ok (string_bytes body)" "qt_parse Q' (string_bytes body) = Some (QObject m)"
      "member m ''type'' = Some (QString (qs ''BROADCAST''))" "member m ''from'' = Some (QString who)"
      "member m ''content'' = Some (QString text')"
      "concat chunks = server_frame (string_bytes body)" "recv_buffer c = []"
  shows "\<exists>msg s' w' targets.
    recv_wakeups parse (map serve wakeups) (session_of w i) = (Some [msg], s') \<and>
    route pf env i msg w = (None, w') \<and>
    mset targets = mset_set {j \<in> live_sids (w_server w). is_authenticated (session_of w j)} \<and>
    out (w_server w') = out (w_server w) @
      map (\<lambda>j. (cs_fd (session_of w j), broadcast_msg (username (session_of w i)) s (clock env 0))) targets \<and>
    m_roomMessages (backend_run Q' (snd (read_all Q' chunks c)) b) = m_roomMessages b @
      [\<lparr>sender = who, content = text',
        timestamp = qt_format_time Q' (qt_to_qint64 Q' (member m ''timestamp'')),
        isSelf = (who = m_currentUser b), messageType = normal\<rparr>]"
proof -
  let ?msg = "json_object [(''type'', JString ''BROADCAST''), (''content'', JString s)]"
  have "wire_out (send_broadcast Q text' a) = server_frame (qt_print Q v)"
    using client by (simp add: send_defs send_json_def is_connected_def client_frame_eq)
  with frames_received [of parse "[qt_print Q v]" "[?msg]" wakeups "session_of w i"] uplink client(3)
  obtain s' where 1: "recv_wakeups parse (map serve wakeups) (session_of w i) = (Some [?msg], s')"
    by auto
  have fields: "json_value ?msg ''type'' [] = Inr ''BROADCAST''" "json_value ?msg ''content'' [] = Inr s"
    by (simp_all add: json_value_object)
  obtain w' where 2: "route pf env i ?msg w = (None, w')"
    "out (w_server w') = out (w_server w) @
      map (\<lambda>j. (cs_fd (session_of w j), broadcast_msg (username (session_of w i)) s (clock env 0)))
        (broadcast_targets (pf_table_order pf) [] (w_server w))"
    using server fields by (auto simp: route_def handle_broadcast_def Let_def server_broadcast_def get_username_def)
  have "snd (read_all Q' chunks c) =
      [SigBroadcastReceived who text' (qt_to_qint64 Q' (member m ''timestamp''))]"
    using frame_read [OF downlink(2,7,8), of Q'] downlink(3-6)
    by (simp add: body_signals_def dispatch_message_def)
  then have "m_roomMessages (backend_run Q' (snd (read_all Q' chunks c)) b) = m_roomMessages b @
      [\<lparr>sender = who, content = text',
        timestamp = qt_format_time Q' (qt_to_qint64 Q' (member m ''timestamp'')),
        isSelf = (who = m_currentUser b), messageType = normal\<rparr>]"
    by (simp add: backend_run_def addMessage_def Let_def)
  moreover have "mset (broadcast_targets (pf_table_order pf) [] (w_server w)) =
      mset_set {j \<in> live_sids (w_server w). is_authenticated (session_of w j)}"
    using broadcast_targets_set [OF server(1,2), of "[]"] by simp
  ultimately show ?thesis using 1 2 by blast
qed

definition room_line :: "(qstring \<times> qjson) list" where
  "room_line = [(qs ''type'', QString (qs ''BROADCAST'')), (qs ''from'', QString (qs ''amy'')),
     (qs ''content'', QString (qs ''hi''))]"

theorem broadcast_end_to_end_witness:
  "\<exists>msg s' w'. recv_wakeups
      (\<lambda>b. Parsed (json_object [(''type'', JString ''BROADCAST''), (''content'', JString ''hi'')]))
      (map serve [[[0, 0]], [[0, 1], [112]]]) (session_of two_users 0) = (Some [msg], s') \<and>
    route sample_platform sample_env 0 msg two_users = (None, w') \<and>
    m_roomMessages (backend_run (sample_qt\<lparr>qt_parse := \<lambda>b. Some (QObject room_line)\<rparr>)
      (snd (read_all (sample_qt\<lparr>qt_parse := \<lambda>b. Some (QObject room_line)\<rparr>) [[0, 0, 0], [1, 98]] new_chat_client))
      (new_backend\<lparr>m_currentUser := qs ''bob''\<rparr>)) =
    [\<lparr>sender = qs ''amy'', content = qs ''hi'', timestamp = [], isSelf = False, messageType = normal\<rparr>]"
proof -
  let ?Q = "sample_qt\<lparr>qt_parse := \<lambda>b. Some (QObject room_line)\<rparr>"
  let ?a = "new_chat_client\<lparr>socket := Some SocketConnected\<rparr>"
  let ?v = "qobject [(''type'', QString (qs ''BROADCAST'')), (''content'', QString (qs ''hi''))]"
  have c: "char_byte (CHR ''b'') = 98" by (simp add: char_byte_def)
  have line: "member room_line ''type'' = Some (QString (qs ''BROADCAST''))"
      "member room_line ''from'' = Some (QString (qs ''amy''))"
      "member room_line ''content'' = Some (QString (qs ''hi''))"
    by (simp_all add: member_def room_line_def)
  have world: "iteration_order (pf_table_order sample_platform)" "table_ok (w_server two_users)"
      "server_set (w_router two_users)" "is_authenticated (session_of two_users 0)"
      "recv_buf (session_of two_users 0) = []"
    by (simp_all add: two_users_simps is_authenticated_def table_ok_def sample_platform_def)
      (simp add: two_users_def logged_in_def sample_world_def upt_rec accept_one_def Let_def
        new_server_def session_defs)
  note e2e = broadcast_end_to_end [where Q = ?Q and Q' = ?Q and a = ?a and v = ?v and w = two_users and i = 0
      and pf = sample_platform and env = sample_env and s = "''hi''" and text' = "qs ''hi''"
      and who = "qs ''amy''" and dump = "\<lambda>_. Some ''b''" and body = "''b''" and m = room_line
      and c = new_chat_client and chunks = "[[0, 0, 0], [1, 98]]" and b = "new_backend\<lparr>m_currentUser := qs ''bob''\<rparr>"
      and wakeups = "[[[0, 0]], [[0, 1], [112]]]"
      and parse = "\<lambda>b. Parsed (json_object [(''type'', JString ''BROADCAST''), (''content'', JString ''hi'')])"]
  have "wire_out (send_broadcast ?Q (qs ''hi'') ?a) = [0, 0, 0, 1, 112]" "body_ok (qt_print ?Q ?v)"
    by (simp_all add: send_defs send_json_def is_connected_def new_chat_client_def client_frame_eq
        server_frame_def htonl_bytes_def sample_qt_def body_ok_def MAX_BODY_LEN_def)
  with e2e show ?thesis
    using world line
    by (simp add: server_frame_def htonl_bytes_def body_ok_def MAX_BODY_LEN_def MAX_MESSAGE_LEN_def
        string_bytes_def c new_chat_client_def new_backend_def)
      (force simp: sample_qt_def)
qed

text \<open>
  C11. A private message from keyboard to screens: when a connected client sends a text to a user and its
  session is logged in at the server, then whatever the fragmentation on the way, the server reads
  one PRIVATE message and handles it without an exception; if a session of that name is in the
  table, the message with the sender's name and the server's time is stored and goes to that session and
  back to the sender, and to nobody else; otherwise the sender is told and nothing is stored. A
  client that reads the frame appends exactly one line, marked as another's, to its conversation
  with the sender, and changes no other conversation and not the room.
\<close>

theorem private_end_to_end:
  assumes client: "socket a = Some SocketConnected" "wire_out a = []" "body_ok (qt_print Q v)"
      "v = qobject [(''type'', QString (qs ''PRIVATE'')), (''to'', QString addressee), (''content'', QString text')]"
    and uplink: "concat (map concat wakeups) = wire_out (send_private Q addressee text' a)"
      "\<forall>cs \<in> set wakeups. [] \<notin> set cs \<and> length (concat cs) + 4 \<le> MAX_BODY_LEN"
      "recv_buf (session_of w i) = []"
      "parse (bytes_string (qt_print Q v)) = Parsed (json_object
        [(''type'', JString ''PRIVATE''), (''to'', JString to), (''content'', JString s)])"
    and server: "iteration_order (pf_table_order pf)" "table_ok (w_server w)" "server_set (w_router w)"
      "unique_online (w_server w)" "i \<in> live_sids (w_server w)" "is_authenticated (session_of w i)"
      "to \<noteq> []" "s \<noteq> []" "length to \<le> MAX_USERNAME_LEN" "length s \<le> MAX_MESSAGE_LEN"
    and downlink: "dump (private_msg (username (session_of w i)) to s (clock env 0)) = Some body"
      "body_ok (string_bytes body)" "qt_parse Q' (string_bytes body) = Some (QObject m)"
      "member m ''type'' = Some (QString (qs ''PRIVATE''))" "member m ''from'' = Some (QString who)"
      "member m ''content'' = Some (QString text')"
      "concat chunks = server_frame (string_bytes body)" "recv_buffer c = []"
  shows "\<exists>msg s' w'.
    recv_wakeups parse (map serve wakeups) (session_of w i) = (Some [msg], s') \<and>
    route pf env i msg w = (None, w') \<and>
    (let pm = private_msg (username (session_of w i)) to s (clock env 0) in
     if \<exists>j \<in> live_sids (w_server w). username (session_of w j) = to
     then (\<forall>j \<in> live_sids (w_server w). username (session_of w j) = to \<longrightarrow>
         out (w_server w') = out (w_server w) @ [(cs_fd (session_of w j), pm), (cs_fd (session_of w i), pm)]) \<and>
       w_db w' = store_message (step_done env) (username (session_of w i)) to s (clock env 0) (w_db w)
     else out (w_server w') = out (w_server w) @
           [(cs_fd (session_of w i), error_msg ''TARGET_OFFLINE'' txt_target_offline)] \<and> w_db w' = w_db w) \<and>
    (let b' = backend_run Q' (snd (read_all Q' chunks c)) b in
     m_roomMessages b' = m_roomMessages b \<and>
     (\<forall>t. conversation t b' = conversation t b @
       (if t = who
        then [\<lparr>sender = who, content = text',
               timestamp = qt_format_time Q' (qt_to_qint64 Q' (member m ''timestamp'')),
               isSelf = False, messageType = normal\<rparr>]
        else [])))"
proof -
  let ?msg = "json_object [(''type'', JString ''PRIVATE''), (''to'', JString to), (''content'', JString s)]"
  have "wire_out (send_private Q addressee text' a) = server_frame (qt_print Q v)"
    using client by (simp add: send_defs send_json_def is_connected_def client_frame_eq)
  with frames_received [of parse "[qt_print Q v]" "[?msg]" wakeups "session_of w i"] uplink client(3)
  obtain s' where 1: "recv_wakeups parse (map serve wakeups) (session_of w i) = (Some [?msg], s')"
    by auto
  have fields: "json_value ?msg ''type'' [] = Inr ''PRIVATE''" "json_value ?msg ''to'' [] = Inr to"
    "json_value ?msg ''content'' [] = Inr s"
    by (simp_all add: json_value_object)
  note 2 = private_delivery [OF server(1-6) fields server(7-10), of env]
  have "\<exists>to'. snd (read_all Q' chunks c) =
      [SigPrivateReceived who to' text' (qt_to_qint64 Q' (member m ''timestamp''))]"
    using frame_read [OF downlink(2,7,8), of Q'] downlink(3-6)
    by (simp add: body_signals_def dispatch_message_def)
  then obtain to' where "snd (read_all Q' chunks c) =
      [SigPrivateReceived who to' text' (qt_to_qint64 Q' (member m ''timestamp''))]" ..
  then have 3: "let b' = backend_run Q' (snd (read_all Q' chunks c)) b in
     m_roomMessages b' = m_roomMessages b \<and>
     (\<forall>t. conversation t b' = conversation t b @
       (if t = who
        then [\<lparr>sender = who, content = text',
               timestamp = qt_format_time Q' (qt_to_qint64 Q' (member m ''timestamp'')),
               isSelf = False, messageType = normal\<rparr>]
        else []))"
    by (simp add: backend_run_def addMessage_def Let_def)
  from 1 2 3 show ?thesis by blast
qed

definition private_line :: "(qstring \<times> qjson) list" where
  "private_line = [(qs ''type'', QString (qs ''PRIVATE'')), (qs ''from'', QString (qs ''amy'')),
     (qs ''to'', QString (qs ''bob'')), (qs ''content'', QString (qs ''hi''))]"

theorem private_end_to_end_witness:
  "\<exists>msg s' w'. recv_wakeups
      (\<lambda>b. Parsed (json_object [(''type'', JString ''PRIVATE''), (''to'', JString ''bob''), (''content'', JString ''hi'')]))
      (map serve [[[0, 0]], [[0, 1], [112]]]) (session_of two_users 0) = (Some [msg], s') \<and>
    route sample_platform sample_env 0 msg two_users = (None, w') \<and>
    out (w_server w') = out (w_server two_users) @
      [(8, private_msg ''amy'' ''bob'' ''hi'' 1000), (7, private_msg ''amy'' ''bob'' ''hi'' 1000)] \<and>
    conversation (qs ''amy'') (backend_run (sample_qt\<lparr>qt_parse := \<lambda>b. Some (QObject private_line)\<rparr>)
      (snd (read_all (sample_qt\<lparr>qt_parse := \<lambda>b. Some (QObject private_line)\<rparr>) [[0, 0, 0], [1, 98]] new_chat_client))
      new_backend) =
    [\<lparr>sender = qs ''amy'', content = qs ''hi'', timestamp = [], isSelf = False, messageType = normal\<rparr>]"
proof -
  let ?Q = "sample_qt\<lparr>qt_parse := \<lambda>b. Some (QObject private_line)\<rparr>"
  let ?a = "new_chat_client\<lparr>socket := Some SocketConnected\<rparr>"
  let ?v = "qobject [(''type'', QString (qs ''PRIVATE'')), (''to'', QString (qs ''bob'')), (''content'', QString (qs ''hi''))]"
  let ?parse = "\<lambda>b :: string. Parsed (json_object [(''type'', JString ''PRIVATE''), (''to'', JString ''bob''), (''content'', JString ''hi'')])"
  have c: "char_byte (CHR ''b'') = 98" by (simp add: char_byte_def)
  have line: "member private_line ''type'' = Some (QString (qs ''PRIVATE''))"
      "member private_line ''from'' = Some (QString (qs ''amy''))"
      "member private_line ''content'' = Some (QString (qs ''hi''))"
    by (simp_all add: member_def private_line_def)
  have world: "iteration_order (pf_table_order sample_platform)" "table_ok (w_server two_users)"
      "server_set (w_router two_users)" "unique_online (w_server two_users)" "0 \<in> live_sids (w_server two_users)"
      "is_authenticated (session_of two_users 0)"
    by (simp_all add: two_users_simps is_authenticated_def table_ok_def sample_platform_def unique_online_def)
  have buf: "recv_buf (session_of two_users 0) = []"
    by (simp add: two_users_def logged_in_def sample_world_def upt_rec accept_one_def Let_def
        new_server_def session_defs)
  have up: "socket ?a = Some SocketConnected" "wire_out ?a = []" "body_ok (qt_print ?Q ?v)"
    "concat (map concat [[[0, 0]], [[0, 1], [112]]]) = wire_out (send_private ?Q (qs ''bob'') (qs ''hi'') ?a)"
    "\<forall>cs \<in> set [[[0, 0]], [[0, 1], [112 :: byte]]]. [] \<notin> set cs \<and> length (concat cs) + 4 \<le> MAX_BODY_LEN"
    by (simp_all add: send_defs send_json_def is_connected_def new_chat_client_def client_frame_eq
        server_frame_def htonl_bytes_def sample_qt_def body_ok_def MAX_BODY_LEN_def)
  have down: "body_ok (string_bytes ''b'')" "qt_parse ?Q (string_bytes ''b'') = Some (QObject private_line)"
    "concat [[0, 0, 0], [1, 98]] = server_frame (string_bytes ''b'')" "recv_buffer new_chat_client = []"
    by (simp_all add: server_frame_def htonl_bytes_def body_ok_def MAX_BODY_LEN_def string_bytes_def c
        new_chat_client_def)
  have live: "1 \<in> live_sids (w_server two_users)" "username (session_of two_users 1) = ''bob''"
    "username (session_of two_users 0) = ''amy''" "cs_fd (session_of two_users 1) = 8" "cs_fd (session_of two_users 0) = 7"
    by (simp_all add: two_users_simps)
  have limits: "''bob'' \<noteq> []" "''hi'' \<noteq> []" "length ''bob'' \<le> MAX_USERNAME_LEN" "length ''hi'' \<le> MAX_MESSAGE_LEN"
    by (simp_all add: MAX_USERNAME_LEN_def MAX_MESSAGE_LEN_def)
  have conv: "conversation t new_backend = []" for t by (simp add: conversation_def new_backend_def)
  have time: "clock sample_env 0 = 1000" "qt_format_time ?Q n = []" for n by (simp_all add: sample_env_def sample_qt_def)
  have ex: "\<exists>j \<in> live_sids (w_server two_users). username (session_of two_users j) = ''bob''"
    using live by blast
  note e2e = private_end_to_end [where s = "''hi''" and to = "''bob''" and dump = "\<lambda>_. Some ''b''" and env = sample_env
      and b = new_backend and parse = ?parse, OF up(1-3) refl up(4,5) buf refl world limits refl down(1,2) line down(3,4),
      unfolded Let_def time conv if_P [OF ex] live(3)]
  then have "conversation (qs ''amy'') (backend_run ?Q (snd (read_all ?Q [[0, 0, 0], [1, 98]] new_chat_client)) new_backend) =
      [\<lparr>sender = qs ''amy'', content = qs ''hi'', timestamp = [], isSelf = False, messageType = normal\<rparr>]"
    by (elim exE conjE) (drule spec [of _ "qs ''amy''"], simp only: if_True append_Nil simp_thms)
  moreover from e2e have "\<exists>msg s' w'. recv_wakeups ?parse (map serve [[[0, 0]], [[0, 1], [112]]]) (session_of two_users 0) =
      (Some [msg], s') \<and> route sample_platform sample_env 0 msg two_users = (None, w') \<and>
    out (w_server w') = out (w_server two_users) @
      [(8, private_msg ''amy'' ''bob'' ''hi'' 1000), (7, private_msg ''amy'' ''bob'' ''hi'' 1000)]"
    using live by (elim exE conjE) (rule exI, rule exI, rule exI, intro conjI, assumption, assumption, metis)
  ultimately show ?thesis by blast
qed

end
