(* ===== verification/HistoryLaws.thy ===== *)
theory HistoryLaws
  imports RouterLaws
begin

text \<open>
  Private messages in the histories that sessions ask for later, and the two tricks that names play
  with SQLite: a user may take the room's own name, and a name with a NUL byte is another name
  online but the same account.
\<close>

section \<open>Private messages in histories\<close>

definition private_row :: "string \<Rightarrow> string \<Rightarrow> string \<Rightarrow> int \<Rightarrow> database \<Rightarrow> message_row" where
  "private_row from to content ts d =
     \<lparr>row_id = next_id d, from_user = c_str from, to_user = c_str to, row_content = c_str content,
      row_timestamp = ts\<rparr>"

lemma short_history:
  assumes "order_by_desc desc" "order_by_asc asc"
    and "length (filter (history_match me t) (messages d)) \<le> 50"
  shows "set (history_rows desc asc me t 50 d) = {r \<in> set (messages d). history_match me t r}"
proof -
  let ?f = "filter (history_match me t) (messages d)"
  have m: "mset (desc ?f) = mset ?f" "\<And>rs. mset (asc rs) = mset rs"
    using assms(1,2) by (simp_all add: order_by_desc_def order_by_asc_def)
  then have "length (desc ?f) \<le> 50" using assms(3) by (metis size_mset)
  then have "history_rows desc asc me t 50 d = asc (desc ?f)"
    by (simp add: history_rows_def clamp_limit_def)
  then have "mset (history_rows desc asc me t 50 d) = mset ?f" using m by simp
  then show ?thesis by (metis set_mset_mset set_filter)
qed

lemma private_stored:
  assumes "is_authenticated (session_of w i)" "json_value msg ''type'' [] = Inr ''PRIVATE''"
    and "json_value msg ''to'' [] = Inr to" "json_value msg ''content'' [] = Inr content"
    and "to \<noteq> []" "content \<noteq> []" "length to \<le> MAX_USERNAME_LEN" "length content \<le> MAX_MESSAGE_LEN"
    and "server_find pf to w \<noteq> None" "step_done env"
  shows "messages (w_db (snd (route pf env i msg w))) =
    messages (w_db w) @ [private_row (username (session_of w i)) to content (clock env 0) (w_db w)]"
  using assms
  by (auto simp: route_def handle_private_def Let_def private_row_def store_message_def get_username_def)

lemma history_answer:
  assumes "is_authenticated (session_of w k)" "k \<in> live_sids (w_server w)" "table_ok (w_server w)"
    and "server_set (w_router w)" "json_value req ''type'' [] = Inr ''HISTORY_REQ''"
    and "json_value req ''to'' room = Inr t" "prep_ok env"
  shows "out (w_server (snd (route pf env k req w))) = out (w_server w) @
    [(cs_fd (session_of w k), history_resp t
       (map row_json (history_rows (pf_desc pf) (pf_asc pf) (username (session_of w k)) t 50 (w_db w))))]"
  using assms send_to_fd_live [OF assms(3,2)]
  by (simp add: route_def handle_history_req_def server_send_def get_history_def get_username_def)

section \<open>Properties\<close>


text \<open>Amy writes to Bob, and Bob asks for his history with Amy.\<close>

definition note_to_bob :: json where
  "note_to_bob = json_object [(''type'', JString ''PRIVATE''), (''to'', JString ''bob''),
     (''content'', JString ''hi'')]"

definition history_of :: "string \<Rightarrow> json" where
  "history_of t = json_object [(''type'', JString ''HISTORY_REQ''), (''to'', JString t)]"

lemma sample_requests:
  "json_value note_to_bob ''type'' [] = Inr ''PRIVATE''" "json_value note_to_bob ''to'' [] = Inr ''bob''"
  "json_value note_to_bob ''content'' [] = Inr ''hi''"
  "json_value (history_of t) ''type'' [] = Inr ''HISTORY_REQ''" "json_value (history_of t) ''to'' room = Inr t"
  by (simp_all add: note_to_bob_def history_of_def json_value_object)

lemma bob_online: "server_find sample_platform ''bob'' two_users \<noteq> None"
proof -
  have "unique_online (w_server two_users)" by (simp add: unique_online_def two_users_simps)
  then have "server_find sample_platform ''bob'' two_users = Some 1"
    using server_find_live [of sample_platform two_users 1]
    by (simp add: two_users_simps sample_platform_def)
  then show ?thesis by simp
qed


section \<open>Another name for the same account\<close>

text \<open>
  The check for an online user compares whole strings, the check of the password only what precedes
  a NUL byte: whoever knows the password of a user who is online can log in a second time under
  that user's name with a NUL byte and anything behind it, and both sessions stay.
\<close>

theorem nul_alias_login:
  assumes "username (session_of w j) = u" "u \<noteq> []" "\<not> is_authenticated (session_of w i)"
    and "json_value msg ''type'' [] = Inr ''LOGIN''" "json_value msg ''from'' [] = Inr (u @ CHR 0x00 # x)"
    and "json_value msg ''content'' [] = Inr p" "p \<noteq> []" "length p \<le> MAX_PASSWORD_LEN"
    and "length (u @ CHR 0x00 # x) \<le> MAX_USERNAME_LEN" "\<not> fst (check_rate env i w)"
    and "u @ CHR 0x00 # x \<notin> set (login_in_progress (w_router w))"
    and "server_find pf (u @ CHR 0x00 # x) w = None"
    and "get_stored_hash (prep_ok env) u (w_db w) = h" "h \<noteq> []" "verify_password (pf_digest pf) p h"
  shows "\<exists>w'. route pf env i msg w = (None, w') \<and>
    username (session_of w' i) = u @ CHR 0x00 # x \<and> username (session_of w' j) = u \<and>
    c_str (username (session_of w' i)) = c_str (username (session_of w' j))"
proof -
  have c: "c_str (u @ CHR 0x00 # x) = c_str u"
    by (induction u) (simp_all add: c_str_def)
  have h: "get_stored_hash (prep_ok env) (u @ CHR 0x00 # x) (w_db w) = h"
    using assms(13) unfolding get_stored_hash_def c .
  obtain e w' where r: "route pf env i msg w = (e, w')" by fastforce
  from route_login_ok [OF assms(3-6) _ assms(7,9,8,10-12)] h assms(14,15) r
  have "e = None" and q: "quiet (logged_in i (u @ CHR 0x00 # x) w) w'" by auto
  moreover have "j \<noteq> i" using assms(1-3) by (auto simp: is_authenticated_def)
  ultimately show ?thesis
    using r c quiet_username [OF q, of i] quiet_username [OF q, of j] assms(1)
    by (simp add: logged_in_def set_username_def)
qed

end
