(* ===== verification/SignIn.thy ===== *)
theory SignIn
  imports EndToEnd HistoryLaws LoginRace
begin

text \<open>
  Signing in and reading histories, from the views to the server and back: what the server sends to
  one client, what the client's application makes of it, and the two together.
\<close>

section \<open>What one client is sent\<close>

definition sent_to :: "fd \<Rightarrow> server \<Rightarrow> json list" where
  "sent_to f s = map snd (filter (\<lambda>p. fst p = f) (out s))"

lemma sent_to_emit: "sent_to f (emit g m s) = sent_to f s @ (if g = f then [m] else [])"
  by (simp add: sent_to_def emit_def)

lemma sent_to_same: "out s' = out s \<Longrightarrow> sent_to f s' = sent_to f s"
  by (simp add: sent_to_def)

lemma one_of_distinct:
  "distinct xs \<Longrightarrow> inj_on g (insert x (set xs)) \<Longrightarrow>
   filter (\<lambda>y. g y = g x) xs = (if x \<in> set xs then [x] else [])"
proof (induction xs)
  case (Cons y ys)
  then have "inj_on g (insert x (set ys))" by (auto simp: inj_on_def)
  moreover have "g y = g x \<longleftrightarrow> y = x" using Cons.prems(2) by (auto simp: inj_on_def)
  ultimately show ?case using Cons by auto
qed simp

lemma table_fd_inj: "table_ok s \<Longrightarrow> inj_on (\<lambda>i. cs_fd (heap s i)) (live_sids s)"
  by (rule inj_onI) (metis table_lookup option.inject)

lemma broadcast_targets_distinct:
  assumes "iteration_order order" "table_ok s"
  shows "distinct (broadcast_targets order ex s) \<and>
    set (broadcast_targets order ex s) = {i \<in> live_sids s. is_authenticated (heap s i) \<and>
      \<not> (ex \<noteq> [] \<and> get_username (heap s i) = ex)}"
proof -
  let ?S = "{i \<in> live_sids s. is_authenticated (heap s i) \<and> \<not> (ex \<noteq> [] \<and> get_username (heap s i) = ex)}"
  have fin: "finite ?S" by (simp add: live_sids_def)
  from broadcast_targets_set [OF assms, of ex]
  have m: "mset (broadcast_targets order ex s) = mset_set ?S" .
  have "set (broadcast_targets order ex s) = ?S"
    using fin unfolding set_mset_mset [symmetric] m by simp
  moreover have "distinct (broadcast_targets order ex s)"
    unfolding distinct_count_atmost_1 m using fin calculation by (simp add: count_mset_set')
  ultimately show ?thesis by blast
qed

lemma sent_to_broadcast:
  assumes "iteration_order order" "table_ok s" "j \<in> live_sids s"
  shows "sent_to (cs_fd (heap s j)) (broadcast order m ex s) = sent_to (cs_fd (heap s j)) s @
    (if is_authenticated (heap s j) \<and> \<not> (ex \<noteq> [] \<and> get_username (heap s j) = ex) then [m] else [])"
proof -
  let ?t = "broadcast_targets order ex s"
  note t = broadcast_targets_distinct [OF assms(1,2), of ex]
  have "inj_on (\<lambda>i. cs_fd (heap s i)) (insert j (set ?t))"
    using t assms(3) by (intro inj_on_subset [OF table_fd_inj [OF assms(2)]]) auto
  from one_of_distinct [OF _ this] t
  have "filter (\<lambda>i. cs_fd (heap s i) = cs_fd (heap s j)) ?t = (if j \<in> set ?t then [j] else [])" by blast
  then show ?thesis
    using t assms(3) by (simp add: sent_to_def filter_map comp_def)
qed

lemma table_ok_update:
  "sessions s' = sessions s \<Longrightarrow> (\<And>i. cs_fd (heap s' i) = cs_fd (heap s i)) \<Longrightarrow> table_ok s' = table_ok s"
  by (simp add: table_ok_def)

text \<open>What \<open>finish_login\<close> sends: three messages to the new user, two to everybody else.\<close>

definition login_history :: "platform \<Rightarrow> string \<Rightarrow> database \<Rightarrow> json" where
  "login_history pf u d =
     history_resp room (map row_json (history_rows (pf_desc pf) (pf_asc pf) u room 20 d))"

lemma finish_login_sends:
  assumes "iteration_order (pf_table_order pf)" "table_ok (w_server w)" "server_set (w_router w)"
    and "i \<in> live_sids (w_server w)" "j \<in> live_sids (w_server w)" "u \<noteq> []" "prep_ok env"
    and "\<And>k. k \<in> live_sids (w_server w) \<Longrightarrow> username (session_of w k) \<noteq> u"
  shows "sent_to (cs_fd (session_of w j)) (w_server (finish_login pf env i u w)) =
    sent_to (cs_fd (session_of w j)) (w_server w) @
    (let users = make_user_list_msg pf (clock env 0) (w_router (logged_in i u w)) in
     if j = i then [ok_msg ''LOGIN_OK'' u, login_history pf u (w_db w), users]
     else if is_authenticated (session_of w j) then [users, notify_msg (u @ txt_joined) (clock env 1)]
     else [])"
proof -
  let ?order = "pf_table_order pf"
  let ?s1 = "upd_session (set_username u) i (w_server w)"
  let ?f = "cs_fd (session_of w i)"
  let ?s2 = "emit ?f (login_history pf u (w_db w)) (emit ?f (ok_msg ''LOGIN_OK'' u) ?s1)"
  have sends: "w_server (finish_login pf env i u w) =
      broadcast ?order (notify_msg (u @ txt_joined) (clock env 1)) u
        (broadcast ?order (make_user_list_msg pf (clock env 0) (w_router (logged_in i u w))) [] ?s2)"
    using assms(3,7) table_lookup [OF assms(2,4)]
    by (simp add: finish_login_def Let_def send_ok_def push_history_def server_send_def send_to_fd_def
        broadcast_user_list_def server_broadcast_def logged_in_def login_history_def get_history_def
        session_defs)
  have ok: "table_ok s" "live_sids s = live_sids (w_server w)" "cs_fd (heap s j) = cs_fd (session_of w j)"
    if "sessions s = sessions (w_server w)" "heap s = heap ?s1" for s
    using that assms(2) by (auto simp: table_ok_def live_sids_def set_username_def)
  have eq: "cs_fd (session_of w i) = cs_fd (session_of w j) \<longleftrightarrow> i = j"
    using inj_onD [OF table_fd_inj [OF assms(2)] _ assms(4,5)] by auto
  have bc: "sent_to (cs_fd (session_of w j)) (broadcast ?order m ex s) = sent_to (cs_fd (session_of w j)) s @
      (if is_authenticated (heap ?s1 j) \<and> \<not> (ex \<noteq> [] \<and> get_username (heap ?s1 j) = ex) then [m] else [])"
    if "sessions s = sessions (w_server w)" "heap s = heap ?s1" for s m ex
    using sent_to_broadcast [OF assms(1), of s j m ex] ok [OF that] that(2) assms(5) by simp
  have "sent_to (cs_fd (session_of w j)) ?s1 = sent_to (cs_fd (session_of w j)) (w_server w)"
    by (simp add: sent_to_def)
  then show ?thesis
    unfolding sends using eq assms(6) assms(8) [OF assms(5)]
    by (simp add: bc sent_to_emit Let_def is_authenticated_def get_username_def set_username_def)
qed

lemma login_answers:
  assumes "iteration_order (pf_table_order pf)" "table_ok (w_server w)" "server_set (w_router w)"
    and "i \<in> live_sids (w_server w)" "prep_ok env"
    and "\<not> is_authenticated (session_of w i)" "json_value msg ''type'' [] = Inr ''LOGIN''"
    and "json_value msg ''from'' [] = Inr u" "json_value msg ''content'' [] = Inr p"
    and "u \<noteq> []" "p \<noteq> []" "length u \<le> MAX_USERNAME_LEN" "length p \<le> MAX_PASSWORD_LEN"
    and "\<not> fst (check_rate env i w)" "u \<notin> set (login_in_progress (w_router w))"
    and "server_find pf u w = None" "get_stored_hash True u (w_db w) \<noteq> []"
    and "verify_password (pf_digest pf) p (get_stored_hash True u (w_db w))"
  shows "\<exists>w'. route pf env i msg w = (None, w') \<and> username (session_of w' i) = u \<and>
    (\<forall>j \<in> live_sids (w_server w). sent_to (cs_fd (session_of w j)) (w_server w') =
      sent_to (cs_fd (session_of w j)) (w_server w) @
      (let users = make_user_list_msg pf (clock env 0) (w_router (logged_in i u w)) in
       if j = i then [ok_msg ''LOGIN_OK'' u, login_history pf u (w_db w), users]
       else if is_authenticated (session_of w j) then [users, notify_msg (u @ txt_joined) (clock env 1)]
       else []))"
proof -
  obtain w0 where c: "check_rate env i w = (False, w0)"
    using assms(14) by (cases "check_rate env i w") auto
  have w0: "w_db w0 = w_db w" "w_server w0 = w_server w"
    "login_in_progress (w_router w0) = login_in_progress (w_router w)"
    "online_users (w_router w0) = online_users (w_router w)"
    "server_set (w_router w0) = server_set (w_router w)"
    using check_rate_simps [of env i w] c by simp_all
  from w0 have find: "server_find pf u w0 = None"
    using assms(16) server_find_cong [of w0 w pf u] by simp
  define w3 where "w3 = on_attempts clear_login_attempts i
    (on_server (upd_session (set_pending_login u) i) (on_router (reserve u) w0))"
  have w3: "sessions (w_server w3) = sessions (w_server w)" "live_sids (w_server w3) = live_sids (w_server w)"
    "out (w_server w3) = out (w_server w)" "w_db w3 = w_db w" "server_set (w_router w3)"
    "online_users (w_router w3) = online_users (w_router w)"
    "\<And>k. cs_fd (session_of w3 k) = cs_fd (session_of w k)"
    "\<And>k. username (session_of w3 k) = username (session_of w k)"
    "\<And>k. is_authenticated (session_of w3 k) = is_authenticated (session_of w k)"
    using w0 assms(3) by (simp_all add: w3_def live_sids_def set_pending_login_def is_authenticated_def)
  let ?w4 = "finish_login pf env i u w3"
  let ?w' = "on_router (release u) (on_server (upd_session clear_pending_login i) ?w4)"
  have route: "route pf env i msg w = (None, ?w')"
    using assms(5-13,15-) w0 find by (simp add: route_def handle_login_def Let_def c w3_def)
  have name: "username (session_of ?w' i) = u" by (simp add: clear_pending_login_def set_username_def)
  have others: "username (session_of w k) \<noteq> u" if "k \<in> live_sids (w_server w)" for k
    using server_find_NoneD [OF assms(1,3,16) that] .
  have ok: "table_ok (w_server w3)"
    using assms(2) table_ok_update [of "w_server w3" "w_server w"] w3 by simp
  have users: "make_user_list_msg pf t (w_router (logged_in i u w3)) =
      make_user_list_msg pf t (w_router (logged_in i u w))" for t
    by (simp add: make_user_list_msg_def logged_in_def w3)
  have same: "sent_to f (w_server ?w') = sent_to f (w_server ?w4)" "sent_to f (w_server w3) = sent_to f (w_server w)" for f
    by (simp_all add: sent_to_def w3)
  from finish_login_sends [OF assms(1) ok w3(5), of i _ u env] assms(4,5,10) others
  have "\<forall>j \<in> live_sids (w_server w). sent_to (cs_fd (session_of w j)) (w_server ?w') =
      sent_to (cs_fd (session_of w j)) (w_server w) @
      (let users = make_user_list_msg pf (clock env 0) (w_router (logged_in i u w)) in
       if j = i then [ok_msg ''LOGIN_OK'' u, login_history pf u (w_db w), users]
       else if is_authenticated (session_of w j) then [users, notify_msg (u @ txt_joined) (clock env 1)]
       else [])"
    unfolding same users w3 by simp
  with route name show ?thesis by blast
qed

section \<open>What the application makes of it\<close>

definition app_reads :: "qt \<Rightarrow> bytes list \<Rightarrow> client_app \<Rightarrow> client_app" where
  "app_reads Q chunks a = fold (\<lambda>bs. app_run Q (NetEvent (EvReadyRead bs))) chunks a"

lemma setCurrentUser_same: "m_currentUser b = u \<Longrightarrow> fst (setCurrentUser u b) = b"
  by (simp add: setCurrentUser_def)

lemma deliver_backend:
  assumes "\<not> app_test a"
  shows "app_backend (deliver Q sig a) = fst (backend_slot Q sig (app_backend a))"
proof -
  have plain: "app_backend (fold (on_lc_signal Q) sigs a') = app_backend a'"
    if "\<forall>sig \<in> set sigs. \<forall>u. sig = SigAuthenticated u \<longrightarrow> m_currentUser (app_backend a') = u" "\<not> app_test a'"
    for sigs a'
    using that
  proof (induction sigs arbitrary: a')
    case (Cons sig sigs)
    then have "app_backend (on_lc_signal Q sig a') = app_backend a'"
      by (cases sig) (auto simp: setCurrentUser_same)
    with Cons show ?case by simp
  qed simp
  have "\<forall>s \<in> set (snd (lc_slot sig l)). \<forall>u. s = SigAuthenticated u \<longrightarrow>
      m_currentUser (fst (backend_slot Q sig (app_backend a))) = u" for l
    by (cases sig) (auto simp: slot_defs setter_defs split: if_splits)
  then show ?thesis
    using assms by (simp add: deliver_def case_prod_unfold Let_def plain)
qed

lemma deliver_all_backend:
  "\<not> app_test a \<Longrightarrow> app_backend (fold (deliver Q) sigs a) = backend_run Q sigs (app_backend a)"
  by (induction sigs arbitrary: a) (simp_all add: deliver_backend backend_run_def)

lemma app_reads_eq:
  "\<not> app_test a \<Longrightarrow> app_client (app_reads Q chunks a) = fst (read_all Q chunks (app_client a)) \<and>
   app_login (app_reads Q chunks a) = lc_slots (snd (read_all Q chunks (app_client a))) (app_login a) \<and>
   app_backend (app_reads Q chunks a) = backend_run Q (snd (read_all Q chunks (app_client a))) (app_backend a)"
proof (induction chunks arbitrary: a)
  case (Cons bs chunks)
  from Cons.IH [of "app_run Q (NetEvent (EvReadyRead bs)) a"] Cons.prems show ?case
    by (simp add: app_reads_def client_acts_def case_prod_unfold deliver_all_backend backend_run_def)
qed (simp add: app_reads_def backend_run_def)

text \<open>A message the server prints, as the client reads it.\<close>

definition carried :: "qt \<Rightarrow> (json \<Rightarrow> string option) \<Rightarrow> json \<Rightarrow> (qstring \<times> qjson) list \<Rightarrow> bool" where
  "carried Q dump msg m \<longleftrightarrow> (\<exists>body. dump msg = Some body \<and> body_ok (string_bytes body) \<and>
     qt_parse Q (string_bytes body) = Some (QObject m))"

definition on_wire :: "(json \<Rightarrow> string option) \<Rightarrow> json list \<Rightarrow> bytes" where
  "on_wire dump msgs = concat (map (\<lambda>msg. server_frame (string_bytes (the (dump msg)))) msgs)"

lemma carried_signals:
  assumes "list_all2 (carried Q dump) msgs ms" "concat chunks = on_wire dump msgs" "recv_buffer c = []"
  shows "snd (read_all Q chunks c) = concat (map (\<lambda>m. snd (dispatch_message Q m new_chat_client)) ms)"
proof -
  let ?body = "\<lambda>msg. string_bytes (the (dump msg))"
  from assms(1) have "list_all body_ok (map ?body msgs)"
    by (induction rule: list_all2_induct) (auto simp: carried_def)
  moreover have "concat chunks = concat (map server_frame (map ?body msgs))"
    using assms(2) by (simp add: on_wire_def comp_def)
  ultimately have "snd (read_all Q chunks c) = concat (map (body_signals Q) (map ?body msgs))"
    using client_any_fragmentation [of "map ?body msgs" chunks c Q] assms(3) by simp
  also have "map (body_signals Q) (map ?body msgs) = map (\<lambda>m. snd (dispatch_message Q m new_chat_client)) ms"
    using assms(1) by (induction rule: list_all2_induct) (auto simp: carried_def body_signals_def)
  finally show ?thesis .
qed

text \<open>
  A row of the database as the client reads it from a history and as a view shows it; \<open>utf\<close> is the
  conversion from the server's bytes to UTF-16 that the two JSON libraries imply.
\<close>

definition reads_row :: "qt \<Rightarrow> (string \<Rightarrow> qstring) \<Rightarrow> message_row \<Rightarrow> qjson \<Rightarrow> bool" where
  "reads_row Q utf r v \<longleftrightarrow>
     member (to_object v) ''from'' = Some (QString (utf (from_user r))) \<and>
     member (to_object v) ''content'' = Some (QString (utf (row_content r))) \<and>
     qt_to_integer Q (member (to_object v) ''timestamp'') = row_timestamp r"

definition shown_row :: "qt \<Rightarrow> (string \<Rightarrow> qstring) \<Rightarrow> qstring \<Rightarrow> message_row \<Rightarrow> message_item" where
  "shown_row Q utf me r = \<lparr>sender = utf (from_user r), content = utf (row_content r),
     timestamp = qt_format_time Q (row_timestamp r), isSelf = (utf (from_user r) = me), messageType = normal\<rparr>"

lemma history_shown:
  "list_all2 (reads_row Q utf) rows items \<Longrightarrow>
   map (history_item Q me) items = map (shown_row Q utf me) rows"
  by (induction rule: list_all2_induct) (simp_all add: reads_row_def shown_row_def history_item_def Let_def)

section \<open>Properties\<close>

text \<open>
  C12. A history from request to screen: when a connected client asks for the history of a target,
  its session being logged in at the server, then whatever the fragmentation on the way, the
  server reads one HISTORY_REQ and answers with that client alone with the 50 newest stored messages
  the requestor may see (all of them if there are fewer), oldest first; and the client, on reading the
  answer, shows exactly these messages in this order as the target's conversation, replacing what
  it showed before, each marked as its own exactly when its sender has its user's name, and leaves
  every other conversation as it is.
\<close>

theorem history_end_to_end:
  assumes client: "socket a = Some SocketConnected" "wire_out a = []" "recv_buffer a = []"
      "body_ok (qt_print Q v)"
      "v = qobject [(''type'', QString (qs ''HISTORY_REQ'')), (''to'', QString target)]"
    and uplink: "concat (map concat wakeups) = wire_out (send_history_req Q target a)"
      "\<forall>cs \<in> set wakeups. [] \<notin> set cs \<and> length (concat cs) + 4 \<le> MAX_BODY_LEN"
      "recv_buf (session_of w i) = []"
      "parse (bytes_string (qt_print Q v)) =
        Parsed (json_object [(''type'', JString ''HISTORY_REQ''), (''to'', JString t)])"
    and server: "order_by_desc (pf_desc pf)" "order_by_asc (pf_asc pf)" "table_ok (w_server w)"
      "server_set (w_router w)" "i \<in> live_sids (w_server w)" "is_authenticated (session_of w i)"
      "prep_ok env" "rows = history_rows (pf_desc pf) (pf_asc pf) (username (session_of w i)) t 50 (w_db w)"
    and downlink: "carried Q dump (history_resp t (map row_json rows)) m"
      "member m ''type'' = Some (QString (qs ''HISTORY_RESP''))" "member m ''to'' = Some (QString target)"
      "member m ''data'' = Some (QArray items)" "list_all2 (reads_row Q utf) rows items"
      "concat chunks = on_wire dump [history_resp t (map row_json rows)]"
  shows "(\<exists>msg s' w'. recv_wakeups parse (map serve wakeups) (session_of w i) = (Some [msg], s') \<and>
      route pf env i msg w = (None, w') \<and>
      out (w_server w') = out (w_server w) @ [(cs_fd (session_of w i), history_resp t (map row_json rows))]) \<and>
    (let matching = filter (history_match (username (session_of w i)) t) (messages (w_db w)) in
      length rows = min 50 (length matching) \<and> mset rows \<subseteq># mset matching \<and>
      sorted_wrt (\<lambda>r r'. row_timestamp r \<le> row_timestamp r') rows \<and>
      (\<forall>r \<in># mset matching - mset rows. \<forall>r' \<in> set rows. row_timestamp r \<le> row_timestamp r')) \<and>
    (let b' = backend_run Q (snd (read_all Q chunks (send_history_req Q target a))) b in
      shows_for target b' = map (shown_row Q utf (m_currentUser b)) rows \<and>
      (\<forall>other. other \<noteq> target \<longrightarrow> shows_for other b' = shows_for other b))"
proof (intro conjI)
  let ?msg = "json_object [(''type'', JString ''HISTORY_REQ''), (''to'', JString t)]"
  have "wire_out (send_history_req Q target a) = server_frame (qt_print Q v)"
    using client by (simp add: send_history_req_def send_json_def is_connected_def client_frame_eq)
  with frames_received [of parse "[qt_print Q v]" "[?msg]" wakeups "session_of w i"] uplink client(4)
  obtain s' where read: "recv_wakeups parse (map serve wakeups) (session_of w i) = (Some [?msg], s')"
    by auto
  have fields: "json_value ?msg ''type'' [] = Inr ''HISTORY_REQ''" "json_value ?msg ''to'' room = Inr t"
    by (simp_all add: json_value_object)
  have "fst (route pf env i ?msg w) = None"
    using server(6) fields by (simp add: route_def handle_history_req_def)
  with history_answer [OF server(6,5,3,4) fields server(7), of pf] read server(8)
  show "\<exists>msg s' w'. recv_wakeups parse (map serve wakeups) (session_of w i) = (Some [msg], s') \<and>
      route pf env i msg w = (None, w') \<and>
      out (w_server w') = out (w_server w) @ [(cs_fd (session_of w i), history_resp t (map row_json rows))]"
    by (intro exI [of _ ?msg] exI [of _ s'] exI [of _ "snd (route pf env i ?msg w)"]) (simp add: prod_eq_iff)
  show "let matching = filter (history_match (username (session_of w i)) t) (messages (w_db w)) in
      length rows = min 50 (length matching) \<and> mset rows \<subseteq># mset matching \<and>
      sorted_wrt (\<lambda>r r'. row_timestamp r \<le> row_timestamp r') rows \<and>
      (\<forall>r \<in># mset matching - mset rows. \<forall>r' \<in> set rows. row_timestamp r \<le> row_timestamp r')"
    using history_newest [OF server(1,2), of "username (session_of w i)" t 50 "w_db w"] server(8)
    by (simp add: Let_def clamp_limit_def)
  have "recv_buffer (send_history_req Q target a) = []"
    using client(3) by (simp add: send_history_req_def)
  with carried_signals [of Q dump "[history_resp t (map row_json rows)]" "[m]" chunks "send_history_req Q target a"] downlink(1,6)
  have "snd (read_all Q chunks (send_history_req Q target a)) = [SigHistoryReceived target items]"
    using downlink(2-4) by (simp add: dispatch_message_def)
  with slot_shows [of _ Q "SigHistoryReceived target items" b] history_shown [OF downlink(5)]
  show "let b' = backend_run Q (snd (read_all Q chunks (send_history_req Q target a))) b in
      shows_for target b' = map (shown_row Q utf (m_currentUser b)) rows \<and>
      (\<forall>other. other \<noteq> target \<longrightarrow> shows_for other b' = shows_for other b)"
    by (simp add: backend_run_def Let_def)
qed

text \<open>Three messages of the room, as the database has them and as a client reads and shows them.\<close>

definition sample_rows :: "message_row list" where
  "sample_rows =
     [\<lparr>row_id = 1, from_user = ''amy'', to_user = room, row_content = ''one'', row_timestamp = 10\<rparr>,
      \<lparr>row_id = 3, from_user = ''bob'', to_user = room, row_content = ''two'', row_timestamp = 20\<rparr>,
      \<lparr>row_id = 2, from_user = ''eve'', to_user = room, row_content = ''three'', row_timestamp = 30\<rparr>]"

definition row_item :: "message_row \<Rightarrow> qjson" where
  "row_item r = QObject [(qs ''from'', QString (qs (from_user r))), (qs ''content'', QString (qs (row_content r))),
     (qs ''timestamp'', QInteger (row_timestamp r))]"

definition talk_qt :: "(bytes \<Rightarrow> qjson option) \<Rightarrow> qt" where
  "talk_qt parse = sample_qt\<lparr>qt_parse := parse,
     qt_to_integer := \<lambda>v. case v of Some (QInteger n) \<Rightarrow> n | _ \<Rightarrow> 0\<rparr>"

definition history_answer_line :: "(qstring \<times> qjson) list" where
  "history_answer_line = [(qs ''type'', QString (qs ''HISTORY_RESP'')), (qs ''to'', QString (qs ''__room__'')),
     (qs ''data'', QArray (map row_item sample_rows))]"

lemma talk_qt_simps [simp]:
  "qt_parse (talk_qt parse) = parse" "qt_print (talk_qt parse) v = [112]"
  "qt_format_time (talk_qt parse) n = []" "qt_trim (talk_qt parse) x = x"
  by (simp_all add: talk_qt_def sample_qt_def)

lemma sample_items: "list_all2 (reads_row (talk_qt parse) qs) sample_rows (map row_item sample_rows)"
  by (simp add: sample_rows_def reads_row_def row_item_def member_def talk_qt_def)

lemma sample_history:
  "messages d = messages sample_database \<Longrightarrow> l = 20 \<or> l = 50 \<Longrightarrow>
   history_rows (pf_desc sample_platform) (pf_asc sample_platform) me room l d = sample_rows"
  by (auto simp: history_rows_def sample_platform_def stable_asc_def stable_desc_def sample_database_def
      store_message_def empty_database_def history_match_def clamp_limit_def room_def c_str_def sample_rows_def)

lemma history_answer_members:
  "member history_answer_line ''type'' = Some (QString (qs ''HISTORY_RESP''))"
  "member history_answer_line ''to'' = Some (QString (qs ''__room__''))"
  "member history_answer_line ''data'' = Some (QArray (map row_item sample_rows))"
  by (simp_all add: member_def history_answer_line_def)

lemma sample_letters: "string_bytes ''a'' = [97]" "string_bytes ''b'' = [98]" "string_bytes ''c'' = [99]"
  by (simp_all add: string_bytes_def char_byte_def)

lemma sample_sockets:
  "socket (new_chat_client\<lparr>socket := Some SocketConnected\<rparr>) = Some SocketConnected"
  "wire_out (new_chat_client\<lparr>socket := Some SocketConnected\<rparr>) = []"
  "recv_buffer (new_chat_client\<lparr>socket := Some SocketConnected\<rparr>) = []"
  "body_ok (qt_print (talk_qt parse) v)"
  by (simp_all add: new_chat_client_def body_ok_def MAX_BODY_LEN_def)

theorem history_end_to_end_witness:
  "let Q = talk_qt (\<lambda>b. Some (QObject history_answer_line)); w = two_users\<lparr>w_db := sample_database\<rparr>;
     a = new_chat_client\<lparr>socket := Some SocketConnected\<rparr>
   in (\<exists>msg s' w'. recv_wakeups (\<lambda>b. Parsed (history_of room)) (map serve [[[0, 0]], [[0, 1], [112]]]) (session_of w 0) =
        (Some [msg], s') \<and> route sample_platform sample_env 0 msg w = (None, w') \<and>
        out (w_server w') = out (w_server w) @ [(7, history_resp room (map row_json sample_rows))]) \<and>
     map content (m_roomMessages (backend_run Q
       (snd (read_all Q [[0, 0, 0], [1, 98]] (send_history_req Q (qs ''__room__'') a))) new_backend)) =
       [qs ''one'', qs ''two'', qs ''three'']"
proof -
  let ?Q = "talk_qt (\<lambda>b. Some (QObject history_answer_line))"
  let ?w = "two_users\<lparr>w_db := sample_database\<rparr>"
  let ?a = "new_chat_client\<lparr>socket := Some SocketConnected\<rparr>"
  let ?dump = "\<lambda>_ :: json. Some ''b''"
  let ?msg = "history_resp room (map row_json sample_rows)"
  have up: "concat (map concat [[[0, 0]], [[0, 1], [112]]]) = wire_out (send_history_req ?Q (qs ''__room__'') ?a)"
    "\<forall>cs \<in> set [[[0, 0]], [[0, 1], [112 :: byte]]]. [] \<notin> set cs \<and> length (concat cs) + 4 \<le> MAX_BODY_LEN"
    by (simp_all add: send_history_req_def send_json_def is_connected_def new_chat_client_def client_frame_eq
        server_frame_def htonl_bytes_def MAX_BODY_LEN_def)
  have buf: "recv_buf (session_of ?w 0) = []"
    by (simp add: two_users_def logged_in_def sample_world_def upt_rec accept_one_def Let_def
        new_server_def session_defs)
  have world: "order_by_desc (pf_desc sample_platform)" "order_by_asc (pf_asc sample_platform)"
    "table_ok (w_server ?w)" "server_set (w_router ?w)" "0 \<in> live_sids (w_server ?w)"
    "is_authenticated (session_of ?w 0)" "prep_ok sample_env"
    "sample_rows = history_rows (pf_desc sample_platform) (pf_asc sample_platform) (username (session_of ?w 0)) room 50 (w_db ?w)"
    by (simp_all add: two_users_simps is_authenticated_def table_ok_def sample_platform_def sample_env_def
        order_by_stable_desc order_by_stable_asc sample_history [unfolded sample_platform_def, simplified])
  have down: "carried ?Q ?dump ?msg history_answer_line"
    "concat [[0, 0, 0], [1, 98]] = on_wire ?dump [?msg]"
    by (simp_all add: carried_def on_wire_def sample_letters body_ok_def MAX_BODY_LEN_def
        server_frame_def htonl_bytes_def)
  note e2e = history_end_to_end [where b = new_backend and v = "qobject [(''type'', QString (qs ''HISTORY_REQ'')), (''to'', QString (qs ''__room__''))]",
      OF sample_sockets refl up buf _ world down(1) history_answer_members sample_items down(2)]
  have fd: "cs_fd (session_of ?w 0) = 7" by (simp add: two_users_simps)
  have shown: "map content (map (shown_row ?Q qs me) sample_rows) = [qs ''one'', qs ''two'', qs ''three'']" for me
    by (simp add: shown_row_def sample_rows_def)
  show ?thesis
    using e2e [of "\<lambda>b. Parsed (history_of room)"] fd shown
    by (simp add: history_of_def Let_def shows_for_def)
qed

text \<open>
  C6. Signing in, from the button to the views of everybody: when the user of a connected client signs in
  with the name and password of an account that is not in use, then whatever the fragmentation on the
  way, the server reads one LOGIN, the session bears the name, and the server sends this client the
  confirmation, the room's last 20 messages and the list of users who are online, in this order and
  nothing else, every other user who is logged in the new list and the announcement, and nobody
  else in the table anything; and when the client has read its three answers, the login page is done
  without error, the current user is the name, the room shows exactly those messages in order, and the
  list of users is the server's with the new name.
\<close>

theorem sign_in_end_to_end:
  assumes page: "is_connected (app_client a)" "wire_out (app_client a) = []" "recv_buffer (app_client a) = []"
      "\<not> app_test a" "qt_trim Q user \<noteq> []" "qt_trim Q password \<noteq> []" "body_ok (qt_print Q v)"
      "v = qobject [(''type'', QString (qs ''LOGIN'')), (''from'', QString (qt_trim Q user)),
        (''content'', QString (qt_trim Q password))]"
    and uplink: "concat (map concat wakeups) = wire_out (app_client (app_run Q (UiLogin user password) a))"
      "\<forall>cs \<in> set wakeups. [] \<notin> set cs \<and> length (concat cs) + 4 \<le> MAX_BODY_LEN"
      "recv_buf (session_of w i) = []"
      "parse (bytes_string (qt_print Q v)) = Parsed (json_object
        [(''type'', JString ''LOGIN''), (''from'', JString u), (''content'', JString p)])"
    and server: "iteration_order (pf_table_order pf)" "table_ok (w_server w)" "server_set (w_router w)"
      "i \<in> live_sids (w_server w)" "prep_ok env" "\<not> is_authenticated (session_of w i)"
    and login: "u \<noteq> []" "p \<noteq> []" "length u \<le> MAX_USERNAME_LEN" "length p \<le> MAX_PASSWORD_LEN"
      "\<not> fst (check_rate env i w)" "u \<notin> set (login_in_progress (w_router w))"
      "server_find pf u w = None" "get_stored_hash True u (w_db w) \<noteq> []"
      "verify_password (pf_digest pf) p (get_stored_hash True u (w_db w))"
    and answers: "rows = history_rows (pf_desc pf) (pf_asc pf) u room 20 (w_db w)"
      "present = pf_set_order pf (set_insert u (online_users (w_router w)))"
      "msgs = [ok_msg ''LOGIN_OK'' u, history_resp room (map row_json rows),
        make_user_list_msg pf (clock env 0) (w_router (logged_in i u w))]"
    and downlink: "list_all2 (carried Q dump) msgs [m1, m2, m3]" "concat chunks = on_wire dump msgs"
      "member m1 ''type'' = Some (QString (qs ''LOGIN_OK''))" "member m1 ''from'' = Some (QString (utf u))"
      "member m2 ''type'' = Some (QString (qs ''HISTORY_RESP''))"
      "member m2 ''to'' = Some (QString (qs ''__room__''))"
      "member m2 ''data'' = Some (QArray items)" "list_all2 (reads_row Q utf) rows items"
      "member m3 ''type'' = Some (QString (qs ''USER_LIST''))"
      "member m3 ''data'' = Some (QArray (map (\<lambda>x. QString (utf x)) present))"
  shows "(\<exists>msg s' w'. recv_wakeups parse (map serve wakeups) (session_of w i) = (Some [msg], s') \<and>
      route pf env i msg w = (None, w') \<and> username (session_of w' i) = u \<and>
      (\<forall>j \<in> live_sids (w_server w). sent_to (cs_fd (session_of w j)) (w_server w') =
        sent_to (cs_fd (session_of w j)) (w_server w) @
        (if j = i then msgs
         else if is_authenticated (session_of w j) then [msgs ! 2, notify_msg (u @ txt_joined) (clock env 1)]
         else []))) \<and>
    (let a' = app_reads Q chunks (app_run Q (UiLogin user password) a) in
      m_state (app_login a') = Authenticated \<and> \<not> m_isLoading (app_login a') \<and>
      \<not> loginTimer (app_login a') \<and> \<not> m_isError (app_login a') \<and>
      m_currentUser (app_backend a') = utf u \<and>
      m_roomMessages (app_backend a') = map (shown_row Q utf (utf u)) rows \<and>
      m_onlineUsers (app_backend a') = map utf present)"
proof (intro conjI)
  let ?msg = "json_object [(''type'', JString ''LOGIN''), (''from'', JString u), (''content'', JString p)]"
  let ?a = "app_run Q (UiLogin user password) a"
  have run: "app_client ?a = send_json Q v (app_client a)" "app_backend ?a = app_backend a" "app_test ?a = app_test a"
    using page by (simp_all add: by_controller_def lc_login_def credentials_action_def case_prod_unfold
        client_acts_def send_login_def)
  have "wire_out (app_client ?a) = server_frame (qt_print Q v)"
    unfolding run using page by (simp add: send_json_def client_frame_eq)
  with frames_received [of parse "[qt_print Q v]" "[?msg]" wakeups "session_of w i"] uplink page(7)
  obtain s' where read: "recv_wakeups parse (map serve wakeups) (session_of w i) = (Some [?msg], s')"
    by auto
  have fields: "json_value ?msg ''type'' [] = Inr ''LOGIN''" "json_value ?msg ''from'' [] = Inr u"
    "json_value ?msg ''content'' [] = Inr p"
    by (simp_all add: json_value_object)
  from login_answers [OF server fields login] read
  show "\<exists>msg s' w'. recv_wakeups parse (map serve wakeups) (session_of w i) = (Some [msg], s') \<and>
      route pf env i msg w = (None, w') \<and> username (session_of w' i) = u \<and>
      (\<forall>j \<in> live_sids (w_server w). sent_to (cs_fd (session_of w j)) (w_server w') =
        sent_to (cs_fd (session_of w j)) (w_server w) @
        (if j = i then msgs
         else if is_authenticated (session_of w j) then [msgs ! 2, notify_msg (u @ txt_joined) (clock env 1)]
         else []))"
    by (auto simp: answers login_history_def Let_def)
  have "recv_buffer (app_client ?a) = []" unfolding run using page(3) by simp
  from carried_signals [OF downlink(1,2) this] downlink(3-7,9,10)
  have "snd (read_all Q chunks (app_client ?a)) = [SigLoginOk (utf u),
      SigHistoryReceived (qs ''__room__'') items, SigUserListUpdated (map utf present)]"
    by (simp add: dispatch_message_def comp_def del: app_run.simps)
  with app_reads_eq [of ?a Q chunks] run page(4) history_shown [OF downlink(8)]
  show "let a' = app_reads Q chunks ?a in
      m_state (app_login a') = Authenticated \<and> \<not> m_isLoading (app_login a') \<and>
      \<not> loginTimer (app_login a') \<and> \<not> m_isError (app_login a') \<and>
      m_currentUser (app_backend a') = utf u \<and>
      m_roomMessages (app_backend a') = map (shown_row Q utf (utf u)) rows \<and>
      m_onlineUsers (app_backend a') = map utf present"
    by (simp add: Let_def backend_run_def slot_defs loadFromJsonArray_def setUsers_def del: app_run.simps)
qed

text \<open>Amy signs in while Bob is online.\<close>

definition amy_account :: world where
  "amy_account = (logged_in 1 ''bob'' (sample_world 2))
     \<lparr>w_db := sample_database\<lparr>users := [(''amy'', sample_hash)]\<rparr>\<rparr>"

definition login_dump :: "json \<Rightarrow> string option" where
  "login_dump msg = (if json_value msg ''type'' [] = Inr ''LOGIN_OK'' then Some ''a''
     else if json_value msg ''type'' [] = Inr ''HISTORY_RESP'' then Some ''b'' else Some ''c'')"

definition confirmation_line :: "(qstring \<times> qjson) list" where
  "confirmation_line = [(qs ''type'', QString (qs ''LOGIN_OK'')), (qs ''from'', QString (qs ''amy''))]"

definition users_line :: "(qstring \<times> qjson) list" where
  "users_line = [(qs ''type'', QString (qs ''USER_LIST'')),
     (qs ''data'', QArray (map (\<lambda>x. QString (qs x)) (set_insert ''amy'' [''bob''])))]"

definition login_parse :: "bytes \<Rightarrow> qjson option" where
  "login_parse b = Some (QObject (if b = [97] then confirmation_line
     else if b = [98] then history_answer_line else users_line))"

lemma amy_account_simps:
  "sessions (w_server amy_account) = [(7, 0), (8, 1)]"
  "username (session_of amy_account j) = (if j = 1 then ''bob'' else [])"
  "cs_fd (session_of amy_account 0) = 7" "cs_fd (session_of amy_account (Suc 0)) = 8"
  "ip_address (session_of amy_account 0) = ''10.0.0.1''" "recv_buf (session_of amy_account 0) = []"
  "w_db amy_account = sample_database\<lparr>users := [(''amy'', sample_hash)]\<rparr>"
  "server_set (w_router amy_account)" "login_in_progress (w_router amy_account) = []"
  "login_attempts (w_router amy_account) = []" "online_users (w_router amy_account) = [''bob'']"
  by (simp_all add: amy_account_def logged_in_def sample_world_def upt_rec accept_one_def Let_def new_server_def
      session_defs set_server_def new_router_def set_insert_def)

lemma login_lines:
  "member confirmation_line ''type'' = Some (QString (qs ''LOGIN_OK''))"
  "member confirmation_line ''from'' = Some (QString (qs ''amy''))"
  "member users_line ''type'' = Some (QString (qs ''USER_LIST''))"
  "member users_line ''data'' = Some (QArray (map (\<lambda>x. QString (qs x)) (set_insert ''amy'' [''bob''])))"
  by (simp_all add: member_def confirmation_line_def users_line_def)

lemma login_carried:
  "list_all2 (carried (talk_qt login_parse) login_dump)
     [ok_msg ''LOGIN_OK'' ''amy'', history_resp t rows, make_user_list_msg pf now r]
     [confirmation_line, history_answer_line, users_line]"
  "on_wire login_dump [ok_msg ''LOGIN_OK'' ''amy'', history_resp t rows, make_user_list_msg pf now r] =
     [0, 0, 0, 1, 97, 0, 0, 0, 1, 98, 0, 0, 0, 1, 99]"
  by (simp_all add: carried_def on_wire_def login_dump_def login_parse_def ok_msg_def history_resp_def
      make_user_list_msg_def json_value_object sample_letters body_ok_def MAX_BODY_LEN_def
      server_frame_def htonl_bytes_def)

theorem sign_in_end_to_end_witness:
  "\<exists>msg s' w'. recv_wakeups
      (\<lambda>b. Parsed (json_object [(''type'', JString ''LOGIN''), (''from'', JString ''amy''), (''content'', JString ''pw'')]))
      (map serve [[[0, 0]], [[0, 1], [112]]]) (session_of amy_account 0) = (Some [msg], s') \<and>
    route sample_platform sample_env 0 msg amy_account = (None, w') \<and>
    username (session_of w' 0) = ''amy'' \<and> length (sent_to 7 (w_server w')) = 3 + length (sent_to 7 (w_server amy_account)) \<and>
    (let a' = app_reads (talk_qt login_parse) [[0, 0, 0, 1, 97, 0, 0], [0, 1, 98, 0, 0, 0, 1, 99]]
        (app_run (talk_qt login_parse) (UiLogin (qs ''amy'') (qs ''pw''))
          ((start_app [])\<lparr>app_client := new_chat_client\<lparr>socket := Some SocketConnected\<rparr>\<rparr>))
     in m_state (app_login a') = Authenticated \<and> m_currentUser (app_backend a') = qs ''amy'' \<and>
       map content (m_roomMessages (app_backend a')) = [qs ''one'', qs ''two'', qs ''three''] \<and>
       set (m_onlineUsers (app_backend a')) = {qs ''amy'', qs ''bob''})"
proof -
  let ?Q = "talk_qt login_parse"
  let ?a = "(start_app [])\<lparr>app_client := new_chat_client\<lparr>socket := Some SocketConnected\<rparr>\<rparr>"
  let ?parse = "\<lambda>b :: string. Parsed (json_object
    [(''type'', JString ''LOGIN''), (''from'', JString ''amy''), (''content'', JString ''pw'')])"
  have page: "is_connected (app_client ?a)" "wire_out (app_client ?a) = []" "recv_buffer (app_client ?a) = []"
    "\<not> app_test ?a" "qt_trim ?Q (qs ''amy'') \<noteq> []" "qt_trim ?Q (qs ''pw'') \<noteq> []"
    by (simp_all add: start_app_def is_connected_def new_chat_client_def qs_def)
  have up: "concat (map concat [[[0, 0]], [[0, 1], [112]]]) =
      wire_out (app_client (app_run ?Q (UiLogin (qs ''amy'') (qs ''pw'')) ?a))"
    "\<forall>cs \<in> set [[[0, 0]], [[0, 1], [112 :: byte]]]. [] \<notin> set cs \<and> length (concat cs) + 4 \<le> MAX_BODY_LEN"
    using page by (simp_all add: by_controller_def lc_login_def credentials_action_def case_prod_unfold
        client_acts_def send_login_def send_json_def client_frame_eq server_frame_def htonl_bytes_def
        start_app_def MAX_BODY_LEN_def)
  have server: "iteration_order (pf_table_order sample_platform)" "table_ok (w_server amy_account)"
    "server_set (w_router amy_account)" "0 \<in> live_sids (w_server amy_account)" "prep_ok sample_env"
    "\<not> is_authenticated (session_of amy_account 0)"
    by (simp_all add: sample_platform_def table_ok_def live_sids_def amy_account_simps sample_env_def is_authenticated_def)
  have stored: "get_stored_hash True ''amy'' (w_db amy_account) = sample_hash"
    by (simp add: get_stored_hash_def amy_account_simps c_str_def)
  have login: "''amy'' \<noteq> []" "''pw'' \<noteq> []" "length ''amy'' \<le> MAX_USERNAME_LEN" "length ''pw'' \<le> MAX_PASSWORD_LEN"
    "\<not> fst (check_rate sample_env 0 amy_account)" "''amy'' \<notin> set (login_in_progress (w_router amy_account))"
    "server_find sample_platform ''amy'' amy_account = None"
    "get_stored_hash True ''amy'' (w_db amy_account) \<noteq> []"
    "verify_password (pf_digest sample_platform) ''pw'' (get_stored_hash True ''amy'' (w_db amy_account))"
    by (simp_all add: MAX_USERNAME_LEN_def MAX_PASSWORD_LEN_def amy_account_simps stored [unfolded amy_account_simps]
        server_find_def find_session_def sample_platform_def get_username_def verify_sample [unfolded sample_platform_def, simplified])
  have rows: "sample_rows = history_rows (pf_desc sample_platform) (pf_asc sample_platform) ''amy'' room 20 (w_db amy_account)"
    by (simp add: sample_history amy_account_simps)
  have online: "set_insert ''amy'' [''bob''] =
      pf_set_order sample_platform (set_insert ''amy'' (online_users (w_router amy_account)))"
    by (simp add: amy_account_simps sample_platform_def)
  have chunks: "concat [[0, 0, 0, 1, 97, 0, 0], [0, 1, 98, 0, 0, 0, 1, 99]] = on_wire login_dump
      [ok_msg ''LOGIN_OK'' ''amy'', history_resp room (map row_json sample_rows),
       make_user_list_msg sample_platform (clock sample_env 0) (w_router (logged_in 0 ''amy'' amy_account))]"
    by (simp add: login_carried)
  note e2e = sign_in_end_to_end [where parse = ?parse, OF page sample_sockets(4) refl up amy_account_simps(6) refl server login rows online
      refl login_carried(1) chunks login_lines(1,2) history_answer_members sample_items login_lines(3,4)]
  have "set (map qs (set_insert ''amy'' [''bob''])) = {qs ''amy'', qs ''bob''}"
    by (auto simp: set_insert_def)
  moreover have "map content (map (shown_row ?Q qs me) sample_rows) = [qs ''one'', qs ''two'', qs ''three'']" for me
    by (simp add: shown_row_def sample_rows_def)
  moreover from e2e have "\<exists>msg s' w'. recv_wakeups ?parse (map serve [[[0, 0]], [[0, 1], [112]]]) (session_of amy_account 0) =
      (Some [msg], s') \<and> route sample_platform sample_env 0 msg amy_account = (None, w') \<and>
    username (session_of w' 0) = ''amy'' \<and> length (sent_to 7 (w_server w')) = 3 + length (sent_to 7 (w_server amy_account))"
    using server(4) by (elim conjE exE) (drule (1) bspec, auto simp: amy_account_simps)
  ultimately show ?thesis
    using conjunct2 [OF e2e] by (simp add: Let_def del: app_run.simps)
qed

end
