(* ===== verification/ThemeManager.thy ===== *)
theory ThemeManager
  imports ListModels
begin

text \<open>
  \<open>client/src/theme_manager.cpp\<close>: the four skins of the client and the current one. A
  \<open>QVariantMap\<close> is an association list; \<open>VReal m n\<close> is the number \<open>m / 10 ^ n\<close>.
\<close>

section \<open>State\<close>

type_synonym variant_map = "(qstring \<times> qvariant) list"

text \<open>A map filled by assignments, in order.\<close>

definition variant_map_of :: "(string \<times> qvariant) list \<Rightarrow> variant_map" where
  "variant_map_of entries = fold (\<lambda>(k, v). alist_put (qs k) v) entries []"

record theme_manager =
  m_currentSkin :: qstring
  m_skins :: "(qstring \<times> variant_map) list"

datatype theme_signal = SkinChanged

section \<open>The skins\<close>

definition minimal_skin :: variant_map where
  "minimal_skin = variant_map_of
     [(''canvas'', VString (qs ''#FFFFFF'')), (''surface'', VString (qs ''#FAFAFA'')),
      (''text'', VString (qs ''#1A1A1A'')), (''muted'', VString (qs ''#8E8E93'')),
      (''subtle'', VString (qs ''#AEAEB2'')), (''border'', VString (qs ''#E5E5EA'')),
      (''accent'', VString (qs ''#8E8E93'')), (''accentHover'', VString (qs ''#636366'')),
      (''success'', VString (qs ''#34C759'')), (''warning'', VString (qs ''#F0B232'')),
      (''danger'', VString (qs ''#ED4245'')), (''bubbleSelf'', VString (qs ''#F0F0F0'')),
      (''bubbleOther'', VString (qs ''#F2F2F7'')),
      (''bubbleSelfText'', VString (qs ''#1A1A1A'')),
      (''bubbleOtherText'', VString (qs ''#1A1A1A'')), (''radiusSm'', VInt 4),
      (''radiusMd'', VInt 8), (''radiusLg'', VInt 12), (''sidebarW'', VInt 260),
      (''bubbleMaxW'', VReal 55 2), (''avatarBg'', VString (qs ''#7C8CF0''))]"

definition dense_skin :: variant_map where
  "dense_skin = variant_map_of
     [(''canvas'', VString (qs ''#F0F0F5'')), (''surface'', VString (qs ''#FFFFFF'')),
      (''text'', VString (qs ''#1A1A2E'')), (''muted'', VString (qs ''#5A5A72'')),
      (''subtle'', VString (qs ''#9292A8'')), (''border'', VString (qs ''#D8D8E0'')),
      (''accent'', VString (qs ''#5865F2'')), (''accentHover'', VString (qs ''#4752C4'')),
      (''success'', VString (qs ''#23A559'')), (''warning'', VString (qs ''#F0B232'')),
      (''danger'', VString (qs ''#ED4245'')), (''bubbleSelf'', VString (qs ''#DDE3FF'')),
      (''bubbleOther'', VString (qs ''#FFFFFF'')),
      (''bubbleSelfText'', VString (qs ''#1A1A2E'')),
      (''bubbleOtherText'', VString (qs ''#1A1A2E'')), (''radiusSm'', VInt 6),
      (''radiusMd'', VInt 10), (''radiusLg'', VInt 16), (''sidebarW'', VInt 280),
      (''bubbleMaxW'', VReal 70 2), (''avatarBg'', VString (qs ''#5865F2''))]"

definition motion_skin :: variant_map where
  "motion_skin = variant_map_of
     [(''canvas'', VString (qs ''#E8E8EC'')),
      (''surface'', VString (qs ''rgba(255,255,255,0.55)'')),
      (''text'', VString (qs ''#1a1a2e'')), (''muted'', VString (qs ''#555570'')),
      (''subtle'', VString (qs ''#8888a0'')),
      (''border'', VString (qs ''rgba(255,255,255,0.6)'')),
      (''accent'', VString (qs ''#4a6cf7'')), (''accentHover'', VString (qs ''#3b5de7'')),
      (''success'', VString (qs ''#22c55e'')), (''warning'', VString (qs ''#F0B232'')),
      (''danger'', VString (qs ''#FF3B30'')),
      (''bubbleSelf'', VString (qs ''rgba(74,108,247,0.88)'')),
      (''bubbleOther'', VString (qs ''rgba(255,255,255,0.7)'')),
      (''bubbleSelfText'', VString (qs ''#FFFFFF'')),
      (''bubbleOtherText'', VString (qs ''#1a1a2e'')), (''radiusSm'', VInt 8),
      (''radiusMd'', VInt 16), (''radiusLg'', VInt 20), (''sidebarW'', VInt 280),
      (''bubbleMaxW'', VReal 70 2), (''avatarBg'', VString (qs ''#4a6cf7''))]"

definition imsg_skin :: variant_map where
  "imsg_skin = variant_map_of
     [(''canvas'', VString (qs ''#FFFFFF'')), (''surface'', VString (qs ''#FFFFFF'')),
      (''text'', VString (qs ''#000000'')), (''muted'', VString (qs ''#8E8E93'')),
      (''subtle'', VString (qs ''#AEAEB2'')), (''border'', VString (qs ''#E5E5EA'')),
      (''accent'', VString (qs ''#007AFF'')), (''accentHover'', VString (qs ''#0056CC'')),
      (''success'', VString (qs ''#34C759'')), (''warning'', VString (qs ''#FF9500'')),
      (''danger'', VString (qs ''#FF3B30'')), (''bubbleSelf'', VString (qs ''#007AFF'')),
      (''bubbleOther'', VString (qs ''#E9E9EB'')),
      (''bubbleSelfText'', VString (qs ''#FFFFFF'')),
      (''bubbleOtherText'', VString (qs ''#000000'')), (''radiusSm'', VInt 8),
      (''radiusMd'', VInt 18), (''radiusLg'', VInt 16), (''sidebarW'', VInt 320),
      (''bubbleMaxW'', VReal 65 2), (''avatarBg'', VString (qs ''#007AFF''))]"

definition new_theme_manager :: theme_manager where
  "new_theme_manager = \<lparr>m_currentSkin = qs ''Minimal'',
     m_skins = fold (\<lambda>(k, v). alist_put (qs k) v)
       [(''Minimal'', minimal_skin), (''Dense'', dense_skin), (''Motion'', motion_skin),
        (''iMessage'', imsg_skin)] []\<rparr>"

section \<open>Operations\<close>

text \<open>\<open>operator[]\<close> of a constant map yields an empty value for a key it does not have.\<close>

definition skin :: "qstring \<Rightarrow> theme_manager \<Rightarrow> variant_map" where
  "skin name t =
     (let key = (if name = [] then m_currentSkin t else name) in
      case map_of (m_skins t) key of
        Some s \<Rightarrow> s
      | None \<Rightarrow> (case map_of (m_skins t) (qs ''Minimal'') of Some s \<Rightarrow> s | None \<Rightarrow> []))"

definition skinNames :: "qstring list" where
  "skinNames = [qs ''Minimal'', qs ''Dense'', qs ''Motion'', qs ''iMessage'']"

definition setSkin :: "qstring \<Rightarrow> theme_manager \<Rightarrow> theme_manager \<times> theme_signal list" where
  "setSkin name t =
     (if map_of (m_skins t) name \<noteq> None \<and> m_currentSkin t \<noteq> name
      then (t\<lparr>m_currentSkin := name\<rparr>, [SkinChanged]) else (t, []))"

definition currentSkin :: "theme_manager \<Rightarrow> qstring" where
  "currentSkin t = m_currentSkin t"

section \<open>Every skin has the same entries\<close>

definition colour_keys :: "string list" where
  "colour_keys = [''canvas'', ''surface'', ''text'', ''muted'', ''subtle'', ''border'', ''accent'',
     ''accentHover'', ''success'', ''warning'', ''danger'', ''bubbleSelf'', ''bubbleOther'',
     ''bubbleSelfText'', ''bubbleOtherText'', ''avatarBg'']"

definition pixel_keys :: "string list" where
  "pixel_keys = [''radiusSm'', ''radiusMd'', ''radiusLg'', ''sidebarW'']"

text \<open>What the QML components ask a skin for besides the colours.\<close>

definition qml_only_keys :: "string list" where
  "qml_only_keys = [''xs'', ''sm'', ''md'', ''lg'', ''full'', ''size'', ''title'', ''titleSize'',
     ''body'', ''bodySize'', ''caption'', ''captionSize'']"

fun is_colour :: "qvariant option \<Rightarrow> bool" where
  "is_colour (Some (VString s)) = (s \<noteq> [])"
| "is_colour _ = False"

fun is_pixels :: "qvariant option \<Rightarrow> bool" where
  "is_pixels (Some (VInt n)) = (0 < n)"
| "is_pixels _ = False"

text \<open>A ratio between 0 and 1.\<close>

fun is_ratio :: "qvariant option \<Rightarrow> bool" where
  "is_ratio (Some (VReal m n)) = (0 < m \<and> m < 10 ^ n)"
| "is_ratio _ = False"

definition skin_ok :: "variant_map \<Rightarrow> bool" where
  "skin_ok s \<longleftrightarrow>
     list_all (\<lambda>k. is_colour (map_of s (qs k))) colour_keys \<and>
     list_all (\<lambda>k. is_pixels (map_of s (qs k))) pixel_keys \<and>
     is_ratio (map_of s (qs ''bubbleMaxW'')) \<and>
     list_all (\<lambda>k. map_of s (qs k) = None) qml_only_keys"

lemma map_of_variant_map:
  "distinct (map fst es) \<Longrightarrow> map_of (variant_map_of es) (qs k) = map_of es k"
  unfolding variant_map_of_def by (subst map_of_fold_put) (auto split: option.split)

lemma skins_ok: "skin_ok minimal_skin" "skin_ok dense_skin" "skin_ok motion_skin" "skin_ok imsg_skin"
  by (simp_all add: skin_ok_def minimal_skin_def dense_skin_def motion_skin_def imsg_skin_def
      map_of_variant_map colour_keys_def pixel_keys_def qml_only_keys_def)

definition theme_inv :: "theme_manager \<Rightarrow> bool" where
  "theme_inv t \<longleftrightarrow> m_skins t = m_skins new_theme_manager \<and> currentSkin t \<in> set skinNames"

lemma new_skins: "map_of (m_skins new_theme_manager) = map_of
    [(qs ''Minimal'', minimal_skin), (qs ''Dense'', dense_skin), (qs ''Motion'', motion_skin),
     (qs ''iMessage'', imsg_skin)]"
  by (auto simp: new_theme_manager_def fun_eq_iff)

lemma theme_inv_set: "theme_inv t \<Longrightarrow> theme_inv (fst (setSkin name t))"
  by (auto simp: theme_inv_def setSkin_def currentSkin_def new_skins skinNames_def split: if_splits)

lemma theme_inv_sets: "theme_inv t \<Longrightarrow> theme_inv (fold (\<lambda>n t. fst (setSkin n t)) names t)"
  by (induction names arbitrary: t) (simp_all add: theme_inv_set)

lemma theme_inv_new: "theme_inv new_theme_manager"
  by (simp add: theme_inv_def currentSkin_def skinNames_def new_theme_manager_def)

lemma skin_is_ok: "theme_inv t \<Longrightarrow> skin_ok (skin name t)"
  using skins_ok by (auto simp: skin_def theme_inv_def new_skins Let_def split: option.split if_splits)

section \<open>Properties\<close>


end
