(* ===== verification/FontManager.thy ===== *)
theory FontManager
  imports QtBase
begin

text \<open>
  \<open>client/src/font_manager.cpp\<close>: the font families of the client. The font database of Qt is the
  pair of functions \<open>font_db\<close>: what \<open>addApplicationFont\<close> answers for a resource (-1 on failure)
  and the families of a loaded font.
\<close>

record font_db =
  addApplicationFont :: "string \<Rightarrow> int"
  applicationFontFamilies :: "int \<Rightarrow> qstring list"

record font_manager =
  m_bodyFontFamily :: qstring
  m_titleFontFamily :: qstring
  m_codeFontFamily :: qstring

definition new_font_manager :: font_manager where
  "new_font_manager = \<lparr>m_bodyFontFamily = qs ''LXGW WenKai'', m_titleFontFamily = qs ''Newsreader'',
     m_codeFontFamily = qs ''Cascadia Code''\<rparr>"

definition loadFonts :: "font_db \<Rightarrow> font_manager \<Rightarrow> font_manager \<times> bool" where
  "loadFonts D f =
     (let id1 = addApplicationFont D '':/fonts/LXGWWenKai-Regular.ttf'';
          f1 = (if id1 = -1 then f
                else let families = applicationFontFamilies D id1 in
                  if families \<noteq> [] then f\<lparr>m_bodyFontFamily := hd families\<rparr> else f);
          id2 = addApplicationFont D '':/fonts/LXGWWenKai-Medium.ttf'';
          id3 = addApplicationFont D '':/fonts/Newsreader-VariableFont_opsz,wght.ttf'';
          f2 = (if id3 = -1 then f1
                else let families = applicationFontFamilies D id3 in
                  if families \<noteq> [] then f1\<lparr>m_titleFontFamily := hd families\<rparr> else f1)
      in (f2, True))"

datatype font_weight = Normal | DemiBold

record qfont =
  family :: qstring
  pointSize :: int
  weight :: font_weight

definition bodyFont :: "int \<Rightarrow> font_manager \<Rightarrow> qfont" where
  "bodyFont size' f = \<lparr>family = m_bodyFontFamily f, pointSize = size', weight = Normal\<rparr>"

definition titleFont :: "int \<Rightarrow> font_manager \<Rightarrow> qfont" where
  "titleFont size' f = \<lparr>family = m_titleFontFamily f, pointSize = size', weight = DemiBold\<rparr>"

definition codeFont :: "int \<Rightarrow> font_manager \<Rightarrow> qfont" where
  "codeFont size' f = \<lparr>family = m_codeFontFamily f, pointSize = size', weight = Normal\<rparr>"

section \<open>Properties\<close>

text \<open>
  Missing fonts are survived but never reported: whatever the font database answers,
  \<open>loadFonts\<close> returns success, so that the warning of \<open>main\<close> is never shown; a font that does
  not load leaves its default family in place, a font that loads takes its first family, and the
  code font is never changed.
\<close>

theorem fonts_never_fail:
  "snd (loadFonts D f) \<and>
   family (bodyFont n (fst (loadFonts D f))) =
     (let i = addApplicationFont D '':/fonts/LXGWWenKai-Regular.ttf'' in
      if i \<noteq> -1 \<and> applicationFontFamilies D i \<noteq> [] then hd (applicationFontFamilies D i)
      else family (bodyFont n f)) \<and>
   family (titleFont n (fst (loadFonts D f))) =
     (let i = addApplicationFont D '':/fonts/Newsreader-VariableFont_opsz,wght.ttf'' in
      if i \<noteq> -1 \<and> applicationFontFamilies D i \<noteq> [] then hd (applicationFontFamilies D i)
      else family (titleFont n f)) \<and>
   codeFont n (fst (loadFonts D f)) = codeFont n f"
  by (simp add: loadFonts_def bodyFont_def titleFont_def codeFont_def Let_def)

end
