(* ===== verification/ClientMain.thy ===== *)
theory ClientMain
  imports ClientApp ThemeManager FontManager
begin

text \<open>
  The entry point of the client, \<open>client/main.cpp\<close>, around the application of \<open>ClientApp\<close>: the
  process environment, the fonts, the objects offered to the QML engine, what is written to
  the standard error stream, and the exit code. The QML engine and the Qt event loop are
  parameters.
\<close>

section \<open>The process\<close>

datatype context_value = CtxChatClient | CtxChatBackend | CtxLoginController | CtxThemeManager | CtxFlag bool

datatype err_line =
    FontsMissing
  | LoadingQml string
  | QmlWarning string
  | RootObjects nat
  | LoadFailed

datatype rounding_policy = PassThrough

record client_process =
  pr_rounding :: rounding_policy
  pr_name :: string
  pr_version :: string
  pr_import_paths :: "string list"
  pr_app :: client_app
  pr_fonts :: font_manager
  pr_theme :: theme_manager
  pr_environment :: "(string \<times> string) list"
  pr_context :: "(string \<times> context_value) list"
  pr_stderr :: "err_line list"

definition setenv :: "string \<Rightarrow> string \<Rightarrow> (string \<times> string) list \<Rightarrow> (string \<times> string) list" where
  "setenv = alist_put"

text \<open>\<open>qgetenv\<close> yields the empty string for a variable that is not set.\<close>

definition getenv :: "string \<Rightarrow> (string \<times> string) list \<Rightarrow> string" where
  "getenv v env = (case map_of env v of None \<Rightarrow> [] | Some s \<Rightarrow> s)"

definition early_environment :: "(string \<times> string) list \<Rightarrow> (string \<times> string) list" where
  "early_environment env =
     setenv ''QML_DISABLE_DISK_CACHE'' ''1'' (setenv ''QT_QUICK_CONTROLS_STYLE'' ''Basic'' env)"

definition qt_path :: string where
  "qt_path = ''C:/Qt/6.8.3/mingw_64/bin;C:/Qt/Tools/mingw1310_64/bin;''"

definition qml_path :: string where
  "qml_path = ''D:/ChatBox/LinuxChat/client/qml/main.qml''"

definition context_properties :: "bool \<Rightarrow> (string \<times> context_value) list" where
  "context_properties isTestMode =
     [(''chatClient'', CtxChatClient), (''chatBackend'', CtxChatBackend),
      (''loginController'', CtxLoginController), (''themeMgr'', CtxThemeManager),
      (''isTestMode'', CtxFlag isTestMode)]"

text \<open>
  \<open>main\<close> up to the loading of the QML file. The warning about the fonts goes to the log stream,
  which is the standard error stream too.
\<close>

definition prepare_client :: "font_db \<Rightarrow> qstring list \<Rightarrow> (string \<times> string) list \<Rightarrow> client_process" where
  "prepare_client D argv env =
     (let env1 = early_environment env;
          (fonts, ok) = loadFonts D new_font_manager;
          app = start_app argv
      in \<lparr>pr_rounding = PassThrough, pr_name = ''LinuxChat'', pr_version = ''1.0'',
          pr_import_paths = [''C:/Qt/6.8.3/mingw_64/qml''], pr_app = app, pr_fonts = fonts, pr_theme = new_theme_manager,
          pr_environment = setenv ''PATH'' (qt_path @ getenv ''PATH'' env1) env1,
          pr_context = context_properties (app_test app),
          pr_stderr = (if ok then [] else [FontsMissing]) @ [LoadingQml qml_path]\<rparr>)"

text \<open>
  \<open>load\<close> is what the engine makes of the file: its warnings and the number of root objects;
  \<open>exec\<close> runs the event loop. The result is the exit code, with the process when the event loop
  has ended, or when it is never entered.
\<close>

definition client_main ::
  "font_db \<Rightarrow> (client_process \<Rightarrow> string list \<times> nat) \<Rightarrow> (client_process \<Rightarrow> int \<times> client_process) \<Rightarrow>
   qstring list \<Rightarrow> (string \<times> string) list \<Rightarrow> int \<times> client_process" where
  "client_main D load exec argv env =
     (let p = prepare_client D argv env;
          (warnings, roots) = load p;
          p1 = p\<lparr>pr_stderr := pr_stderr p @ map QmlWarning warnings @ [RootObjects roots]\<rparr>
      in if roots = 0 then (-1, p1\<lparr>pr_stderr := pr_stderr p1 @ [LoadFailed]\<rparr>) else exec p1)"

section \<open>What main promises\<close>

lemma prepare_client_simps:
  "pr_app (prepare_client D argv env) = start_app argv"
  "pr_theme (prepare_client D argv env) = new_theme_manager"
  "FontsMissing \<notin> set (pr_stderr (prepare_client D argv env))"
  by (simp_all add: prepare_client_def Let_def case_prod_unfold fonts_never_fail)

text \<open>
  What the QML views find: the test flag is the one the application was started with, and the
  search path of the libraries starts with Qt's own directories and keeps the user's.
\<close>

lemma prepared_context:
  "map_of (pr_context (prepare_client D argv env)) ''isTestMode'' = Some (CtxFlag (test_flag (drop 1 argv)))"
  "getenv ''PATH'' (pr_environment (prepare_client D argv env)) = qt_path @ getenv ''PATH'' env"
  "getenv ''QT_QUICK_CONTROLS_STYLE'' (pr_environment (prepare_client D argv env)) = ''Basic''"
  by (simp_all add: prepare_client_def Let_def case_prod_unfold context_properties_def start_app_def
      getenv_def setenv_def early_environment_def)

text \<open>The event loop is entered exactly when the QML file yields a root object.\<close>

lemma client_main_exit:
  "snd (load (prepare_client D argv env)) = 0 \<Longrightarrow> fst (client_main D load exec argv env) = -1 \<and>
     last (pr_stderr (snd (client_main D load exec argv env))) = LoadFailed"
  "snd (load (prepare_client D argv env)) \<noteq> 0 \<Longrightarrow> \<exists>p. client_main D load exec argv env = exec p \<and>
     pr_app p = start_app argv \<and> LoadFailed \<notin> set (pr_stderr p)"
  by (auto simp: client_main_def Let_def case_prod_unfold prepare_client_simps)
     (auto simp: prepare_client_def Let_def case_prod_unfold split: if_splits)

end
