(* ===== verification/Spec2Isabelle.thy ===== *)
theory Spec2Isabelle
  imports FineSafety FineRaces SendRace EventLoop Shutdown ServerLifetime SignIn ClientMain
begin

text \<open>
  LinuxChat: a chat server for Linux (C++17, epoll, a thread pool, SQLite) and a Qt client, which
  talk JSON messages in frames over TCP. This development models both programs and proves what
  makes them correct, and where they are not, exhibits it.

  \<^bold>\<open>The program and its parts.\<close> The event loop of \<open>server/src/epoll_server.cpp\<close> accepts connections,
  reads frames (\<open>server/src/protocol.cpp\<close>) and enqueues a task per message on the thread pool
  (\<open>server/src/thread_pool.cpp\<close>). A worker drops a task whose session has been removed in the
  meantime (its generation has changed) and otherwise calls \<open>MessageRouter::route\<close>
  (\<open>server/src/message_router.cpp\<close>), which registers and logs users in against the database
  (\<open>server/src/database.cpp\<close>), stores messages and sends replies and broadcasts through the server's
  session table. \<open>server/main.cpp\<close> puts the parts together. In the client \<open>ChatClient\<close>
  (\<open>client/src/chat_client.cpp\<close>) owns the socket and turns frames into signals; \<open>ChatBackend\<close>
  (\<open>chat_backend.cpp\<close>) fills the list models the QML views show, \<open>LoginController\<close>
  (\<open>login_controller.cpp\<close>) runs the login page, \<open>client/main.cpp\<close> connects them.

  \<^bold>\<open>Theories of the server.\<close>
  \<^item> \<open>Prelude\<close>: bytes and strings, association lists, sets as lists, exceptions, the collections of
    facts. \<open>Json\<close>: the value type of the JSON library and \<open>value()\<close> with its two type errors.
  \<^item> \<open>Framing\<close>: the interface of a length-prefixed framing (locale \<open>framing\<close>), with the theorem on
    arbitrary fragmentation; both ends interpret it. \<open>Protocol\<close>: \<open>protocol.cpp\<close>; \<open>recv_msgs\<close> reads
    until the kernel has no more, \<open>extract_frames\<close> is its loop over complete frames, \<open>write_loop\<close> the
    loop of \<open>write_all\<close> (partial, so that its termination is a theorem).
  \<^item> \<open>ClientSession\<close>, \<open>ThreadPool\<close> (locale \<open>task_queue\<close>, workers as a step relation), \<open>Database\<close>
    (locale \<open>user_store\<close>, tables as lists, the two history queries) and \<open>DatabaseInit\<close>.
  \<^item> \<open>RateLimit\<close>, \<open>Auth\<close>, \<open>Texts\<close> and \<open>MessageRouter\<close>: \<open>message_router.cpp\<close>. A handler maps the
    message and the \<open>world\<close> (router, server, database) to an optional exception and the new world.
  \<^item> \<open>EpollServer\<close>: the session table and messaging (locale \<open>session_registry\<close>). \<open>ServerMain\<close>: the
    event handlers, the worker's task, disconnecting, the command line, and the step relation
    \<open>sys_step\<close> of the whole server with its reachable states. \<open>EventLoop\<close>: constructor, \<open>run\<close>, \<open>stop\<close>,
    destructor and \<open>main\<close>, with the loop over \<open>epoll_wait\<close>, which refines \<open>sys_step\<close>.
  \<^item> \<open>RouterLaws\<close>: what a dispatched message can change (the relation \<open>effect\<close>) and the properties of
    the handlers; \<open>HistoryLaws\<close>: private messages in later histories, tricks with names.
    \<open>ChatSpec\<close>: the abstract chat service. \<open>ServerInvariant\<close>: the invariant of the server, its preservation by every step, and the refinement of \<open>ChatSpec\<close>. \<open>ServerSafety\<close>: the
    properties of all executions.
  \<^item> \<open>LoginRace\<close>: logins and disconnects as small-step programs whose steps are the accesses to
    shared state; equivalence with the handlers, and what disconnects break.
  \<^item> \<open>Programs\<close>: programs of atomic steps on a shared state, their interleaving under a schedule, and
    the rule for what every interleaving keeps (locale \<open>growing\<close>). \<open>FineHandlers\<close>: every handler of
    \<open>message_router.cpp\<close> and the messaging operations it calls as such programs. \<open>FineServer\<close>: the
    event loop's programs and the step relation \<open>fine_step\<close> of loop and workers; it simulates
    \<open>sys_step\<close>. \<open>FineSafety\<close>: what all its executions keep. \<open>FineRegistry\<close>: names and the online
    list when messages of different sessions are interleaved, each program followed through the
    standings of its session. \<open>FineRaces\<close>: what two messages of one client can do to each other.
  \<^item> \<open>Shutdown\<close>: the destruction of \<open>main\<close>'s locals and the server's members while the workers drain
    the queue.
  \<^item> \<open>LockOrder\<close>: code by the mutexes it acquires, its traces, and the rule that ranked acquisition
    cannot deadlock (locale \<open>lock_order\<close>). \<open>Lifetime\<close>: references to session objects, their destruction
    with the last one, descriptors and the reuse of their numbers, and the rule that code which works
    only on what it holds never meets a destroyed object (locale \<open>careful_code\<close>). \<open>ServerLocks\<close>: the
    mutexes and the references of every operation of the server and of its two kinds of threads;
    \<open>ServerLifetime\<close>: the lives of its sessions.
  \<^item> \<open>SendRace\<close>: concurrent senders to one client, one \<open>send\<close> of the kernel per step, with and
    without \<open>send_mutex_\<close>.

  \<^bold>\<open>Theories of the client.\<close>
  \<^item> \<open>QtBase\<close>: strings as UTF-16 units, JSON values, sockets; what Qt computes is the record \<open>qt\<close>.
  \<^item> \<open>ChatClient\<close>: \<open>chat_client.cpp\<close>; an operation yields the new state and its signals in order.
  \<^item> \<open>ListModels\<close>: the three list models (locale \<open>list_model\<close>: a view that follows the announcements
    shows the rows). \<open>ChatBackend\<close>, \<open>LoginController\<close>, \<open>ThemeManager\<close>, \<open>FontManager\<close>: the files of
    those names.
  \<^item> \<open>ClientApp\<close>: the application: its parts, the delivery of signals, the events of views, network
    and timers, its reachable states and their invariant. \<open>ClientMain\<close>: \<open>main\<close> around it.
  \<^item> \<open>EndToEnd\<close>: the two programs together, requests and messages. \<open>SignIn\<close>: signing in and reading
    a history, from the view through the server back to the views.

  \<^bold>\<open>What is shown.\<close> Transport: streams are reassembled whatever the fragmentation at both ends, the
  two implementations of the framing agree, requests arrive in order, senders that hold
  the mutex never mix their frames, a room message goes from one
  user's keyboard to every user's screen, a private one to its addressee's, a login fills the views with what
  the server has, a requested history is shown as stored; sending terminates; buffers are bounded. Thread pool:
  first in, first out, nothing lost at shutdown, shutdown terminates. Database: histories are the
  newest messages in order, private ones stay private. Router: who can become whom, delivery of
  room and private messages, what exceptions leave behind. Whole server: the online registry
  invariant, stale tasks do nothing, refinement of the abstract service; with all threads
  interleaved, names are vouched for by passwords, nothing is taken back, and the registry of
  names survives messages of different sessions; the mutexes cannot deadlock; no thread works on a destroyed session or
  another connection's descriptor, and every connection is closed once; the event loop refines the step relation and ends after \<open>stop\<close>. Client:
  what the login page shows is true, the spinner ends, the models hold what was said, the views
  show the models. Defects are theorems too: a stranger can end the server, a reply sent
  without the mutex breaks a client's stream, the rate limiter never
  blocks, a leaked reservation locks a name, a disconnect in the middle of a login leaves a ghost or
  logs a user in twice, two messages of one client can leave a ghost, lose the sender or be stored
  and shown in different orders, a quick reconnect is missing from the online list, a client that
  does not read can hold up the event loop, messages queued at shutdown go to a destroyed router, a retried connection goes to the first server, a descriptor is closed twice
  (when \<open>listen\<close> fails, and when \<open>epoll_ctl\<close> refuses a connection, which can close another file).

  \<^bold>\<open>Bounds and fuel.\<close> No function of the model runs on fuel except \<open>login_run\<close> and \<open>leave_run\<close>, where
  15 and 10 steps suffice for every run without interruption (the equivalence lemmas show it), and
  \<open>write_loop\<close> is a partial function whose termination is proved. The connection counter is a 64-bit
  word; \<open>sys_step\<close> and \<open>loop_step\<close> stop accepting at \<open>2 ^ 63\<close> connections, where comparisons of
  generations would start to matter. Lengths of frames are 32-bit words at both ends.

  \<^bold>\<open>Granularity.\<close> In \<open>ServerMain\<close> a worker's task is one step, so the invariants of \<open>ServerSafety\<close>
  speak of executions in which the critical sections of one task are not interrupted. \<open>FineServer\<close>
  drops this assumption: a step is one critical section, one access to a session's name or pending
  login, one operation of the database (which takes the database's lock) or one message handed to
  a socket. Every coarse execution is a fine one, so what \<open>FineSafety\<close> shows holds of both; what is
  lost is exhibited in \<open>FineRaces\<close> and \<open>LoginRace\<close>. The accesses inside one critical section, the
  private buffers of the loop thread and the copying of a broadcast's targets under
  \<open>sessions_mutex_\<close> are one step each. The component \<open>heard\<close> of a fine state is bookkeeping: the tasks
  that were ever queued. A message is handed to the socket whole; \<open>SendRace\<close> drops this and says
  when it is justified. In \<open>ServerLocks\<close> conditions are left open and a thread's execution is a trace;
  in \<open>Lifetime\<close> the mutexes restrict nothing, so its results hold of more executions than there are;
  only an iteration over the table is taken to meet entries of the table, which \<open>sessions_mutex_\<close>
  makes true. \<open>sessions_outlive_use\<close> assumes that \<open>epoll_ctl\<close> accepts every connection (\<open>tidy\<close>).

  \<^bold>\<open>Parameters.\<close> The kernel (results of \<open>recv\<close>, \<open>send\<close>, \<open>accept4\<close>, system calls of the constructor),
  clocks, the random generator, SHA-256, the JSON parsers and printers, SQLite's decisions, hash
  table orders and Qt are arguments of the definitions that use them; the hypotheses on them say
  what their documentation says (\<open>iteration_order\<close>, \<open>order_by_desc\<close>, \<open>abort_documented\<close>,
  \<open>outcome_ok\<close>, \<open>socket_can\<close>). In \<open>ClientMain\<close> the QML engine and the event loop are functions.

  \<^bold>\<open>Not modelled.\<close> \<open>server/include/log_utils.h\<close> and log output; the QML sources (they appear as the
  events of \<open>ClientApp\<close>; a slot that calls back into the client from QML is not modelled); the parser
  and printer of the JSON library, which are third-party code; data races on fields that the source reads without a lock.
\<close>

end
